(* ===== verification/Prelude.thy ===== *)
theory Prelude
  imports
    Main
    "HOL-Library.Word"
    "HOL-Library.Multiset"
    "HOL-Library.Sublist"
    "HOL-Library.Char_ord"
    "HOL-Library.List_Lexorder"
begin

text \<open>
  Shared vocabulary of the development: Go's byte strings, 64 bit integers, error values and
  the three ways a call can end (it returns, it panics, it blocks for ever), together with the
  model of \<^verbatim>\<open>sort.Slice\<close> and the generic list facts the components use.

  A Go \<^verbatim>\<open>string\<close> and a \<^verbatim>\<open>[]byte\<close> are sequences of bytes; HOL's
  \<^typ>\<open>string\<close> is a list of 8 bit characters, so it models both directly.
\<close>

named_theorems key_simps \<open>facts about keys, patterns and their segments\<close>
named_theorems store_simps \<open>facts about the contents of the storage\<close>
named_theorems stream_simps \<open>frame facts about the stream operations\<close>

type_synonym int64 = "64 word"

datatype error = Error (error_msg: string)

type_synonym 'a result = "error + 'a"

datatype panic = NilDereference | IndexOutOfRange | CloseOfNilChannel

text \<open>How a call ends: with a value, with a run time panic, or not at all.\<close>

datatype 'a outcome = Returns 'a | Panics panic | Blocks

primrec bind_outcome :: "'a outcome \<Rightarrow> ('a \<Rightarrow> 'b outcome) \<Rightarrow> 'b outcome" where
  "bind_outcome (Returns x) f = f x"
| "bind_outcome (Panics p) f = Panics p"
| "bind_outcome Blocks f = Blocks"

lemma bind_outcome_eq_Returns:
  "bind_outcome m f = Returns y \<longleftrightarrow> (\<exists>x. m = Returns x \<and> f x = Returns y)"
  by (cases m) auto

text \<open>\<^verbatim>\<open>time.Duration\<close> counts nanoseconds.\<close>

definition second :: int where
  "second = 1000000000"

definition millisecond :: int where
  "millisecond = 1000000"

section \<open>Sorting with a comparison, as \<^verbatim>\<open>sort.Slice\<close> does\<close>

text \<open>
  \<^verbatim>\<open>sort.Slice\<close> promises a sorted permutation and no stability. The model is a stable
  insertion sort. Its input is always the visiting order of a \<^verbatim>\<open>sync.Map\<close>, which is
  itself unspecified: every outcome of an unstable sort is the stable sort of another visiting
  order, and the lemmas of the components hold for every visiting order.
\<close>

fun insert_by :: "('a \<Rightarrow> 'a \<Rightarrow> bool) \<Rightarrow> 'a \<Rightarrow> 'a list \<Rightarrow> 'a list" where
  "insert_by lt x [] = [x]"
| "insert_by lt x (y # ys) = (if lt y x then y # insert_by lt x ys else x # y # ys)"

fun sort_Slice :: "('a \<Rightarrow> 'a \<Rightarrow> bool) \<Rightarrow> 'a list \<Rightarrow> 'a list" where
  "sort_Slice lt [] = []"
| "sort_Slice lt (x # xs) = insert_by lt x (sort_Slice lt xs)"

lemma mset_insert_by [simp]: "mset (insert_by lt x xs) = add_mset x (mset xs)"
  by (induction xs) auto

lemma mset_sort_Slice [simp]: "mset (sort_Slice lt xs) = mset xs"
  by (induction xs) auto

lemma set_sort_Slice [simp]: "set (sort_Slice lt xs) = set xs"
  by (metis mset_sort_Slice set_mset_mset)

lemma length_sort_Slice [simp]: "length (sort_Slice lt xs) = length xs"
  by (metis mset_sort_Slice size_mset)

lemma distinct_sort_Slice [simp]: "distinct (sort_Slice lt xs) = distinct xs"
  by (metis mset_eq_imp_distinct_iff mset_sort_Slice)

text \<open>The contract a comparison has to meet for the sort to mean something.\<close>

locale strict_weak_order =
  fixes lt :: "'a \<Rightarrow> 'a \<Rightarrow> bool"
  assumes asym: "lt x y \<Longrightarrow> \<not> lt y x"
    and negatively_transitive: "lt x z \<Longrightarrow> lt x y \<or> lt y z"
begin

abbreviation in_order :: "'a list \<Rightarrow> bool" where
  "in_order xs \<equiv> sorted_wrt (\<lambda>x y. \<not> lt y x) xs"

lemma insert_by_sorted: "in_order xs \<Longrightarrow> in_order (insert_by lt x xs)"
proof (induction xs)
  case Nil
  then show ?case by simp
next
  case (Cons y ys)
  have set_ins: "set (insert_by lt x ys) = insert x (set ys)"
    by (metis mset_insert_by set_mset_add_mset_insert set_mset_mset)
  show ?case
  proof (cases "lt y x")
    case True
    then show ?thesis using Cons set_ins by (auto dest: asym)
  next
    case False
    then show ?thesis using Cons.prems by (auto dest: negatively_transitive)
  qed
qed

lemma sort_Slice_sorted: "in_order (sort_Slice lt xs)"
  by (induction xs) (auto intro: insert_by_sorted)

lemma insert_by_front: "\<forall>y \<in> set xs. \<not> lt y x \<Longrightarrow> insert_by lt x xs = x # xs"
  by (cases xs) auto

lemma sort_Slice_id: "in_order xs \<Longrightarrow> sort_Slice lt xs = xs"
  by (induction xs) (auto simp: insert_by_front)

text \<open>
  Any sorted permutation, whatever algorithm produced it, is a fixed point of the model's sort:
  the model loses no behaviour of an unstable sort.
\<close>

lemma any_sorted_permutation_is_covered:
  "in_order ys \<Longrightarrow> mset ys = mset xs \<Longrightarrow> \<exists>zs. mset zs = mset xs \<and> sort_Slice lt zs = ys"
  using sort_Slice_id by blast

end

text \<open>When the comparison compares images in a linear order, the sort is the library's.\<close>

lemma insert_by_eq_insort_key: "insert_by (\<lambda>x y. f x < f y) x xs = insort_key f x xs"
  by (induction xs) auto

lemma sort_Slice_eq_sort_key: "sort_Slice (\<lambda>x y. f x < f y) xs = sort_key f xs"
  by (induction xs) (auto simp: insert_by_eq_insort_key)

section \<open>Association lists with distinct keys\<close>

lemma map_of_eq_of_mset_eq:
  assumes "mset xs = mset ys" and "distinct (map fst xs)"
  shows "map_of xs = map_of ys"
proof -
  have "distinct (map fst ys)"
    using assms by (metis mset_eq_imp_distinct_iff mset_map)
  moreover have "set xs = set ys"
    using assms(1) by (rule mset_eq_setD)
  ultimately show ?thesis
    using assms(2) by (simp add: map_of_inject_set)
qed

lemma map_of_filter_fst:
  "map_of (filter (\<lambda>kv. P (fst kv)) xs) k = (if P k then map_of xs k else None)"
  by (induction xs) auto

lemma filter_eq_mset: "mset xs = mset ys \<Longrightarrow> mset (filter P xs) = mset (filter P ys)"
  by (simp add: mset_filter)

lemma distinct_map_filter_fst: "distinct (map fst xs) \<Longrightarrow> distinct (map fst (filter P xs))"
  by (rule distinct_map_filter)

lemma distinct_submset:
  assumes "mset xs \<subseteq># mset ys" "distinct ys"
  shows "distinct xs"
proof -
  obtain zs where "mset ys = mset xs + mset zs"
    using assms(1) by (metis ex_mset subset_mset.le_iff_add)
  then have "mset ys = mset (xs @ zs)" by simp
  with assms(2) have "distinct (xs @ zs)" by (metis mset_eq_imp_distinct_iff)
  then show ?thesis by simp
qed

section \<open>The first separator of a list\<close>

lemma first_separator_unique:
  "c \<notin> set a \<Longrightarrow> c \<notin> set b \<Longrightarrow> a @ c # x = b @ c # y \<longleftrightarrow> a = b \<and> x = y"
proof (induction a arbitrary: b)
  case Nil
  then show ?case by (cases b) auto
next
  case (Cons d a)
  then show ?case by (cases b) auto
qed

end
