(* ===== verification/GoStrings.thy ===== *)
theory GoStrings
  imports Prelude
begin

text \<open>
  The functions of Go's \<^verbatim>\<open>strings\<close> package the program calls, on byte strings: containment,
  counting, first and last index, splitting at a separator byte, replacing the first occurrence,
  trimming a byte and lower casing. An index is an \<^typ>\<open>int\<close>, \<open>-1\<close> for "absent".
\<close>

abbreviation slash :: char where "slash \<equiv> CHR ''/''"
abbreviation star :: char where "star \<equiv> CHR ''*''"

definition strings_Contains :: "string \<Rightarrow> string \<Rightarrow> bool" where
  "strings_Contains s sub = sublist sub s"

definition strings_Count :: "string \<Rightarrow> char \<Rightarrow> nat" where
  "strings_Count s c = count_list s c"

fun strings_Index :: "string \<Rightarrow> char \<Rightarrow> int" where
  "strings_Index [] c = -1"
| "strings_Index (x # xs) c =
     (if x = c then 0
      else (let i = strings_Index xs c in if i = -1 then -1 else i + 1))"

fun strings_LastIndexAny :: "string \<Rightarrow> char \<Rightarrow> int" where
  "strings_LastIndexAny [] c = -1"
| "strings_LastIndexAny (x # xs) c =
     (let i = strings_LastIndexAny xs c
      in if i \<noteq> -1 then i + 1 else if x = c then 0 else -1)"

fun strings_Split :: "string \<Rightarrow> char \<Rightarrow> string list" where
  "strings_Split [] c = [[]]"
| "strings_Split (x # xs) c =
     (if x = c then [] # strings_Split xs c
      else (case strings_Split xs c of [] \<Rightarrow> [[x]] | p # ps \<Rightarrow> (x # p) # ps))"

text \<open>\<^verbatim>\<open>strings.Replace(s, old, new, 1)\<close> for a non-empty \<^verbatim>\<open>old\<close>.\<close>

fun strings_Replace1 :: "string \<Rightarrow> string \<Rightarrow> string \<Rightarrow> string" where
  "strings_Replace1 [] old new = (if old = [] then new else [])"
| "strings_Replace1 (x # xs) old new =
     (if prefix old (x # xs) then new @ drop (length old) (x # xs)
      else x # strings_Replace1 xs old new)"

definition strings_Trim :: "string \<Rightarrow> char \<Rightarrow> string" where
  "strings_Trim s c = rev (dropWhile (\<lambda>x. x = c) (rev (dropWhile (\<lambda>x. x = c) s)))"

definition is_ascii :: "char \<Rightarrow> bool" where
  "is_ascii c \<longleftrightarrow> (of_char c :: nat) < 128"

definition lower_byte :: "char \<Rightarrow> char" where
  "lower_byte c =
     (if 65 \<le> (of_char c :: nat) \<and> (of_char c :: nat) \<le> 90 then char_of ((of_char c :: nat) + 32) else c)"

text \<open>
  \<^verbatim>\<open>strings.ToLower\<close> lowers an ASCII string byte by byte. On other strings it follows the
  Unicode tables, which are the parameter \<open>unicode_lower\<close>.
\<close>

definition strings_ToLower :: "(string \<Rightarrow> string) \<Rightarrow> string \<Rightarrow> string" where
  "strings_ToLower unicode_lower s =
     (if list_all is_ascii s then map lower_byte s else unicode_lower s)"

section \<open>Containment, counts and indexes\<close>

lemma strings_Contains_char [simp]: "strings_Contains s [c] \<longleftrightarrow> c \<in> set s"
  by (auto simp: strings_Contains_def sublist_def dest: split_list)

lemma strings_Count_char: "strings_Count s c = length (filter (\<lambda>x. x = c) s)"
  by (induction s) (auto simp: strings_Count_def)

lemma strings_Count_append [simp]: "strings_Count (s @ t) c = strings_Count s c + strings_Count t c"
  by (simp add: strings_Count_def)

lemma strings_Count_simps [simp]:
  "strings_Count [] c = 0"
  "strings_Count (x # xs) c = (if x = c then Suc (strings_Count xs c) else strings_Count xs c)"
  by (simp_all add: strings_Count_def)

lemma strings_Count_zero [simp]: "strings_Count s c = 0 \<longleftrightarrow> c \<notin> set s"
  by (induction s) auto

lemma strings_Index_ge: "-1 \<le> strings_Index s c"
  by (induction s) (auto simp: Let_def)

lemma strings_Index_absent [simp]: "strings_Index s c = -1 \<longleftrightarrow> c \<notin> set s"
proof (induction s)
  case Nil
  then show ?case by simp
next
  case (Cons x xs)
  then show ?case using strings_Index_ge [of xs c] by (auto simp: Let_def)
qed

lemma strings_Index_append: "c \<notin> set s \<Longrightarrow> strings_Index (s @ c # t) c = int (length s)"
  by (induction s) (auto simp: Let_def)

lemma strings_Index_split:
  "c \<in> set s \<Longrightarrow> \<exists>n. strings_Index s c = int n \<and> n < length s \<and> s ! n = c \<and> c \<notin> set (take n s)"
proof (induction s)
  case Nil
  then show ?case by simp
next
  case (Cons x xs)
  show ?case
  proof (cases "x = c")
    case True
    then show ?thesis by (intro exI [of _ 0]) simp
  next
    case False
    with Cons obtain n where "strings_Index xs c = int n" "n < length xs" "xs ! n = c"
        "c \<notin> set (take n xs)"
      by auto
    with False show ?thesis by (intro exI [of _ "Suc n"]) (auto simp: Let_def)
  qed
qed

section \<open>Splitting and the last segment\<close>

lemma strings_Split_not_Nil [simp]: "strings_Split s c \<noteq> []"
  by (induction s) (auto split: list.splits)

lemma length_strings_Split: "length (strings_Split s c) = Suc (strings_Count s c)"
  by (induction s) (auto split: list.splits)

lemma strings_Split_no_sep: "c \<notin> set s \<Longrightarrow> strings_Split s c = [s]"
  by (induction s) auto

lemma strings_Split_sep: "c \<notin> set s \<Longrightarrow> strings_Split (s @ c # t) c = s # strings_Split t c"
  by (induction s) auto

lemma last_strings_Split:
  "last (strings_Split s c) = drop (nat (strings_LastIndexAny s c + 1)) s"
proof (induction s)
  case Nil
  then show ?case by simp
next
  case (Cons x xs)
  have ge: "-1 \<le> strings_LastIndexAny ys c" for ys
    by (induction ys) (auto simp: Let_def)
  show ?case
  proof (cases "strings_LastIndexAny xs c = -1")
    case True
    have "c \<notin> set xs" using True
    proof (induction xs)
      case Nil
      then show ?case by simp
    next
      case (Cons y ys)
      then show ?case using ge [of ys] by (auto simp: Let_def split: if_splits)
    qed
    then have "strings_Split xs c = [xs]" by (rule strings_Split_no_sep)
    with True show ?thesis by simp
  next
    case False
    have "\<exists>p q ps. strings_Split xs c = p # q # ps" using False
    proof (induction xs)
      case Nil
      then show ?case by simp
    next
      case (Cons y ys)
      then show ?case by (cases "strings_Split ys c") (auto simp: Let_def split: if_splits)
    qed
    moreover have "nat (strings_LastIndexAny xs c + 2) = Suc (nat (strings_LastIndexAny xs c + 1))"
      using ge [of xs] by linarith
    ultimately show ?thesis using False Cons.IH ge [of xs]
      by (auto simp: Let_def add.assoc)
  qed
qed

section \<open>Replacing the first occurrence, trimming\<close>

lemma strings_Replace1_absent:
  "old \<noteq> [] \<Longrightarrow> \<not> sublist old s \<Longrightarrow> strings_Replace1 s old new = s"
  by (induction s) (auto simp: sublist_Cons_right)

lemma dropWhile_hd: "xs = [] \<or> \<not> P (hd xs) \<Longrightarrow> dropWhile P xs = xs"
  by (cases xs) auto

lemma strings_Trim_id: "s = [] \<or> (hd s \<noteq> c \<and> last s \<noteq> c) \<Longrightarrow> strings_Trim s c = s"
  using dropWhile_hd [of s "\<lambda>x. x = c"] dropWhile_hd [of "rev s" "\<lambda>x. x = c"]
  by (auto simp: strings_Trim_def hd_rev)

end
