(* ===== verification/GoStrconv.thy ===== *)
theory GoStrconv
  imports GoStrings
begin

text \<open>
  \<^verbatim>\<open>strconv.FormatInt\<close> and \<^verbatim>\<open>strconv.ParseInt(_, base, 64)\<close> of Go's standard library,
  for bases 2 to 36. The program writes timestamps in base 16 (keys, versions) and base 10 (the
  clock), and reads base 16 back. The parser distinguishes the library's two errors and stops at
  the first digit that leaves 64 bits, as the library's loop does.
\<close>

definition digit_chars :: string where
  "digit_chars = ''0123456789abcdefghijklmnopqrstuvwxyz''"

function format_nat :: "nat \<Rightarrow> nat \<Rightarrow> string" where
  "format_nat base n =
     (if base < 2 \<or> n < base then [digit_chars ! n]
      else format_nat base (n div base) @ [digit_chars ! (n mod base)])"
  by pat_completeness auto
termination
  by (relation "measure snd") auto

declare format_nat.simps [simp del]

definition FormatInt :: "int64 \<Rightarrow> nat \<Rightarrow> string" where
  "FormatInt i base =
     (if sint i < 0 then CHR ''-'' # format_nat base (nat (- sint i))
      else format_nat base (nat (sint i)))"

datatype num_error = ErrSyntax | ErrRange

definition digit_val :: "char \<Rightarrow> nat option" where
  "digit_val c =
     (let n = (of_char c :: nat)
      in if 48 \<le> n \<and> n \<le> 57 then Some (n - 48)
         else if 97 \<le> n \<and> n \<le> 122 then Some (n - 97 + 10)
         else if 65 \<le> n \<and> n \<le> 90 then Some (n - 65 + 10)
         else None)"

text \<open>The loop of \<^verbatim>\<open>ParseUint\<close>; \<open>n\<close> is the value read so far, below \<open>2 ^ 64\<close>.\<close>

fun parse_digits :: "nat \<Rightarrow> nat \<Rightarrow> string \<Rightarrow> num_error + nat" where
  "parse_digits base n [] = Inr n"
| "parse_digits base n (c # cs) =
     (case digit_val c of
        None \<Rightarrow> Inl ErrSyntax
      | Some d \<Rightarrow>
          if base \<le> d then Inl ErrSyntax
          else if 2 ^ 64 \<le> n * base + d then Inl ErrRange
          else parse_digits base (n * base + d) cs)"

definition ParseUint :: "string \<Rightarrow> nat \<Rightarrow> num_error + nat" where
  "ParseUint s base = (if s = [] then Inl ErrSyntax else parse_digits base 0 s)"

definition ParseInt :: "string \<Rightarrow> nat \<Rightarrow> num_error + int64" where
  "ParseInt s0 base =
     (if s0 = [] then Inl ErrSyntax
      else
        (let neg = (hd s0 = CHR ''-'');
             s = (if hd s0 = CHR ''+'' \<or> hd s0 = CHR ''-'' then tl s0 else s0)
         in case ParseUint s base of
              Inl e \<Rightarrow> Inl e
            | Inr un \<Rightarrow>
                if \<not> neg \<and> 2 ^ 63 \<le> un then Inl ErrRange
                else if neg \<and> 2 ^ 63 < un then Inl ErrRange
                else Inr (if neg then - word_of_nat un else word_of_nat un)))"

section \<open>Digits\<close>

lemma digit_table:
  "list_all (\<lambda>n. digit_val (digit_chars ! n) = Some n \<and>
     digit_chars ! n \<notin> {CHR ''+'', CHR ''-'', slash, star}) [0..<36]"
  by (simp add: upt_rec digit_val_def digit_chars_def)

lemma digit_val_digit_chars: "n < 36 \<Longrightarrow> digit_val (digit_chars ! n) = Some n"
  using digit_table by (simp add: list_all_iff)

lemma digit_chars_no_sign: "n < 36 \<Longrightarrow> digit_chars ! n \<notin> {CHR ''+'', CHR ''-'', slash, star}"
  using digit_table by (simp add: list_all_iff)

definition is_alnum :: "char \<Rightarrow> bool" where
  "is_alnum c \<longleftrightarrow>
     (let n = (of_char c :: nat)
      in (48 \<le> n \<and> n \<le> 57) \<or> (65 \<le> n \<and> n \<le> 90) \<or> (97 \<le> n \<and> n \<le> 122))"

lemma digit_alnum_table: "list_all (\<lambda>n. is_alnum (digit_chars ! n)) [0..<36]"
  by (simp add: upt_rec is_alnum_def digit_chars_def)

lemma digit_chars_alnum: "n < 36 \<Longrightarrow> is_alnum (digit_chars ! n)"
  using digit_alnum_table by (simp add: list_all_iff)

lemma format_nat_not_Nil [simp]: "format_nat base n \<noteq> []"
  by (subst format_nat.simps) simp

lemma format_nat_set:
  assumes "2 \<le> base" "base \<le> 36"
  shows "set (format_nat base n) \<subseteq> {digit_chars ! d |d. d < base}"
  using assms
proof (induction base n rule: format_nat.induct)
  case (1 base n)
  show ?case
  proof (cases "n < base")
    case True
    then show ?thesis by (subst format_nat.simps) auto
  next
    case False
    have "n mod base < base" using "1.prems" by simp
    then show ?thesis using False 1 by (subst format_nat.simps) auto
  qed
qed

lemma format_nat_alnum:
  "2 \<le> base \<Longrightarrow> base \<le> 36 \<Longrightarrow> list_all is_alnum (format_nat base n)"
  using format_nat_set [of base n] digit_chars_alnum by (fastforce simp: list_all_iff)

section \<open>Round trip\<close>

lemma parse_digits_append:
  "parse_digits base n (s @ t) =
     (case parse_digits base n s of Inl e \<Rightarrow> Inl e | Inr m \<Rightarrow> parse_digits base m t)"
  by (induction s arbitrary: n) (auto split: option.splits)

lemma parse_digits_format_nat:
  assumes "2 \<le> base" "base \<le> 36" "n < 2 ^ 64"
  shows "parse_digits base 0 (format_nat base n) = Inr n"
  using assms
proof (induction base n rule: format_nat.induct)
  case (1 base n)
  show ?case
  proof (cases "n < base")
    case True
    with "1.prems" show ?thesis
      by (subst format_nat.simps) (simp add: digit_val_digit_chars)
  next
    case False
    have m: "n mod base < 36" "n mod base < base"
      using "1.prems" by (auto intro: less_le_trans [OF mod_less_divisor])
    have "n div base < 2 ^ 64"
      using "1.prems" by (meson div_le_dividend le_less_trans)
    with False 1 have "parse_digits base 0 (format_nat base (n div base)) = Inr (n div base)"
      by simp
    moreover have "n div base * base + n mod base = n" by simp
    ultimately show ?thesis
      using False "1.prems" m
      by (subst format_nat.simps) (simp add: parse_digits_append digit_val_digit_chars [OF m(1)] not_le)
  qed
qed

lemma format_nat_hd_no_sign:
  assumes "2 \<le> base" "base \<le> 36"
  shows "hd (format_nat base n) \<noteq> CHR ''+'' \<and> hd (format_nat base n) \<noteq> CHR ''-''"
proof -
  have "hd (format_nat base n) \<in> {digit_chars ! d |d. d < base}"
    using format_nat_set [OF assms, of n] hd_in_set [OF format_nat_not_Nil] by blast
  then obtain d where "hd (format_nat base n) = digit_chars ! d" "d < 36"
    using assms by auto
  then show ?thesis using digit_chars_no_sign [of d] by auto
qed

lemma sint64_bounds: "- (2 ^ 63) \<le> sint (i :: int64)" "sint (i :: int64) < 2 ^ 63"
  using sint_ge [of i] sint_lt [of i] by simp_all

lemma ParseInt_FormatInt:
  assumes "2 \<le> base" "base \<le> 36"
  shows "ParseInt (FormatInt i base) base = Inr i"
proof (cases "sint i < 0")
  case True
  let ?n = "nat (- sint i)"
  have n: "?n \<le> 2 ^ 63" using sint64_bounds [of i] by (simp add: nat_le_iff)
  have "parse_digits base 0 (format_nat base ?n) = Inr ?n"
    using assms n by (intro parse_digits_format_nat) auto
  moreover have "- word_of_nat ?n = i"
    using True by (simp add: of_nat_nat)
  ultimately show ?thesis
    using True n by (simp add: FormatInt_def ParseInt_def ParseUint_def)
next
  case False
  let ?n = "nat (sint i)"
  have n: "?n < 2 ^ 63" using sint64_bounds [of i] False by (simp add: nat_less_iff)
  have "parse_digits base 0 (format_nat base ?n) = Inr ?n"
    using assms n by (intro parse_digits_format_nat) auto
  moreover have "word_of_nat ?n = i"
    using False by (simp add: of_nat_nat)
  ultimately show ?thesis
    using False n format_nat_hd_no_sign [OF assms, of ?n]
    by (simp add: FormatInt_def ParseInt_def ParseUint_def)
qed

lemma FormatInt_inject:
  "2 \<le> base \<Longrightarrow> base \<le> 36 \<Longrightarrow> FormatInt i base = FormatInt j base \<longleftrightarrow> i = j"
  by (metis ParseInt_FormatInt sum.inject(2))

lemma FormatInt_not_Nil [simp]: "FormatInt i base \<noteq> []"
  by (simp add: FormatInt_def)

lemma FormatInt_chars:
  "2 \<le> base \<Longrightarrow> base \<le> 36 \<Longrightarrow> c \<in> set (FormatInt i base) \<Longrightarrow> is_alnum c \<or> c = CHR ''-''"
  using format_nat_alnum [of base] by (auto simp: FormatInt_def list_all_iff split: if_splits)

lemma FormatInt_nonneg_alnum:
  "2 \<le> base \<Longrightarrow> base \<le> 36 \<Longrightarrow> 0 \<le> sint i \<Longrightarrow> list_all is_alnum (FormatInt i base)"
  by (simp add: FormatInt_def format_nat_alnum)

end
