(* ===== verification/GoGlob.thy ===== *)
theory GoGlob
  imports GoStrings
begin

text \<open>
  \<^verbatim>\<open>filepath.Match\<close> of Go's standard library (on a system whose separator is \<open>/\<close>), which
  \<^verbatim>\<open>key.Match\<close> calls: the pattern is cut into star-free chunks, each chunk is matched at the
  first position where it fits, and there is no backtracking over chunks. Character classes,
  \<^verbatim>\<open>?\<close> and escapes are modelled too, with the library's UTF-8 decoding.

  What such a match means, and that this algorithm decides it, is the theory \<open>GlobSpec\<close>.
\<close>

datatype bad_pattern = ErrBadPattern

abbreviation rune_error :: nat where "rune_error \<equiv> 65533"

section \<open>UTF-8 decoding\<close>

abbreviation byte :: "char \<Rightarrow> nat" where "byte c \<equiv> of_char c"

definition between :: "nat \<Rightarrow> nat \<Rightarrow> nat \<Rightarrow> bool" where
  "between lo x hi \<longleftrightarrow> lo \<le> x \<and> x \<le> hi"

text \<open>\<^verbatim>\<open>utf8.DecodeRuneInString\<close>: the first rune and its width in bytes.\<close>

fun DecodeRuneInString :: "string \<Rightarrow> nat \<times> nat" where
  "DecodeRuneInString [] = (rune_error, 0)"
| "DecodeRuneInString (c0 # cs) =
     (let b0 = byte c0 in
      if b0 < 128 then (b0, 1)
      else if between 194 b0 223 then
        (case cs of
           c1 # _ \<Rightarrow>
             if between 128 (byte c1) 191 then ((b0 - 192) * 64 + (byte c1 - 128), 2)
             else (rune_error, 1)
         | _ \<Rightarrow> (rune_error, 1))
      else if between 224 b0 239 then
        (case cs of
           c1 # c2 # _ \<Rightarrow>
             if between (if b0 = 224 then 160 else 128) (byte c1) (if b0 = 237 then 159 else 191)
                \<and> between 128 (byte c2) 191
             then ((b0 - 224) * 4096 + (byte c1 - 128) * 64 + (byte c2 - 128), 3)
             else (rune_error, 1)
         | _ \<Rightarrow> (rune_error, 1))
      else if between 240 b0 244 then
        (case cs of
           c1 # c2 # c3 # _ \<Rightarrow>
             if between (if b0 = 240 then 144 else 128) (byte c1) (if b0 = 244 then 143 else 191)
                \<and> between 128 (byte c2) 191 \<and> between 128 (byte c3) 191
             then ((b0 - 240) * 262144 + (byte c1 - 128) * 4096 + (byte c2 - 128) * 64
                   + (byte c3 - 128), 4)
             else (rune_error, 1)
         | _ \<Rightarrow> (rune_error, 1))
      else (rune_error, 1))"

section \<open>The matcher\<close>

definition getEsc :: "string \<Rightarrow> (nat \<times> string) option" where
  "getEsc chunk0 =
     (if chunk0 = [] \<or> hd chunk0 = CHR ''-'' \<or> hd chunk0 = CHR '']'' then None
      else
        (let chunk = (if hd chunk0 = CHR 0x5C then tl chunk0 else chunk0)
         in if chunk = [] then None
            else
              (let (r, n) = DecodeRuneInString chunk; nchunk = drop n chunk
               in if (r = rune_error \<and> n = 1) \<or> nchunk = [] then None else Some (r, nchunk))))"

lemma DecodeRune_width: "s \<noteq> [] \<Longrightarrow> 0 < snd (DecodeRuneInString s)"
  by (cases s) (auto simp: Let_def split: list.splits)

lemma getEsc_shorter: "getEsc chunk = Some (r, nchunk) \<Longrightarrow> length nchunk < length chunk"
proof -
  have shrink: "length (drop (snd (DecodeRuneInString s)) s) < length s" if "s \<noteq> []" for s
    using DecodeRune_width [OF that] that by (cases s) auto
  assume "getEsc chunk = Some (r, nchunk)"
  then show ?thesis
    using shrink [of chunk] shrink [of "tl chunk"]
    by (cases chunk) (auto simp: getEsc_def Let_def split: if_splits prod.splits)
qed

text \<open>The ranges of a class \<^verbatim>\<open>[...]\<close>: whether \<open>r\<close> is in one of them, and the rest.\<close>

function matchRanges :: "nat \<Rightarrow> string \<Rightarrow> nat \<Rightarrow> bool \<Rightarrow> (bool \<times> string) option" where
  "matchRanges r chunk nrange m =
     (if chunk \<noteq> [] \<and> hd chunk = CHR '']'' \<and> 0 < nrange then Some (m, tl chunk)
      else
        (case getEsc chunk of
           None \<Rightarrow> None
         | Some (lo, chunk1) \<Rightarrow>
             (if hd chunk1 = CHR ''-'' then
                (case getEsc (tl chunk1) of
                   None \<Rightarrow> None
                 | Some (hi, chunk2) \<Rightarrow>
                     matchRanges r chunk2 (Suc nrange) (m \<or> (lo \<le> r \<and> r \<le> hi)))
              else matchRanges r chunk1 (Suc nrange) (m \<or> (lo \<le> r \<and> r \<le> lo)))))"
  by pat_completeness auto
termination
  by (relation "measure (\<lambda>(r, chunk, nrange, m). length chunk)")
    (auto dest!: getEsc_shorter)

declare matchRanges.simps [simp del]

lemma matchRanges_shorter:
  "matchRanges r chunk nrange m = Some (b, rest) \<Longrightarrow> length rest \<le> length chunk"
proof (induction r chunk nrange m rule: matchRanges.induct)
  case (1 r chunk nrange m)
  show ?case
  proof (cases "chunk \<noteq> [] \<and> hd chunk = CHR '']'' \<and> 0 < nrange")
    case True
    with "1.prems" show ?thesis by (auto simp: matchRanges.simps [of r chunk])
  next
    case False
    then obtain lo chunk1 where lo: "getEsc chunk = Some (lo, chunk1)"
      using "1.prems" by (auto simp: matchRanges.simps [of r chunk] split: option.splits)
    note shorter = getEsc_shorter [OF lo]
    show ?thesis
    proof (cases "hd chunk1 = CHR ''-''")
      case True
      then obtain hi chunk2 where hi: "getEsc (tl chunk1) = Some (hi, chunk2)"
        using "1.prems" False lo
        by (auto simp: matchRanges.simps [of r chunk] split: option.splits)
      have "matchRanges r chunk2 (Suc nrange) (m \<or> lo \<le> r \<and> r \<le> hi) = Some (b, rest)"
        using "1.prems" False lo hi True by (simp add: matchRanges.simps [of r chunk])
      with "1.IH"(1) [OF False lo refl True hi refl] show ?thesis
        using shorter getEsc_shorter [OF hi] by simp
    next
      case no: False
      have "matchRanges r chunk1 (Suc nrange) (m \<or> lo \<le> r \<and> r \<le> lo) = Some (b, rest)"
        using "1.prems" False lo no by (simp add: matchRanges.simps [of r chunk])
      with "1.IH"(2) [OF False lo refl no] show ?thesis using shorter by simp
    qed
  qed
qed

lemma matchRanges_class_shorter:
  "matchRanges r (if n then tl chunk else chunk) 0 False = Some (b, rest) \<Longrightarrow>
     length rest < Suc (length chunk)"
  by (drule matchRanges_shorter) (auto split: if_splits)

text \<open>
  \<^verbatim>\<open>matchChunk\<close>: whether the chunk matches a prefix of \<open>s\<close>, and the rest of \<open>s\<close>. After a
  mismatch (\<open>failed\<close>) the chunk is still parsed, so that a malformed pattern is reported.
\<close>

function matchChunk :: "bool \<Rightarrow> string \<Rightarrow> string \<Rightarrow> bad_pattern + string option" where
  "matchChunk failed0 [] s = Inr (if failed0 then None else Some s)"
| "matchChunk failed0 (c # chunk) s =
     (let failed = (failed0 \<or> s = []) in
      if c = CHR ''['' then
        (let (r, n) = (if failed then (0, 0) else DecodeRuneInString s);
             negated = (chunk \<noteq> [] \<and> hd chunk = CHR 0x5E);
             chunk1 = (if negated then tl chunk else chunk)
         in case matchRanges r chunk1 0 False of
              None \<Rightarrow> Inl ErrBadPattern
            | Some (m, rest) \<Rightarrow> matchChunk (failed \<or> m = negated) rest (drop n s))
      else if c = CHR 0x3F then
        (if failed then matchChunk True chunk s
         else matchChunk (hd s = slash) chunk (drop (snd (DecodeRuneInString s)) s))
      else if c = CHR 0x5C then
        (case chunk of
           [] \<Rightarrow> Inl ErrBadPattern
         | d # chunk2 \<Rightarrow>
             if failed then matchChunk True chunk2 s
             else matchChunk (d \<noteq> hd s) chunk2 (tl s))
      else if failed then matchChunk True chunk s
      else matchChunk (c \<noteq> hd s) chunk (tl s))"
  by pat_completeness auto
termination
  by (relation "measure (\<lambda>(failed, chunk, s). length chunk)")
    (auto dest: matchRanges_class_shorter)

fun scan :: "bool \<Rightarrow> string \<Rightarrow> string \<times> string" where
  "scan inrange [] = ([], [])"
| "scan inrange (c # cs) =
     (if c = CHR 0x5C then
        (case cs of
           [] \<Rightarrow> ([c], [])
         | d # ds \<Rightarrow> (let (chunk, rest) = scan inrange ds in (c # d # chunk, rest)))
      else if c = star \<and> \<not> inrange then ([], c # cs)
      else
        (let (chunk, rest) =
           scan (if c = CHR ''['' then True else if c = CHR '']'' then False else inrange) cs
         in (c # chunk, rest)))"

definition scanChunk :: "string \<Rightarrow> bool \<times> string \<times> string" where
  "scanChunk pattern0 =
     (pattern0 \<noteq> [] \<and> hd pattern0 = star, scan False (dropWhile (\<lambda>c. c = star) pattern0))"

text \<open>
  The inner loop of \<^verbatim>\<open>Match\<close>: skip bytes of \<open>name\<close>, none of them a separator, until the chunk
  matches (up to the end of the name when it is the last chunk).
\<close>

fun skip_match :: "string \<Rightarrow> bool \<Rightarrow> string \<Rightarrow> bad_pattern + string option" where
  "skip_match chunk is_last [] = Inr None"
| "skip_match chunk is_last (c # name) =
     (if c = slash then Inr None
      else
        (case matchChunk False chunk name of
           Inl e \<Rightarrow> Inl e
         | Inr (Some t) \<Rightarrow>
             if is_last \<and> t \<noteq> [] then skip_match chunk is_last name else Inr (Some t)
         | Inr None \<Rightarrow> skip_match chunk is_last name))"

lemma scan_append: "fst (scan inrange p) @ snd (scan inrange p) = p"
proof (induction inrange p rule: scan.induct)
  case (2 inrange c cs)
  then show ?case by (cases cs) (auto simp: Let_def split_beta)
qed simp

lemma scan_length: "length (snd (scan inrange p)) \<le> length p"
  using arg_cong [OF scan_append [of inrange p], of length] by simp

lemma scan_chunk_not_Nil: "p \<noteq> [] \<Longrightarrow> hd p \<noteq> star \<Longrightarrow> fst (scan False p) \<noteq> []"
  by (cases p) (auto simp: Let_def split_beta split: list.splits)

lemma scan_shorter: "p \<noteq> [] \<Longrightarrow> hd p \<noteq> star \<Longrightarrow> length (snd (scan False p)) < length p"
  using arg_cong [OF scan_append [of False p], of length] scan_chunk_not_Nil [of p]
  by (cases "fst (scan False p)") auto

lemma scanChunk_shorter:
  assumes "p \<noteq> []"
  shows "length (snd (snd (scanChunk p))) < length p"
proof (cases "hd p = star")
  case True
  let ?q = "dropWhile (\<lambda>c. c = star) p"
  have "length ?q < length p"
    using assms True by (cases p) (auto simp: le_imp_less_Suc length_dropWhile_le)
  then show ?thesis
    using scan_length [of False ?q] by (simp add: scanChunk_def)
next
  case False
  then have "dropWhile (\<lambda>c. c = star) p = p" using assms by (cases p) auto
  with False assms show ?thesis by (simp add: scanChunk_def scan_shorter)
qed

lemma scanChunk_rest_shorter:
  "(starred, chunk, rest) = scanChunk p \<Longrightarrow> p \<noteq> [] \<Longrightarrow> length rest < length p"
  using scanChunk_shorter [of p] by (metis snd_conv)

function filepath_Match :: "string \<Rightarrow> string \<Rightarrow> bad_pattern + bool" where
  "filepath_Match pattern0 name =
     (if pattern0 = [] then Inr (name = [])
      else
        (case scanChunk pattern0 of
           (starred, chunk, pattern1) \<Rightarrow>
             if starred \<and> chunk = [] then Inr (slash \<notin> set name)
             else
               (case matchChunk False chunk name of
                  Inl e \<Rightarrow> Inl e
                | Inr r \<Rightarrow>
                    (case (case r of
                             None \<Rightarrow> None
                           | Some t \<Rightarrow> if t = [] \<or> pattern1 \<noteq> [] then Some t else None) of
                       Some t \<Rightarrow> filepath_Match pattern1 t
                     | None \<Rightarrow>
                         if starred then
                           (case skip_match chunk (pattern1 = []) name of
                              Inl e \<Rightarrow> Inl e
                            | Inr None \<Rightarrow> Inr False
                            | Inr (Some t) \<Rightarrow> filepath_Match pattern1 t)
                         else Inr False))))"
  by pat_completeness auto
termination
  by (relation "measure (\<lambda>(p, name). length p)") (auto dest: scanChunk_rest_shorter)

declare filepath_Match.simps [simp del]

end
