(* ===== verification/GlobSpec.thy ===== *)
theory GlobSpec
  imports GoGlob
begin

text \<open>
  What a match should mean: \<open>globs p k\<close> is an inductive relation in which a star stands for any
  sequence without a separator and every other character for itself. The greedy algorithm of
  \<open>GoGlob\<close> decides it for the patterns made of literals and stars, and it works segment by
  segment.
\<close>

inductive globs :: "string \<Rightarrow> string \<Rightarrow> bool" where
  globs_Nil: "globs [] []"
| globs_lit: "c \<noteq> star \<Longrightarrow> globs p k \<Longrightarrow> globs (c # p) (c # k)"
| globs_star: "slash \<notin> set w \<Longrightarrow> globs p k \<Longrightarrow> globs (star # p) (w @ k)"

inductive_simps globs_Nil_iff [simp]: "globs [] k"
inductive_simps globs_Cons_iff: "globs (c # p) k"

definition plain_pattern :: "string \<Rightarrow> bool" where
  "plain_pattern p \<longleftrightarrow> set p \<inter> {CHR ''['', CHR 0x3F, CHR 0x5C} = {}"

lemma plain_pattern_Nil [simp]: "plain_pattern []"
  by (simp add: plain_pattern_def)

lemma plain_pattern_append [simp]:
  "plain_pattern (p @ q) \<longleftrightarrow> plain_pattern p \<and> plain_pattern q"
  by (auto simp: plain_pattern_def)

lemma plain_pattern_Cons [simp]:
  "plain_pattern (c # q) \<longleftrightarrow> c \<notin> {CHR ''['', CHR 0x3F, CHR 0x5C} \<and> plain_pattern q"
  by (auto simp: plain_pattern_def)

section \<open>The relation, one pattern constructor at a time\<close>

lemma globs_lit_iff: "c \<noteq> star \<Longrightarrow> globs (c # p) k \<longleftrightarrow> (\<exists>k'. k = c # k' \<and> globs p k')"
  by (subst globs_Cons_iff) auto

lemma globs_lits_iff:
  "star \<notin> set c \<Longrightarrow> globs (c @ p) k \<longleftrightarrow> prefix c k \<and> globs p (drop (length c) k)"
proof (induction c arbitrary: k)
  case (Cons a c)
  from Cons.prems have "globs ((a # c) @ p) k \<longleftrightarrow> (\<exists>k'. k = a # k' \<and> globs (c @ p) k')"
    by (simp add: globs_lit_iff eq_commute)
  with Cons show ?case by (cases k) auto
qed simp

lemma globs_star_iff:
  "globs (star # p) k \<longleftrightarrow> (\<exists>w k'. k = w @ k' \<and> slash \<notin> set w \<and> globs p k')"
  by (subst globs_Cons_iff) auto

lemma globs_star_absorb: "slash \<notin> set w \<Longrightarrow> globs (star # p) k \<Longrightarrow> globs (star # p) (w @ k)"
  unfolding globs_star_iff by (metis Un_iff append.assoc set_append)

lemma globs_star_star: "globs (star # star # p) k \<longleftrightarrow> globs (star # p) k"
proof
  assume "globs (star # star # p) k"
  then show "globs (star # p) k"
    unfolding globs_star_iff [of "star # p"] using globs_star_absorb by blast
next
  assume "globs (star # p) k"
  then show "globs (star # star # p) k"
    using globs_star [of "[]"] by force
qed

lemma globs_stars:
  "p \<noteq> [] \<Longrightarrow> hd p = star \<Longrightarrow> globs p k \<longleftrightarrow> globs (star # dropWhile (\<lambda>c. c = star) p) k"
proof (induction p)
  case Nil
  then show ?case by simp
next
  case (Cons c p)
  show ?case
  proof (cases "p \<noteq> [] \<and> hd p = star")
    case True
    then obtain q where "p = star # q" by (cases p) auto
    with Cons True show ?thesis by (simp add: globs_star_star)
  next
    case False
    then have "dropWhile (\<lambda>c. c = star) p = p" by (cases p) auto
    with Cons.prems show ?thesis by simp
  qed
qed

lemma globs_star_only: "globs [star] k \<longleftrightarrow> slash \<notin> set k"
  by (auto simp: globs_star_iff)

lemma globs_star_drop:
  "globs (star # p) k \<longleftrightarrow> (\<exists>j \<le> length k. slash \<notin> set (take j k) \<and> globs p (drop j k))"
proof
  assume "globs (star # p) k"
  then obtain w k' where "k = w @ k'" "slash \<notin> set w" "globs p k'"
    by (auto simp: globs_star_iff)
  then show "\<exists>j \<le> length k. slash \<notin> set (take j k) \<and> globs p (drop j k)"
    by (intro exI [of _ "length w"]) simp
next
  assume "\<exists>j \<le> length k. slash \<notin> set (take j k) \<and> globs p (drop j k)"
  then show "globs (star # p) k"
    by (metis append_take_drop_id globs_star)
qed

section \<open>The algorithm on plain patterns\<close>

lemma matchChunk_failed:
  "plain_pattern c \<Longrightarrow> matchChunk True c s = Inr None"
  by (induction c arbitrary: s) (auto simp: Let_def)

lemma matchChunk_plain:
  "plain_pattern c \<Longrightarrow>
     matchChunk False c s = Inr (if prefix c s then Some (drop (length c) s) else None)"
proof (induction c arbitrary: s)
  case (Cons a c)
  then show ?case by (cases s; cases "a = hd s") (auto simp: Let_def matchChunk_failed)
qed simp

lemma scan_plain:
  "plain_pattern p \<Longrightarrow>
     scan False p = (takeWhile (\<lambda>c. c \<noteq> star) p, dropWhile (\<lambda>c. c \<noteq> star) p)"
  by (induction p) auto

text \<open>
  Why the leftmost fit suffices before a star: if the chunk fits at the start and again \<open>j\<close>
  bytes later, over bytes without a separator, then the bytes between the two ends hold no
  separator either, so the star that follows can absorb them.
\<close>

lemma overlap_no_slash:
  assumes w: "slash \<notin> set (take j s)" and j: "0 < j"
    and fit0: "prefix c s" and fitj: "prefix c (drop j s)"
  shows "slash \<notin> set c"
proof
  assume "slash \<in> set c"
  then obtain n where n: "n < length c" "c ! n = slash" "slash \<notin> set (take n c)"
    using strings_Index_split by metis
  from fit0 n have len: "n < length s" "s ! n = slash"
    by (auto simp: prefix_def nth_append)
  have jn: "j \<le> n"
  proof (rule ccontr)
    assume "\<not> j \<le> n"
    then have "s ! n \<in> set (take j s)"
      using len by (metis in_set_conv_nth length_take min_less_iff_conj not_le nth_take)
    with w len show False by simp
  qed
  have "c ! (n - j) = drop j s ! (n - j)"
    using fitj n by (auto simp: prefix_def nth_append)
  also have "\<dots> = slash" using jn len by (simp add: less_imp_le)
  finally have "take n c ! (n - j) = slash" using j jn by simp
  moreover have "take n c ! (n - j) \<in> set (take n c)"
    using n j jn by (intro nth_mem) auto
  ultimately show False using n by simp
qed

text \<open>Hence the leftmost fit is as good as any later one.\<close>

lemma leftmost_fit_suffices:
  assumes w: "slash \<notin> set (take j s)"
    and fit0: "prefix c s" and fitj: "prefix c (drop j s)"
    and rest: "globs (star # p) (drop (j + length c) s)"
  shows "globs (star # p) (drop (length c) s)"
proof (cases "j = 0")
  case True
  with rest show ?thesis by simp
next
  case False
  then have c: "slash \<notin> set c" using overlap_no_slash [OF w _ fit0 fitj] by simp
  let ?w = "take j (drop (length c) s)"
  have "take (j + length c) s = take j s @ take (length c) (drop j s)"
    by (simp add: take_add)
  moreover have "take (length c) (drop j s) = c"
    using fitj by (auto simp: prefix_def)
  ultimately have "slash \<notin> set (take (j + length c) s)" using w c by simp
  moreover have "set ?w \<subseteq> set (take (j + length c) s)"
    by (metis add.commute drop_take set_drop_subset add_diff_cancel_right')
  ultimately have "slash \<notin> set ?w" by blast
  moreover have "drop (length c) s = ?w @ drop (j + length c) s"
    by (metis add.commute append_take_drop_id drop_drop)
  ultimately show ?thesis using rest globs_star_absorb by metis
qed

text \<open>What the skipping loop finds, for a continuation \<open>G\<close> that a later fit never improves.\<close>

lemma skip_match_plain:
  assumes c: "plain_pattern c"
    and commit: "\<And>j s. slash \<notin> set (take j s) \<Longrightarrow> prefix c s \<Longrightarrow> prefix c (drop j s) \<Longrightarrow>
      (is_last \<Longrightarrow> drop (length c) s = []) \<Longrightarrow> G (drop (j + length c) s) \<Longrightarrow> G (drop (length c) s)"
    and last: "\<And>t. is_last \<Longrightarrow> t \<noteq> [] \<Longrightarrow> \<not> G t"
  shows "\<exists>r. skip_match c is_last name = Inr r \<and>
    ((\<exists>t. r = Some t \<and> G t) \<longleftrightarrow>
     (\<exists>j. 0 < j \<and> j \<le> length name \<and> slash \<notin> set (take j name) \<and> prefix c (drop j name) \<and>
        G (drop (j + length c) name)))"
proof (induction name)
  case Nil
  then show ?case by simp
next
  case (Cons a name)
  let ?later = "\<lambda>name. \<exists>j. 0 < j \<and> j \<le> length name \<and> slash \<notin> set (take j name) \<and>
    prefix c (drop j name) \<and> G (drop (j + length c) name)"
  let ?here = "a \<noteq> slash \<and> prefix c name \<and> G (drop (length c) name)"
  have split: "?later (a # name) \<longleftrightarrow> a \<noteq> slash \<and>
      ((prefix c name \<and> G (drop (length c) name)) \<or> ?later name)"
  proof
    assume "?later (a # name)"
    then obtain j where j: "0 < j" "j \<le> length (a # name)" "slash \<notin> set (take j (a # name))"
        "prefix c (drop j (a # name))" "G (drop (j + length c) (a # name))"
      by blast
    then obtain i where "j = Suc i" by (cases j) auto
    with j show "a \<noteq> slash \<and> ((prefix c name \<and> G (drop (length c) name)) \<or> ?later name)"
      by (cases "i = 0") auto
  next
    assume r: "a \<noteq> slash \<and> ((prefix c name \<and> G (drop (length c) name)) \<or> ?later name)"
    show "?later (a # name)"
    proof (cases "prefix c name \<and> G (drop (length c) name)")
      case True
      with r show ?thesis by (intro exI [of _ 1]) auto
    next
      case False
      with r obtain j where "0 < j" "j \<le> length name" "slash \<notin> set (take j name)"
          "prefix c (drop j name)" "G (drop (j + length c) name)"
        by blast
      with r show ?thesis by (intro exI [of _ "Suc j"]) auto
    qed
  qed
  show ?case
  proof (cases "a \<noteq> slash \<and> prefix c name \<and> (is_last \<longrightarrow> drop (length c) name = [])")
    case True
    then have "G (drop (length c) name)" if "?later name"
      using that commit [of _ name] by blast
    with True c show ?thesis unfolding split by (auto simp: matchChunk_plain)
  next
    case False
    with Cons c last show ?thesis
      unfolding split by (auto simp: matchChunk_plain)
  qed
qed

lemma commit_to_fit:
  assumes rest: "rest = [] \<or> (\<exists>r. rest = star # r)"
    and "slash \<notin> set (take j s)" "prefix c s" "prefix c (drop j s)"
    and "rest = [] \<Longrightarrow> drop (length c) s = []" "globs rest (drop (j + length c) s)"
  shows "globs rest (drop (length c) s)"
  using rest
proof
  assume "rest = []"
  with assms(5) show ?thesis by simp
next
  assume "\<exists>r. rest = star # r"
  with assms leftmost_fit_suffices show ?thesis by blast
qed

text \<open>The two shapes of a pattern: with and without a leading star.\<close>

lemma globs_starred_chunk:
  assumes "star \<notin> set c"
  shows "globs (star # c @ rest) k \<longleftrightarrow>
    (\<exists>j \<le> length k. slash \<notin> set (take j k) \<and> prefix c (drop j k) \<and> globs rest (drop (j + length c) k))"
  using assms by (auto simp: globs_star_drop globs_lits_iff add.commute)

lemma starred_first_fit:
  assumes c: "star \<notin> set c" and rest: "rest = [] \<or> (\<exists>r. rest = star # r)"
    and fit: "prefix c k" "drop (length c) k = [] \<or> rest \<noteq> []"
  shows "globs (star # c @ rest) k \<longleftrightarrow> globs rest (drop (length c) k)"
proof
  assume "globs (star # c @ rest) k"
  then obtain j where "slash \<notin> set (take j k)" "prefix c (drop j k)"
      "globs rest (drop (j + length c) k)"
    using globs_starred_chunk [OF c] by blast
  with fit rest commit_to_fit show "globs rest (drop (length c) k)" by blast
next
  assume "globs rest (drop (length c) k)"
  with fit show "globs (star # c @ rest) k"
    unfolding globs_starred_chunk [OF c] by (intro exI [of _ 0]) simp
qed

lemma starred_later_fit:
  assumes c: "star \<notin> set c" "plain_pattern c" and rest: "rest = [] \<or> (\<exists>r. rest = star # r)"
    and no_fit: "\<not> (prefix c k \<and> (drop (length c) k = [] \<or> rest \<noteq> []))"
  shows "\<exists>r. skip_match c (rest = []) k = Inr r \<and>
    (globs (star # c @ rest) k \<longleftrightarrow> (\<exists>t. r = Some t \<and> globs rest t))"
proof -
  have "\<not> (prefix c k \<and> globs rest (drop (length c) k))"
    using no_fit by auto
  then have "globs (star # c @ rest) k \<longleftrightarrow>
      (\<exists>j. 0 < j \<and> j \<le> length k \<and> slash \<notin> set (take j k) \<and> prefix c (drop j k) \<and>
        globs rest (drop (j + length c) k))"
    unfolding globs_starred_chunk [OF c(1)] by (metis add_0 drop0 gr0I)
  moreover have "\<exists>r. skip_match c (rest = []) k = Inr r \<and>
    ((\<exists>t. r = Some t \<and> globs rest t) \<longleftrightarrow>
     (\<exists>j. 0 < j \<and> j \<le> length k \<and> slash \<notin> set (take j k) \<and> prefix c (drop j k) \<and>
        globs rest (drop (j + length c) k)))"
    using c(2) by (rule skip_match_plain) (use rest commit_to_fit in blast, simp)
  ultimately show ?thesis by metis
qed

lemma no_literal_left:
  "takeWhile (\<lambda>c. c \<noteq> x) q = [] \<Longrightarrow> (q \<noteq> [] \<Longrightarrow> hd q = x \<Longrightarrow> False) \<Longrightarrow>
     dropWhile (\<lambda>c. c \<noteq> x) q = []"
  by (cases q) (auto split: if_splits)

lemma plain_chunk:
  assumes "plain_pattern p" "p \<noteq> []"
  obtains c rest where "scanChunk p = (hd p = star, c, rest)"
    and "star \<notin> set c" and "plain_pattern c" and "plain_pattern rest"
    and "rest = [] \<or> (\<exists>r. rest = star # r)" and "c = [] \<Longrightarrow> rest = []"
    and "\<And>k. globs p k \<longleftrightarrow> globs ((if hd p = star then [star] else []) @ c @ rest) k"
proof
  let ?q = "dropWhile (\<lambda>c. c = star) p"
  let ?c = "takeWhile (\<lambda>c. c \<noteq> star) ?q" and ?rest = "dropWhile (\<lambda>c. c \<noteq> star) ?q"
  have q: "?q = ?c @ ?rest" by simp
  have plain: "plain_pattern ?q"
    using assms(1) by (auto simp: plain_pattern_def dest: set_dropWhileD)
  then show "plain_pattern ?c" "plain_pattern ?rest"
    using q plain_pattern_append [of ?c ?rest] by auto
  show "scanChunk p = (hd p = star, ?c, ?rest)"
    using assms plain by (simp add: scanChunk_def scan_plain)
  show "star \<notin> set ?c" by (auto dest: set_takeWhileD)
  show "?rest = [] \<or> (\<exists>r. ?rest = star # r)"
    using hd_dropWhile [of "\<lambda>c. c \<noteq> star" ?q] by (metis list.collapse)
  show "?rest = []" if "?c = []"
    using that by (rule no_literal_left) (metis (mono_tags) hd_dropWhile)
  show "globs p k \<longleftrightarrow> globs ((if hd p = star then [star] else []) @ ?c @ ?rest) k" for k
  proof (cases "hd p = star")
    case True
    with globs_stars [OF assms(2) True] show ?thesis by simp
  next
    case False
    then have "?q = p" using dropWhile_hd [of p "\<lambda>c. c = star"] by simp
    with False q show ?thesis by simp
  qed
qed

lemma filepath_Match_Nil [simp]: "filepath_Match [] k = Inr (k = [])"
  by (simp add: filepath_Match.simps)

lemma filepath_Match_plain:
  "plain_pattern p \<Longrightarrow> filepath_Match p k = Inr (globs p k)"
proof (induction p arbitrary: k rule: length_induct)
  case (1 p)
  show ?case
  proof (cases "p = []")
    case True
    then show ?thesis by (simp add: filepath_Match.simps)
  next
    case False
    obtain c rest where sc: "scanChunk p = (hd p = star, c, rest)"
      and c: "star \<notin> set c" "plain_pattern c" and rest: "plain_pattern rest"
        "rest = [] \<or> (\<exists>r. rest = star # r)" "c = [] \<Longrightarrow> rest = []"
      and glob: "\<And>k. globs p k \<longleftrightarrow> globs ((if hd p = star then [star] else []) @ c @ rest) k"
      using plain_chunk [OF "1.prems" False] by metis
    have IH: "filepath_Match rest t = Inr (globs rest t)" for t
      using "1.IH" rest(1) scanChunk_shorter [OF False] sc by simp
    note step = filepath_Match.simps [of p k] matchChunk_plain [OF c(2)]
    show ?thesis
    proof (cases "hd p = star")
      case no: False
      with c show ?thesis by (simp add: step sc False IH glob globs_lits_iff)
    next
      case yes: True
      show ?thesis
      proof (cases "c = []")
        case True
        with yes rest show ?thesis by (simp add: step sc False glob globs_star_only)
      next
        case ne: False
        show ?thesis
        proof (cases "prefix c k \<and> (drop (length c) k = [] \<or> rest \<noteq> [])")
          case True
          with yes ne show ?thesis
            using starred_first_fit [OF c(1) rest(2)] by (auto simp: step sc False IH glob)
        next
          case no_fit: False
          then obtain r where "skip_match c (rest = []) k = Inr r"
              "globs (star # c @ rest) k \<longleftrightarrow> (\<exists>t. r = Some t \<and> globs rest t)"
            using starred_later_fit [OF c rest(2)] by blast
          with yes ne no_fit show ?thesis
            by (cases r) (auto simp: step sc False IH glob)
        qed
      qed
    qed
  qed
qed

section \<open>Segment by segment\<close>

lemma globs_no_slash: "globs p k \<Longrightarrow> slash \<notin> set p \<Longrightarrow> slash \<notin> set k"
  by (induction rule: globs.induct) auto

lemma globs_count: "globs p k \<Longrightarrow> strings_Count p slash = strings_Count k slash"
  by (induction rule: globs.induct) auto

lemma globs_append: "globs p k \<Longrightarrow> globs q l \<Longrightarrow> globs (p @ q) (k @ l)"
  by (induction rule: globs.induct) (auto intro: globs.intros)

lemma globs_split:
  "globs (s @ slash # p) k \<Longrightarrow> slash \<notin> set s \<Longrightarrow>
     \<exists>k1 k2. k = k1 @ slash # k2 \<and> slash \<notin> set k1 \<and> globs s k1 \<and> globs p k2"
proof (induction s arbitrary: k)
  case Nil
  then obtain k' where "k = slash # k'" "globs p k'" by (auto simp: globs_lit_iff)
  then show ?case by (intro exI [of _ "[]"] exI [of _ k']) auto
next
  case (Cons c s)
  show ?case
  proof (cases "c = star")
    case True
    with Cons.prems obtain w k' where k: "k = w @ k'" "slash \<notin> set w" "globs (s @ slash # p) k'"
      by (auto simp: globs_star_iff)
    with Cons obtain k1 k2 where "k' = k1 @ slash # k2" "slash \<notin> set k1" "globs s k1" "globs p k2"
      by fastforce
    with k True show ?thesis
      by (intro exI [of _ "w @ k1"] exI [of _ k2]) (auto intro: globs_star)
  next
    case False
    with Cons.prems obtain k' where k: "k = c # k'" "globs (s @ slash # p) k'"
      by (auto simp: globs_lit_iff)
    with Cons obtain k1 k2 where "k' = k1 @ slash # k2" "slash \<notin> set k1" "globs s k1" "globs p k2"
      by fastforce
    with k False Cons.prems show ?thesis
      by (intro exI [of _ "c # k1"] exI [of _ k2]) (auto intro: globs_lit)
  qed
qed

lemma globs_split_iff:
  assumes "slash \<notin> set s"
  shows "globs (s @ slash # p) k \<longleftrightarrow>
    (\<exists>k1 k2. k = k1 @ slash # k2 \<and> slash \<notin> set k1 \<and> globs s k1 \<and> globs p k2)"
  using assms by (auto dest: globs_split intro!: globs_append globs_lit)

text \<open>A pattern matches a key when both have as many segments and each matches its own.\<close>

lemma globs_segments:
  "globs p k \<longleftrightarrow> list_all2 globs (strings_Split p slash) (strings_Split k slash)"
proof (induction "strings_Count p slash" arbitrary: p k)
  case 0
  then have p: "slash \<notin> set p" by simp
  show ?case
  proof (cases "slash \<in> set k")
    case True
    then have "\<not> globs p k" using globs_no_slash p by blast
    moreover have "length (strings_Split k slash) \<noteq> 1" using True by (simp add: length_strings_Split)
    ultimately show ?thesis
      using p by (auto simp: strings_Split_no_sep dest: list_all2_lengthD)
  next
    case False
    with p show ?thesis by (simp add: strings_Split_no_sep)
  qed
next
  case (Suc n)
  then have "slash \<in> set p" by (metis Zero_not_Suc strings_Count_zero)
  then obtain s q where p: "p = s @ slash # q" "slash \<notin> set s" by (metis split_list_first)
  with Suc have IH: "globs q l \<longleftrightarrow> list_all2 globs (strings_Split q slash) (strings_Split l slash)" for l
    by simp
  show ?case
  proof (cases "slash \<in> set k")
    case True
    then obtain k1 k2 where k: "k = k1 @ slash # k2" "slash \<notin> set k1" by (metis split_list_first)
    have "globs p k \<longleftrightarrow> globs s k1 \<and> globs q k2"
      unfolding p k globs_split_iff [OF p(2)] using k(2)
      by (metis first_separator_unique)
    with p k IH show ?thesis by (simp add: strings_Split_sep)
  next
    case False
    then have "\<not> globs p k" using globs_split_iff [OF p(2)] p(1) by auto
    moreover have "length (strings_Split p slash) \<noteq> 1"
      using \<open>slash \<in> set p\<close> by (simp add: length_strings_Split)
    ultimately show ?thesis
      using False by (auto simp: strings_Split_no_sep dest: list_all2_lengthD)
  qed
qed

end
