(* ===== verification/Key.thy ===== *)
theory Key
  imports GoStrconv GlobSpec
begin

text \<open>
  \<^verbatim>\<open>src/key/key.go\<close>: which keys are valid, when a pattern covers a key, the last segment of a
  key, the generation of time stamped keys and their decoding. The clock is an argument: \<open>Build\<close>
  takes the nanoseconds \<^verbatim>\<open>time.Now().UTC().UnixNano()\<close> returns.

  The lemmas show that validity is a statement about segments, that a pattern covers exactly the
  keys whose segments its own segments match, and that a key made by \<open>Build\<close> is covered by
  its pattern and decodes to its time.
\<close>

section \<open>Valid keys\<close>

text \<open>
  The fragment of Go's regular expressions \<^verbatim>\<open>GlobRegex\<close> uses. Every alternative of that
  expression is anchored at both ends, so a match is a match of the whole string.
\<close>

datatype regex =
    Class "char \<Rightarrow> bool"
  | Plus "char \<Rightarrow> bool"
  | Seq regex regex
  | Alt regex regex

fun MatchString :: "regex \<Rightarrow> string \<Rightarrow> bool" where
  "MatchString (Class P) s = (case s of [c] \<Rightarrow> P c | _ \<Rightarrow> False)"
| "MatchString (Plus P) s = (s \<noteq> [] \<and> list_all P s)"
| "MatchString (Seq r q) s =
     list_ex (\<lambda>n. MatchString r (take n s) \<and> MatchString q (drop n s)) [0..<Suc (length s)]"
| "MatchString (Alt r q) s = (MatchString r s \<or> MatchString q s)"

definition glob_char :: "char \<Rightarrow> bool" where
  "glob_char c \<longleftrightarrow> is_alnum c \<or> c = star"

definition path_char :: "char \<Rightarrow> bool" where
  "path_char c \<longleftrightarrow> glob_char c \<or> c = slash"

definition GlobRegex :: regex where
  "GlobRegex =
     Alt (Class glob_char)
       (Seq (Class glob_char) (Seq (Plus path_char) (Class glob_char)))"

definition IsValid :: "string \<Rightarrow> bool" where
  "IsValid key =
     (if strings_Contains key ''//'' \<or> strings_Contains key ''**'' then False
      else MatchString GlobRegex key)"

section \<open>Patterns\<close>

definition Match :: "string \<Rightarrow> string \<Rightarrow> bool" where
  "Match path key =
     (if path = key then True
      else if \<not> strings_Contains path ''*'' then False
      else
        (case filepath_Match path key of
           Inl err \<Rightarrow> False
         | Inr matched \<Rightarrow>
             (let countPath = strings_Count path slash; countKey = strings_Count key slash
              in matched \<and> countPath = countKey)))"

definition Peer :: "string \<Rightarrow> string \<Rightarrow> bool" where
  "Peer a b \<longleftrightarrow> Match a b \<or> Match b a"

definition LastIndex :: "string \<Rightarrow> string" where
  "LastIndex key = drop (nat (strings_LastIndexAny key slash + 1)) key"

definition Build :: "int64 \<Rightarrow> string \<Rightarrow> string" where
  "Build now key =
     (if \<not> strings_Contains key ''*'' then key
      else
        (let index = FormatInt now 16
         in strings_Replace1 key ''/*'' (''/'' @ index)))"

definition Decode :: "string \<Rightarrow> int64" where
  "Decode key = (case ParseInt key 16 of Inl err \<Rightarrow> 0 | Inr res \<Rightarrow> res)"

fun Contains :: "string list \<Rightarrow> string \<Rightarrow> bool" where
  "Contains [] e = False"
| "Contains (a # s) e = (if Peer a e then True else Contains s e)"

section \<open>Validity, spelled out\<close>

lemma MatchString_Seq_iff:
  "MatchString (Seq r q) s \<longleftrightarrow> (\<exists>a b. s = a @ b \<and> MatchString r a \<and> MatchString q b)"
proof
  assume "MatchString (Seq r q) s"
  then obtain n where "MatchString r (take n s)" "MatchString q (drop n s)"
    by (simp only: MatchString.simps list_ex_iff) blast
  then show "\<exists>a b. s = a @ b \<and> MatchString r a \<and> MatchString q b"
    by (metis append_take_drop_id)
next
  assume "\<exists>a b. s = a @ b \<and> MatchString r a \<and> MatchString q b"
  then obtain a b where "s = a @ b" "MatchString r a" "MatchString q b" by blast
  then show "MatchString (Seq r q) s"
    by (auto simp: list_ex_iff intro!: bexI [of _ "length a"])
qed

lemma MatchString_Seq_Class:
  "MatchString (Seq (Class P) q) s \<longleftrightarrow> (\<exists>c t. s = c # t \<and> P c \<and> MatchString q t)"
proof -
  have "MatchString (Class P) a \<longleftrightarrow> (\<exists>c. a = [c] \<and> P c)" for a
    by (auto split: list.splits)
  then show ?thesis by (simp only: MatchString_Seq_iff) (metis append_Cons append_Nil)
qed

lemma MatchString_Seq_Plus_Class:
  "MatchString (Seq (Plus P) (Class Q)) s \<longleftrightarrow>
     (\<exists>m d. s = m @ [d] \<and> m \<noteq> [] \<and> list_all P m \<and> Q d)"
proof -
  have "MatchString (Class Q) a \<longleftrightarrow> (\<exists>c. a = [c] \<and> Q c)" for a
    by (auto split: list.splits)
  then show ?thesis by (auto simp only: MatchString_Seq_iff MatchString.simps)
qed

lemma GlobRegex_iff:
  "MatchString GlobRegex s \<longleftrightarrow>
     (\<exists>c. s = [c] \<and> glob_char c) \<or>
     (\<exists>c m d. s = c # m @ [d] \<and> m \<noteq> [] \<and> glob_char c \<and> list_all path_char m \<and> glob_char d)"
  unfolding GlobRegex_def MatchString.simps(4) MatchString_Seq_Class MatchString_Seq_Plus_Class
  by (auto split: list.splits)

lemma IsValid_iff [key_simps]:
  "IsValid key \<longleftrightarrow>
     \<not> sublist ''//'' key \<and> \<not> sublist ''**'' key \<and> list_all path_char key \<and>
     key \<noteq> [] \<and> length key \<noteq> 2 \<and> hd key \<noteq> slash \<and> last key \<noteq> slash"
proof -
  have "MatchString GlobRegex key \<longleftrightarrow> list_all path_char key \<and> key \<noteq> [] \<and> length key \<noteq> 2 \<and>
      hd key \<noteq> slash \<and> last key \<noteq> slash"
  proof (cases key rule: rev_cases)
    case Nil
    then show ?thesis by (simp add: GlobRegex_iff)
  next
    case (snoc m d)
    then show ?thesis
      by (cases m) (auto simp: GlobRegex_iff path_char_def list_all_iff glob_char_def is_alnum_def)
  qed
  then show ?thesis by (simp add: IsValid_def strings_Contains_def)
qed

lemma IsValid_chars: "IsValid key \<Longrightarrow> c \<in> set key \<Longrightarrow> is_alnum c \<or> c = star \<or> c = slash"
  by (auto simp: IsValid_iff list_all_iff path_char_def glob_char_def)

lemma IsValid_plain [intro]: "IsValid key \<Longrightarrow> plain_pattern key"
  by (auto simp: plain_pattern_def is_alnum_def dest: IsValid_chars)

lemma IsValid_not_Nil [simp]: "\<not> IsValid []"
  by (simp add: IsValid_iff)

lemma Split_segments_not_Nil:
  "\<not> sublist ''//'' k \<Longrightarrow> k \<noteq> [] \<Longrightarrow> last k \<noteq> slash \<Longrightarrow>
     [] \<notin> set (tl (strings_Split k slash)) \<and> (hd (strings_Split k slash) = [] \<longrightarrow> hd k = slash)"
proof (induction k)
  case Nil
  then show ?case by simp
next
  case (Cons c k)
  show ?case
  proof (cases "k = []")
    case True
    then show ?thesis using Cons.prems by simp
  next
    case False
    have sub: "\<not> sublist ''//'' k" using Cons.prems(1) by (auto simp: sublist_Cons_right)
    have IH: "[] \<notin> set (tl (strings_Split k slash))" "hd (strings_Split k slash) = [] \<longrightarrow> hd k = slash"
      using Cons.IH [OF sub False] Cons.prems(3) False by auto
    obtain p ps where sp: "strings_Split k slash = p # ps" by (meson list.exhaust strings_Split_not_Nil)
    show ?thesis
    proof (cases "c = slash")
      case True
      then have "hd k \<noteq> slash" using Cons.prems(1) False by (cases k) auto
      with True sp IH show ?thesis by auto
    next
      case no: False
      with sp IH show ?thesis by simp
    qed
  qed
qed

text \<open>A valid key is a sequence of non-empty segments.\<close>

lemma IsValid_segments: "IsValid key \<Longrightarrow> [] \<notin> set (strings_Split key slash)"
  using Split_segments_not_Nil [of key] strings_Split_not_Nil [of key slash]
  by (cases "strings_Split key slash") (auto simp: IsValid_iff)

section \<open>Matching\<close>

lemma Match_refl [simp]: "Match k k"
  by (simp add: Match_def)

lemma Match_starless: "star \<notin> set path \<Longrightarrow> Match path key \<longleftrightarrow> path = key"
  by (simp add: Match_def)

lemma Match_plain [key_simps]:
  "plain_pattern path \<Longrightarrow> Match path key \<longleftrightarrow> path = key \<or> (star \<in> set path \<and> globs path key)"
  using globs_count by (auto simp: Match_def filepath_Match_plain)

lemma Match_segments:
  "plain_pattern path \<Longrightarrow>
     Match path key \<longleftrightarrow>
       path = key \<or>
       (star \<in> set path \<and> list_all2 globs (strings_Split path slash) (strings_Split key slash))"
  by (simp add: Match_plain globs_segments [symmetric])

text \<open>Whatever the pattern, two keys that match are equally deep.\<close>

lemma Match_depth: "Match path key \<Longrightarrow> strings_Count path slash = strings_Count key slash"
  by (auto simp: Match_def Let_def split: if_splits sum.splits)

lemma Peer_commute: "Peer a b \<longleftrightarrow> Peer b a"
  by (auto simp: Peer_def)

lemma Peer_starless: "star \<notin> set a \<Longrightarrow> star \<notin> set b \<Longrightarrow> Peer a b \<longleftrightarrow> a = b"
  by (auto simp: Peer_def Match_starless)

lemma Contains_iff: "Contains s e \<longleftrightarrow> (\<exists>a \<in> set s. Peer a e)"
  by (induction s) auto

section \<open>The last segment, built keys\<close>

lemma LastIndex_segment: "LastIndex key = last (strings_Split key slash)"
  by (simp add: LastIndex_def last_strings_Split)

lemma LastIndex_append: "slash \<notin> set i \<Longrightarrow> LastIndex (p @ slash # i) = i"
proof -
  assume i: "slash \<notin> set i"
  have "last (strings_Split (p @ slash # i) slash) = i"
  proof (induction p)
    case (Cons c p)
    have "length (strings_Split (p @ slash # i) slash) \<noteq> 1" by (simp add: length_strings_Split)
    with Cons show ?case by (auto split: list.splits)
  qed (use i in \<open>simp add: strings_Split_no_sep\<close>)
  then show ?thesis by (simp add: LastIndex_segment)
qed

lemma Decode_FormatInt [simp]: "Decode (FormatInt t 16) = t"
  by (simp add: Decode_def ParseInt_FormatInt)

lemma FormatInt_no_slash_star: "c \<in> {slash, star} \<Longrightarrow> c \<notin> set (FormatInt t 16)"
  using FormatInt_chars [of 16 c t] by (auto simp: is_alnum_def)

lemma Build_starless [simp]: "star \<notin> set key \<Longrightarrow> Build now key = key"
  by (simp add: Build_def)

lemma strings_Replace1_suffix:
  "star \<notin> set p \<Longrightarrow> strings_Replace1 (p @ ''/*'') ''/*'' new = p @ new"
proof (induction p)
  case (Cons c p)
  then show ?case by (cases p) auto
qed simp

lemma Build_list: "star \<notin> set p \<Longrightarrow> Build now (p @ ''/*'') = p @ slash # FormatInt now 16"
  by (simp add: Build_def strings_Replace1_suffix)

lemma Build_no_separator:
  "\<not> sublist ''/*'' key \<Longrightarrow> Build now key = key"
  by (simp add: Build_def strings_Replace1_absent)

lemma LastIndex_Build_list: "star \<notin> set p \<Longrightarrow> LastIndex (Build now (p @ ''/*'')) = FormatInt now 16"
  by (simp add: Build_list LastIndex_append FormatInt_no_slash_star)

lemma Build_list_starless: "star \<notin> set p \<Longrightarrow> star \<notin> set (Build now (p @ ''/*''))"
  by (simp add: Build_list FormatInt_no_slash_star)

lemma globs_refl: "star \<notin> set p \<Longrightarrow> globs p p"
  by (induction p) (auto intro: globs.intros)

lemma Match_Build_list:
  assumes "star \<notin> set p" "plain_pattern p"
  shows "Match (p @ ''/*'') (Build now (p @ ''/*''))"
proof -
  have "globs ''/*'' (slash # FormatInt now 16)"
    by (simp add: globs_lit_iff globs_star_only FormatInt_no_slash_star)
  then have "globs (p @ ''/*'') (p @ slash # FormatInt now 16)"
    using assms globs_append globs_refl by blast
  with assms show ?thesis by (simp add: Match_plain Build_list)
qed

end
