(* ===== verification/Objects.thy ===== *)
theory Objects
  imports GoStrconv
begin

text \<open>
  \<^verbatim>\<open>src/objects/objects.go\<close>: the stored object, its recency order and its encodings.

  JSON (\<^verbatim>\<open>goccy/go-json\<close>) and base64 (\<^verbatim>\<open>cristalhq/base64\<close>) are packages outside the
  repository: they are the fields of a \<open>codec\<close>, an argument of every definition that uses them.
  What the program relies on is stated as the predicates \<open>object_law\<close>, \<open>objects_law\<close> and
  \<open>base64_law\<close>: values made of characters that JSON writes unescaped come back unchanged.
\<close>

record Object =
  Created :: int64
  Updated :: int64
  Index :: string
  Data :: string

text \<open>
  \<open>encoder_object\<close> is \<^verbatim>\<open>json.NewEncoder(buffer).Encode(obj)\<close>, which ends its output with a
  newline; the two \<open>decoder\<close> fields are \<^verbatim>\<open>json.NewDecoder(reader).Decode\<close>; the others are
  \<^verbatim>\<open>json.Marshal\<close>, \<^verbatim>\<open>json.Unmarshal\<close> and \<^verbatim>\<open>base64.StdEncoding\<close>.
\<close>

record codec =
  encoder_object :: "Object \<Rightarrow> string result"
  unmarshal_object :: "string \<Rightarrow> Object result"
  decoder_object :: "string \<Rightarrow> Object result"
  marshal_objects :: "Object list \<Rightarrow> string result"
  unmarshal_objects :: "string \<Rightarrow> Object list result"
  decoder_objects :: "string \<Rightarrow> Object list result"
  marshal_stats :: "string list \<Rightarrow> string result"
  base64_encode :: "string \<Rightarrow> string"
  base64_decode :: "string \<Rightarrow> string result"

definition EmptyObject :: string where
  \<open>EmptyObject = ''{ "created": 0, "updated": 0, "index": "", "data": "e30=" }''\<close>

definition max_int64 :: "int64 \<Rightarrow> int64 \<Rightarrow> int64" where
  "max_int64 a b = (if sint b < sint a then a else b)"

text \<open>The comparison \<^verbatim>\<open>Sort\<close> returns, on the objects at the two indexes.\<close>

definition object_less :: "Object \<Rightarrow> Object \<Rightarrow> bool" where
  "object_less x y =
     (let maxi = max_int64 (Updated x) (Created x);
          maxj = max_int64 (Updated y) (Created y)
      in sint maxj < sint maxi)"

definition Encode_json :: "('v \<Rightarrow> string result) \<Rightarrow> 'v \<Rightarrow> string result" where
  "Encode_json marshal v = (case marshal v of Inl err \<Rightarrow> Inl err | Inr data \<Rightarrow> Inr data)"

definition DecodeRaw :: "'c codec_scheme \<Rightarrow> string \<Rightarrow> Object result" where
  "DecodeRaw J data = unmarshal_object J data"

definition Decode_object :: "'c codec_scheme \<Rightarrow> string \<Rightarrow> Object result" where
  "Decode_object J data =
     (case unmarshal_object J data of
        Inl err \<Rightarrow> Inl err
      | Inr obj \<Rightarrow>
          (case base64_decode J (Data obj) of
             Inl err \<Rightarrow> Inl err
           | Inr aux \<Rightarrow> Inr (obj\<lparr>Data := aux\<rparr>)))"

definition DecodeFromReader :: "'c codec_scheme \<Rightarrow> string \<Rightarrow> Object result" where
  "DecodeFromReader J r = decoder_object J r"

fun DecodeListData :: "'c codec_scheme \<Rightarrow> Object list \<Rightarrow> Object list result" where
  "DecodeListData J [] = Inr []"
| "DecodeListData J (obj # objs) =
     (case base64_decode J (Data obj) of
        Inl err \<Rightarrow> Inl err
      | Inr aux \<Rightarrow>
          (case DecodeListData J objs of
             Inl err \<Rightarrow> Inl err
           | Inr rest \<Rightarrow> Inr (obj\<lparr>Data := aux\<rparr> # rest)))"

definition DecodeList :: "'c codec_scheme \<Rightarrow> string \<Rightarrow> Object list result" where
  "DecodeList J data =
     (case unmarshal_objects J data of
        Inl err \<Rightarrow> Inl err
      | Inr objs \<Rightarrow> DecodeListData J objs)"

definition DecodeListFromReader :: "'c codec_scheme \<Rightarrow> string \<Rightarrow> Object list result" where
  "DecodeListFromReader J r = decoder_objects J r"

definition DecodeListRaw :: "'c codec_scheme \<Rightarrow> string \<Rightarrow> Object list result" where
  "DecodeListRaw J data =
     (case unmarshal_objects J data of Inl err \<Rightarrow> Inl err | Inr objs \<Rightarrow> Inr objs)"

definition New :: "'c codec_scheme \<Rightarrow> Object \<Rightarrow> string" where
  "New J obj = (case encoder_object J obj of Inl err \<Rightarrow> [] | Inr bytes \<Rightarrow> bytes)"

section \<open>What the program relies on in the codecs\<close>

definition json_safe_char :: "char \<Rightarrow> bool" where
  "json_safe_char c \<longleftrightarrow>
     32 \<le> (of_char c :: nat) \<and> (of_char c :: nat) < 127 \<and> c \<notin> {CHR 0x22, CHR 0x5C, CHR ''<'', CHR ''>'', CHR ''&''}"

definition json_safe :: "string \<Rightarrow> bool" where
  "json_safe s \<longleftrightarrow> list_all json_safe_char s"

definition safe_object :: "Object \<Rightarrow> bool" where
  "safe_object obj \<longleftrightarrow> json_safe (Index obj) \<and> json_safe (Data obj)"

definition object_law :: "'c codec_scheme \<Rightarrow> bool" where
  "object_law J \<longleftrightarrow>
     (\<forall>obj. safe_object obj \<longrightarrow>
        (\<exists>s. encoder_object J obj = Inr s \<and> s \<noteq> [] \<and> unmarshal_object J s = Inr obj))"

definition objects_law :: "'c codec_scheme \<Rightarrow> bool" where
  "objects_law J \<longleftrightarrow>
     (\<forall>objs. list_all safe_object objs \<longrightarrow>
        (\<exists>s. marshal_objects J objs = Inr s \<and> s \<noteq> [] \<and> unmarshal_objects J s = Inr objs))"

definition base64_law :: "'c codec_scheme \<Rightarrow> bool" where
  "base64_law J \<longleftrightarrow>
     (\<forall>s. base64_decode J (base64_encode J s) = Inr s \<and> json_safe (base64_encode J s))"

lemma json_safe_append [simp]: "json_safe (s @ t) \<longleftrightarrow> json_safe s \<and> json_safe t"
  by (simp add: json_safe_def)

lemma json_safe_Cons [simp]: "json_safe (c # t) \<longleftrightarrow> json_safe_char c \<and> json_safe t"
  by (simp add: json_safe_def)

lemma json_safe_Nil [simp]: "json_safe []"
  by (simp add: json_safe_def)

lemma json_safe_no_quote: "json_safe s \<Longrightarrow> CHR 0x22 \<notin> set s"
  by (auto simp: json_safe_def list_all_iff json_safe_char_def)

lemma json_safe_alnum: "list_all is_alnum s \<Longrightarrow> json_safe s"
  by (auto simp: json_safe_def list_all_iff json_safe_char_def is_alnum_def Let_def)

lemma DecodeRaw_New: "object_law J \<Longrightarrow> safe_object obj \<Longrightarrow> DecodeRaw J (New J obj) = Inr obj"
  by (auto simp: object_law_def DecodeRaw_def New_def)

lemma New_not_Nil: "object_law J \<Longrightarrow> safe_object obj \<Longrightarrow> New J obj \<noteq> []"
  by (auto simp: object_law_def New_def)

lemma Decode_object_New:
  assumes "object_law J" "base64_law J" "json_safe (Index obj)"
  shows "Decode_object J (New J (obj\<lparr>Data := base64_encode J data\<rparr>)) = Inr (obj\<lparr>Data := data\<rparr>)"
proof -
  have "safe_object (obj\<lparr>Data := base64_encode J data\<rparr>)"
    using assms by (simp add: safe_object_def base64_law_def)
  then show ?thesis
    using DecodeRaw_New [OF assms(1)] assms(2)
    by (simp add: Decode_object_def DecodeRaw_def base64_law_def)
qed

lemma DecodeListData_map:
  "base64_law J \<Longrightarrow>
     DecodeListData J (map (\<lambda>obj. obj\<lparr>Data := base64_encode J (Data obj)\<rparr>) objs) = Inr objs"
  by (induction objs) (auto simp: base64_law_def)

lemma DecodeListData_length: "DecodeListData J objs = Inr objs' \<Longrightarrow> length objs' = length objs"
  by (induction objs arbitrary: objs') (auto split: sum.splits)

section \<open>The recency order\<close>

text \<open>
  The moment an object was last touched, ordered so that the most recent comes first. With it as
  an instance of the linear orders, \<^verbatim>\<open>sort.Slice(res, objects.Sort(res))\<close> is \<^const>\<open>sort_key\<close>.
\<close>

datatype recency = Recency (recency_stamp: int64)

instantiation recency :: linorder
begin

definition less_eq_recency :: "recency \<Rightarrow> recency \<Rightarrow> bool" where
  "less_eq_recency a b \<longleftrightarrow> sint (recency_stamp b) \<le> sint (recency_stamp a)"

definition less_recency :: "recency \<Rightarrow> recency \<Rightarrow> bool" where
  "less_recency a b \<longleftrightarrow> sint (recency_stamp b) < sint (recency_stamp a)"

instance
proof
  fix a b :: recency
  assume "a \<le> b" "b \<le> a"
  then have "sint (recency_stamp a) = sint (recency_stamp b)"
    by (simp add: less_eq_recency_def)
  then have "recency_stamp a = recency_stamp b"
    by (simp add: signed_word_eqI)
  then show "a = b" by (cases a; cases b) simp
qed (auto simp: less_eq_recency_def less_recency_def)

end

definition object_recency :: "Object \<Rightarrow> recency" where
  "object_recency obj = Recency (max_int64 (Updated obj) (Created obj))"

lemma object_less_recency: "object_less x y \<longleftrightarrow> object_recency x < object_recency y"
  by (simp add: object_less_def object_recency_def less_recency_def)

interpretation recent: strict_weak_order object_less
  by unfold_locales (auto simp: object_less_recency)

lemma sort_objects_eq_sort_key: "sort_Slice object_less objs = sort_key object_recency objs"
  by (simp add: sort_Slice_eq_sort_key [symmetric] object_less_recency [abs_def])

lemma sint_max_int64: "sint (max_int64 a b) = max (sint a) (sint b)"
  by (simp add: max_int64_def max_def)

lemma sort_objects_newest_first:
  "sorted_wrt (\<lambda>x y. max (sint (Updated y)) (sint (Created y)) \<le> max (sint (Updated x)) (sint (Created x)))
     (sort_Slice object_less objs)"
proof -
  have "sorted_wrt (\<lambda>x y. \<not> object_less y x) (sort_Slice object_less objs)"
    by (rule recent.sort_Slice_sorted)
  then show ?thesis
    by (rule sorted_wrt_mono_rel [rotated]) (auto simp: object_less_def sint_max_int64 not_less)
qed

end
