(* ===== verification/Messages.thy ===== *)
theory Messages
  imports Objects
begin

text \<open>
  \<^verbatim>\<open>src/messages/messages.go\<close>: the messages sent over websocket connections, their decoding, and
  the client's side of a subscription, where a message replaces or patches the cached document.
  \<^verbatim>\<open>benitogf/jsonpatch\<close> is outside the repository: the \<open>wire\<close> codec extends \<open>codec\<close> with
  its four functions, over an abstract type of patches, and with the decoding of messages.
\<close>

record Message =
  MsgData :: string
  MsgVersion :: string
  MsgSnapshot :: bool

record 'p wire = codec +
  unmarshal_message :: "string \<Rightarrow> Message result"
  decoder_message :: "string \<Rightarrow> Message result"
  CreatePatch :: "string \<Rightarrow> string \<Rightarrow> 'p result"
  marshal_patch :: "'p \<Rightarrow> string result"
  DecodePatch :: "string \<Rightarrow> 'p option result"
  patch_Apply :: "'p \<Rightarrow> string \<Rightarrow> string option result"

abbreviation newline :: char where "newline \<equiv> CHR 0x0A"

definition Encode :: "'c codec_scheme \<Rightarrow> string \<Rightarrow> string" where
  "Encode J raw = base64_encode J raw"

definition DecodeBuffer :: "('p, 'c) wire_scheme \<Rightarrow> string \<Rightarrow> Message result" where
  "DecodeBuffer J data =
     (case unmarshal_message J data of
        Inl err \<Rightarrow> Inl err
      | Inr message \<Rightarrow>
          (case base64_decode J (MsgData message) of
             Inl err \<Rightarrow> Inl err
           | Inr decoded \<Rightarrow> Inr (message\<lparr>MsgData := strings_Trim decoded newline\<rparr>)))"

definition DecodeReader :: "('p, 'c) wire_scheme \<Rightarrow> string \<Rightarrow> Message result" where
  "DecodeReader J r =
     (case decoder_message J r of
        Inl err \<Rightarrow> Inl err
      | Inr message \<Rightarrow>
          if MsgData message = '''' then Inl (Error ''katamari: empty reader'')
          else
            (case base64_decode J (MsgData message) of
               Inl err \<Rightarrow> Inl err
             | Inr ignored \<Rightarrow> Inr message))"

definition Decode_message :: "('p, 'c) wire_scheme \<Rightarrow> string \<Rightarrow> Message result" where
  "Decode_message J r =
     (case decoder_message J r of
        Inl err \<Rightarrow> Inl err
      | Inr message \<Rightarrow>
          if MsgData message = '''' then Inl (Error ''katamari: empty reader'')
          else
            (case base64_decode J (MsgData message) of
               Inl err \<Rightarrow> Inl err
             | Inr ignored \<Rightarrow> Inr message))"

text \<open>The new cache, and the error if there was one.\<close>

definition PatchCache :: "('p, 'c) wire_scheme \<Rightarrow> string \<Rightarrow> string \<Rightarrow> string \<times> error option" where
  "PatchCache J data cache =
     (case DecodeBuffer J data of
        Inl err \<Rightarrow> (cache, Some err)
      | Inr message \<Rightarrow>
          if MsgSnapshot message then (MsgData message, None)
          else if MsgData message = ''[]'' then (cache, None)
          else
            (case DecodePatch J (MsgData message) of
               Inl err \<Rightarrow> (cache, Some err)
             | Inr None \<Rightarrow> (cache, None)
             | Inr (Some patch) \<Rightarrow>
                 (case patch_Apply J patch cache of
                    Inl err \<Rightarrow> (cache, Some err)
                  | Inr None \<Rightarrow> (cache, None)
                  | Inr (Some modifiedBytes) \<Rightarrow> (modifiedBytes, None))))"

definition Patch_message ::
  "('p, 'c) wire_scheme \<Rightarrow> string \<Rightarrow> string \<Rightarrow> string \<times> Object result" where
  "Patch_message J data cache0 =
     (case PatchCache J data cache0 of
        (cache, Some err) \<Rightarrow> (cache, Inl err)
      | (cache, None) \<Rightarrow> (cache, Decode_object J cache))"

definition PatchList ::
  "('p, 'c) wire_scheme \<Rightarrow> string \<Rightarrow> string \<Rightarrow> string \<times> Object list result" where
  "PatchList J data cache0 =
     (case PatchCache J data cache0 of
        (cache, Some err) \<Rightarrow> (cache, Inl err)
      | (cache, None) \<Rightarrow> (cache, DecodeList J cache))"

section \<open>What the program relies on in the patches\<close>

text \<open>
  \<open>same_json\<close> stands for "the same JSON document". Surrounding newlines do not matter to it, and
  the patch computed from \<open>a\<close> to \<open>b\<close>, written out and read back, takes every text of
  the document \<open>a\<close> to a text of the document \<open>b\<close>. The patch of two equal documents is the
  empty list of operations.
\<close>

definition patch_law :: "('p, 'c) wire_scheme \<Rightarrow> (string \<Rightarrow> string \<Rightarrow> bool) \<Rightarrow> bool" where
  "patch_law J same_json \<longleftrightarrow>
     (\<forall>a. same_json a (strings_Trim a newline)) \<and>
     (\<forall>a b. same_json a b \<longrightarrow> same_json b a) \<and>
     (\<forall>a b c. same_json a b \<longrightarrow> same_json b c \<longrightarrow> same_json a c) \<and>
     (\<forall>a b p operations.
        CreatePatch J a b = Inr p \<longrightarrow> marshal_patch J p = Inr operations \<longrightarrow>
        strings_Trim operations newline = operations \<and>
        (if operations = ''[]'' then same_json a b
         else \<exists>p'. DecodePatch J operations = Inr (Some p') \<and>
           (\<forall>a'. same_json a a' \<longrightarrow>
              (\<exists>b'. patch_Apply J p' a' = Inr (Some b') \<and> same_json b' b))))"

section \<open>Lemmas\<close>

lemma Decode_message_eq_DecodeReader: "Decode_message J r = DecodeReader J r"
  by (simp add: Decode_message_def DecodeReader_def)

lemma DecodeReader_not_empty: "DecodeReader J r = Inr message \<Longrightarrow> MsgData message \<noteq> []"
  by (auto simp: DecodeReader_def split: sum.splits if_splits)

lemma DecodeReader_base64:
  "DecodeReader J r = Inr message \<Longrightarrow> \<exists>raw. base64_decode J (MsgData message) = Inr raw"
  by (auto simp: DecodeReader_def split: sum.splits if_splits)

text \<open>An error never changes the cache, whichever of the five exits it takes.\<close>

lemma PatchCache_error: "PatchCache J data cache = (cache', Some err) \<Longrightarrow> cache' = cache"
  by (auto simp: PatchCache_def split: sum.splits option.splits if_splits)

lemma PatchCache_snapshot:
  "DecodeBuffer J data = Inr message \<Longrightarrow> MsgSnapshot message \<Longrightarrow>
     PatchCache J data cache = (MsgData message, None)"
  by (simp add: PatchCache_def)

lemma PatchCache_patch:
  assumes law: "patch_law J same_json"
    and created: "CreatePatch J a b = Inr p" "marshal_patch J p = Inr operations"
    and message: "DecodeBuffer J data = Inr message" "\<not> MsgSnapshot message"
      "MsgData message = strings_Trim operations newline"
    and synced: "same_json a cache"
  shows "\<exists>cache'. PatchCache J data cache = (cache', None) \<and> same_json cache' b"
proof -
  have trim: "strings_Trim operations newline = operations"
    and result: "if operations = ''[]'' then same_json a b
         else \<exists>p'. DecodePatch J operations = Inr (Some p') \<and>
           (\<forall>a'. same_json a a' \<longrightarrow>
              (\<exists>b'. patch_Apply J p' a' = Inr (Some b') \<and> same_json b' b))"
    using law created unfolding patch_law_def by blast+
  have data: "MsgData message = operations" using message trim by simp
  show ?thesis
  proof (cases "operations = ''[]''")
    case True
    then have "same_json a b" using result by simp
    then have "same_json cache b" using law synced unfolding patch_law_def by blast
    with True message data show ?thesis by (simp add: PatchCache_def)
  next
    case False
    with result synced obtain p' b' where "DecodePatch J operations = Inr (Some p')"
        "patch_Apply J p' cache = Inr (Some b')" "same_json b' b"
      by auto
    with False message data show ?thesis by (simp add: PatchCache_def)
  qed
qed

end
