(* ===== verification/Filters.thy ===== *)
theory Filters
  imports Key
begin

text \<open>
  \<^verbatim>\<open>src/filters.go\<close>: the four tables of route filters. The functions a user registers are
  HOL functions; a notification of an after-write watcher is recorded as the call made, the
  identity of the callback with its argument. The four \<open>check\<close> methods share one loop, the
  search for the first route that covers the path.
\<close>

type_synonym Apply = "string \<Rightarrow> string \<Rightarrow> string result"
type_synonym ApplyDelete = "string \<Rightarrow> error option"
type_synonym Notify = nat

record hook =
  hook_path :: string
  hook_apply :: ApplyDelete

record route =
  filter_path :: string
  filter_apply :: Apply

record watch =
  watch_path :: string
  watch_apply :: Notify

type_synonym router = "route list"
type_synonym hooks = "hook list"
type_synonym watchers = "watch list"

record filters =
  Write_filters :: router
  Read_filters :: router
  Delete_filters :: hooks
  After_filters :: watchers

definition DeleteFilter :: "string \<Rightarrow> ApplyDelete \<Rightarrow> filters \<Rightarrow> filters" where
  "DeleteFilter path apply_fn fs =
     fs\<lparr>Delete_filters := Delete_filters fs @ [\<lparr>hook_path = path, hook_apply = apply_fn\<rparr>]\<rparr>"

definition WriteFilter :: "string \<Rightarrow> Apply \<Rightarrow> filters \<Rightarrow> filters" where
  "WriteFilter path apply_fn fs =
     fs\<lparr>Write_filters := Write_filters fs @ [\<lparr>filter_path = path, filter_apply = apply_fn\<rparr>]\<rparr>"

definition AfterFilter :: "string \<Rightarrow> Notify \<Rightarrow> filters \<Rightarrow> filters" where
  "AfterFilter path apply_fn fs =
     fs\<lparr>After_filters := After_filters fs @ [\<lparr>watch_path = path, watch_apply = apply_fn\<rparr>]\<rparr>"

definition ReadFilter :: "string \<Rightarrow> Apply \<Rightarrow> filters \<Rightarrow> filters" where
  "ReadFilter path apply_fn fs =
     fs\<lparr>Read_filters := Read_filters fs @ [\<lparr>filter_path = path, filter_apply = apply_fn\<rparr>]\<rparr>"

definition NoopHook :: ApplyDelete where
  "NoopHook index = None"

definition NoopFilter :: Apply where
  "NoopFilter index data = Inr data"

definition OpenFilter :: "string \<Rightarrow> filters \<Rightarrow> filters" where
  "OpenFilter name fs =
     DeleteFilter name NoopHook (ReadFilter name NoopFilter (WriteFilter name NoopFilter fs))"

text \<open>The loop of the \<open>check\<close> methods: the index of the first covering entry, or \<open>-1\<close>.\<close>

fun match_index :: "('f \<Rightarrow> string) \<Rightarrow> 'f list \<Rightarrow> string \<Rightarrow> int" where
  "match_index path_of [] path = -1"
| "match_index path_of (f # r) path =
     (if path_of f = path \<or> Match (path_of f) path then 0
      else (let i = match_index path_of r path in if i = -1 then -1 else i + 1))"

definition static_error :: "string \<Rightarrow> error" where
  "static_error path = Error (''route not defined, static mode, key:'' @ path)"

definition watchers_check :: "watchers \<Rightarrow> string \<Rightarrow> (Notify \<times> string) list" where
  "watchers_check r path =
     (let found = match_index watch_path r path
      in if found = -1 then [] else [(watch_apply (r ! nat found), path)])"

definition hooks_check :: "hooks \<Rightarrow> string \<Rightarrow> bool \<Rightarrow> error option" where
  "hooks_check r path static =
     (let found = match_index hook_path r path
      in if found = -1 \<and> \<not> static then None
         else if found = -1 \<and> static then Some (static_error path)
         else hook_apply (r ! nat found) path)"

definition router_checkStatic :: "router \<Rightarrow> string \<Rightarrow> bool \<Rightarrow> error option" where
  "router_checkStatic r path static =
     (let found = match_index filter_path r path
      in if found = -1 \<and> \<not> static then None
         else if found = -1 \<and> static then Some (static_error path)
         else None)"

definition router_check :: "router \<Rightarrow> string \<Rightarrow> string \<Rightarrow> bool \<Rightarrow> string result" where
  "router_check r path data static =
     (let found = match_index filter_path r path
      in if found = -1 \<and> \<not> static then Inr data
         else if found = -1 \<and> static then Inl (static_error path)
         else filter_apply (r ! nat found) path data)"

section \<open>The first covering route\<close>

definition covers :: "('f \<Rightarrow> string) \<Rightarrow> string \<Rightarrow> 'f \<Rightarrow> bool" where
  "covers path_of path f \<longleftrightarrow> path_of f = path \<or> Match (path_of f) path"

lemma match_index_range: "-1 \<le> match_index path_of r path"
  by (induction r) (auto simp: Let_def)

lemma match_index_none:
  "match_index path_of r path = -1 \<longleftrightarrow> (\<forall>f \<in> set r. \<not> covers path_of path f)"
proof (induction r)
  case (Cons f r)
  then show ?case using match_index_range [of path_of r path] by (auto simp: Let_def covers_def)
qed simp

lemma match_index_first:
  "match_index path_of (pre @ f # post) path = int (length pre)"
  if "\<forall>g \<in> set pre. \<not> covers path_of path g" and "covers path_of path f"
  using that by (induction pre) (auto simp: Let_def covers_def)

lemma match_index_cases:
  obtains (none) "match_index path_of r path = -1" "\<forall>f \<in> set r. \<not> covers path_of path f"
  | (first) pre f post where "r = pre @ f # post" "\<forall>g \<in> set pre. \<not> covers path_of path g"
      "covers path_of path f" "match_index path_of r path = int (length pre)"
proof (cases "\<exists>f \<in> set r. covers path_of path f")
  case True
  then obtain pre f post where "r = pre @ f # post" "covers path_of path f"
      "\<forall>g \<in> set pre. \<not> covers path_of path g"
    using split_list_first_prop [OF True] by blast
  then show ?thesis using first match_index_first by metis
next
  case False
  then show ?thesis using none match_index_none by metis
qed

lemma covers_plain: "star \<notin> set (path_of f) \<Longrightarrow> covers path_of path f \<longleftrightarrow> path_of f = path"
  by (auto simp: covers_def Match_starless)

lemma router_check_uncovered:
  "\<forall>f \<in> set r. \<not> covers filter_path path f \<Longrightarrow>
     router_check r path data static = (if static then Inl (static_error path) else Inr data)"
  by (simp add: router_check_def match_index_none [THEN iffD2])

lemma router_check_first:
  "\<forall>g \<in> set pre. \<not> covers filter_path path g \<Longrightarrow> covers filter_path path f \<Longrightarrow>
     router_check (pre @ f # post) path data static = filter_apply f path data"
  by (simp add: router_check_def match_index_first)

lemma router_checkStatic_iff:
  "router_checkStatic r path static =
     (if static \<and> (\<forall>f \<in> set r. \<not> covers filter_path path f) then Some (static_error path) else None)"
  by (auto simp: router_checkStatic_def Let_def match_index_none)

lemma hooks_check_uncovered:
  "\<forall>f \<in> set r. \<not> covers hook_path path f \<Longrightarrow>
     hooks_check r path static = (if static then Some (static_error path) else None)"
  by (simp add: hooks_check_def match_index_none [THEN iffD2])

lemma hooks_check_first:
  "\<forall>g \<in> set pre. \<not> covers hook_path path g \<Longrightarrow> covers hook_path path f \<Longrightarrow>
     hooks_check (pre @ f # post) path static = hook_apply f path"
  by (simp add: hooks_check_def match_index_first)

lemma watchers_check_first:
  "\<forall>g \<in> set pre. \<not> covers watch_path path g \<Longrightarrow> covers watch_path path f \<Longrightarrow>
     watchers_check (pre @ f # post) path = [(watch_apply f, path)]"
  by (simp add: watchers_check_def match_index_first)

lemma watchers_check_uncovered:
  "\<forall>f \<in> set r. \<not> covers watch_path path f \<Longrightarrow> watchers_check r path = []"
  by (simp add: watchers_check_def match_index_none [THEN iffD2])

end
