(* ===== verification/Storage.thy ===== *)
theory Storage
  imports Key Objects
begin

text \<open>
  \<^verbatim>\<open>src/storage.go\<close>: the events and options of a storage, and the \<^verbatim>\<open>Database\<close> interface.

  The interface is the locale \<open>database\<close>: its parameters are the operations the server calls
  and an observation of the storage as a map from keys to objects; its assumptions are the contract
  the server relies on. What follows from the contract alone is proved inside the locale;
  \<open>Memory\<close> shows that \<^verbatim>\<open>MemoryStorage\<close> meets it.

  The events a storage emits are kept as the list of the values sent on its watch channel and not
  yet received. The channel is unbuffered: a sender waits for a reader, and one reader at a time
  takes the oldest event.
\<close>

record StorageEvent =
  EvKey :: string
  EvOperation :: string

record StorageOpt =
  OptNoBroadcastKeys :: "string list"

record Storage =
  StorageActive :: bool

section \<open>What a storage does to its contents\<close>

type_synonym contents = "string \<rightharpoonup> Object"

definition not_found :: error where
  "not_found = Error ''katamari: not found''"

text \<open>The stamps of a write: a new key keeps the time as creation, an old one as update.\<close>

definition stamp_object :: "int64 \<Rightarrow> Object option \<Rightarrow> string \<Rightarrow> string \<Rightarrow> Object" where
  "stamp_object now old path data =
     \<lparr>Created = (case old of None \<Rightarrow> now | Some obj \<Rightarrow> Created obj),
      Updated = (case old of None \<Rightarrow> 0 | Some obj \<Rightarrow> now),
      Index = LastIndex path, Data = data\<rparr>"

datatype db_op =
    OpSet int64 string string
  | OpDel string

fun spec_op :: "db_op \<Rightarrow> contents \<Rightarrow> contents" where
  "spec_op (OpSet now path data) c = c(path \<mapsto> stamp_object now (c path) path data)"
| "spec_op (OpDel path) c =
     (if star \<in> set path then c |` {k. \<not> Match path k} else c(path := None))"

definition storable :: "string \<Rightarrow> string \<Rightarrow> bool" where
  "storable path data \<longleftrightarrow> json_safe path \<and> json_safe data"

fun op_storable :: "db_op \<Rightarrow> bool" where
  "op_storable (OpSet now path data) = storable path data"
| "op_storable (OpDel path) = True"

text \<open>The event an operation puts on the watch channel, if any.\<close>

fun spec_event :: "(string \<Rightarrow> bool) \<Rightarrow> db_op \<Rightarrow> contents \<Rightarrow> StorageEvent list" where
  "spec_event muted (OpSet now path data) c =
     (if muted path then [] else [\<lparr>EvKey = path, EvOperation = ''set''\<rparr>])"
| "spec_event muted (OpDel path) c =
     (if muted path \<or> (star \<notin> set path \<and> c path = None) then []
      else [\<lparr>EvKey = path, EvOperation = ''del''\<rparr>])"

fun spec_events :: "(string \<Rightarrow> bool) \<Rightarrow> db_op list \<Rightarrow> contents \<Rightarrow> StorageEvent list" where
  "spec_events muted [] c = []"
| "spec_events muted (op # ops) c = spec_event muted op c @ spec_events muted ops (spec_op op c)"

text \<open>Running a sequence of writes and deletes on any storage with the two operations.\<close>

fun run_op ::
  "(int64 \<Rightarrow> 'db \<Rightarrow> string \<Rightarrow> string \<Rightarrow> (string \<times> 'db) outcome) \<Rightarrow>
   ('db \<Rightarrow> string \<Rightarrow> (error option \<times> 'db) outcome) \<Rightarrow> db_op \<Rightarrow> 'db \<Rightarrow> 'db outcome"
where
  "run_op set_fn del_fn (OpSet now path data) db =
     bind_outcome (set_fn now db path data) (\<lambda>(index, db'). Returns db')"
| "run_op set_fn del_fn (OpDel path) db =
     bind_outcome (del_fn db path) (\<lambda>(err, db'). Returns db')"

fun run_ops ::
  "(int64 \<Rightarrow> 'db \<Rightarrow> string \<Rightarrow> string \<Rightarrow> (string \<times> 'db) outcome) \<Rightarrow>
   ('db \<Rightarrow> string \<Rightarrow> (error option \<times> 'db) outcome) \<Rightarrow> db_op list \<Rightarrow> 'db \<Rightarrow> 'db outcome"
where
  "run_ops set_fn del_fn [] db = Returns db"
| "run_ops set_fn del_fn (op # ops) db =
     bind_outcome (run_op set_fn del_fn op db) (run_ops set_fn del_fn ops)"

lemma json_safe_LastIndex: "json_safe path \<Longrightarrow> json_safe (LastIndex path)"
  unfolding LastIndex_def json_safe_def by (metis append_take_drop_id list_all_append)

lemma safe_stamp_object: "storable path data \<Longrightarrow> safe_object (stamp_object now old path data)"
  by (simp add: storable_def safe_object_def stamp_object_def json_safe_LastIndex)

lemma spec_op_frame:
  "spec_op (OpSet now path data) c k = c k" if "k \<noteq> path"
  using that by simp

text \<open>A new key the pattern covers adds its object to what the pattern sees.\<close>

lemma list_grows:
  fixes c :: contents
  assumes "Match pattern key" "c key = None" "finite (dom c)"
  shows "image_mset (\<lambda>k. the ((c(key \<mapsto> obj)) k)) (mset_set {k \<in> dom (c(key \<mapsto> obj)). Match pattern k}) =
    add_mset obj (image_mset (\<lambda>k. the (c k)) (mset_set {k \<in> dom c. Match pattern k}))"
proof -
  let ?K = "{k \<in> dom c. Match pattern k}"
  have "{k \<in> dom (c(key \<mapsto> obj)). Match pattern k} = insert key ?K" using assms(1) by auto
  moreover have "finite ?K" "key \<notin> ?K" using assms(2,3) by auto
  moreover have "image_mset (\<lambda>k. the ((c(key \<mapsto> obj)) k)) (mset_set ?K) = image_mset (\<lambda>k. the (c k)) (mset_set ?K)"
    using assms(2,3) by (intro image_mset_cong) auto
  ultimately show ?thesis by simp
qed

section \<open>The interface\<close>

locale database =
  fixes ready :: "'db \<Rightarrow> bool"
    and contents :: "'db \<Rightarrow> contents"
    and pending :: "'db \<Rightarrow> StorageEvent list"
    and muted :: "'db \<Rightarrow> string \<Rightarrow> bool"
    and db_get :: "'db \<Rightarrow> string \<Rightarrow> string result"
    and db_set :: "int64 \<Rightarrow> 'db \<Rightarrow> string \<Rightarrow> string \<Rightarrow> (string \<times> 'db) outcome"
    and db_del :: "'db \<Rightarrow> string \<Rightarrow> (error option \<times> 'db) outcome"
    and decode :: "string \<Rightarrow> Object result"
    and decode_list :: "string \<Rightarrow> Object list result"
  assumes set_spec:
    "ready db \<Longrightarrow> storable path data \<Longrightarrow>
       \<exists>db'. db_set now db path data = Returns (LastIndex path, db') \<and> ready db' \<and>
         contents db' = spec_op (OpSet now path data) (contents db) \<and> muted db' = muted db \<and>
         pending db' = pending db @ spec_event (muted db) (OpSet now path data) (contents db)"
    and del_spec:
    "ready db \<Longrightarrow>
       \<exists>db'. db_del db path =
             Returns (if star \<notin> set path \<and> contents db path = None then Some not_found else None, db') \<and>
         ready db' \<and> contents db' = spec_op (OpDel path) (contents db) \<and> muted db' = muted db \<and>
         pending db' = pending db @ spec_event (muted db) (OpDel path) (contents db)"
    and get_key:
    "ready db \<Longrightarrow> star \<notin> set path \<Longrightarrow>
       (case contents db path of
          None \<Rightarrow> db_get db path = Inl not_found
        | Some obj \<Rightarrow> \<exists>s. db_get db path = Inr s \<and> s \<noteq> [] \<and> decode s = Inr obj)"
    and get_pattern:
    "ready db \<Longrightarrow> star \<in> set path \<Longrightarrow>
       \<exists>s objs. db_get db path = Inr s \<and> s \<noteq> [] \<and> decode_list s = Inr objs \<and>
         sorted_wrt (\<lambda>x y. \<not> object_less y x) objs \<and>
         mset objs = image_mset (\<lambda>k. the (contents db k))
           (mset_set {k \<in> dom (contents db). Match path k})"
begin

text \<open>A written object is read back with the stamps of its key.\<close>

lemma get_after_set:
  assumes "ready db" "storable path data" "star \<notin> set path"
  shows "\<exists>db' s. db_set now db path data = Returns (LastIndex path, db') \<and> ready db' \<and>
    db_get db' path = Inr s \<and> decode s = Inr (stamp_object now (contents db path) path data)"
proof -
  obtain db' where db': "db_set now db path data = Returns (LastIndex path, db')" "ready db'"
      "contents db' = spec_op (OpSet now path data) (contents db)"
    using set_spec [OF assms(1,2)] by blast
  with get_key [OF db'(2) assms(3)] show ?thesis by auto
qed

text \<open>Deleting twice fails the second time, and reading after a delete fails.\<close>

lemma get_after_del:
  assumes "ready db" "star \<notin> set path"
  shows "\<exists>db' r. db_del db path = Returns (r, db') \<and> db_get db' path = Inl not_found \<and>
    (\<exists>db''. db_del db' path = Returns (Some not_found, db''))"
proof -
  obtain db' r where db': "db_del db path = Returns (r, db')" "ready db'"
      "contents db' = spec_op (OpDel path) (contents db)"
    using del_spec [OF assms(1)] by blast
  then have gone: "contents db' path = None" using assms(2) by simp
  with get_key [OF db'(2) assms(2)] have "db_get db' path = Inl not_found" by simp
  moreover obtain db'' where "db_del db' path = Returns (Some not_found, db'')"
    using del_spec [OF db'(2), of path] gone assms(2) by auto
  ultimately show ?thesis using db'(1) by blast
qed

text \<open>Deleting a pattern empties it.\<close>

lemma pattern_empty_after_del:
  assumes "ready db" "star \<in> set path"
  shows "\<exists>db' s. db_del db path = Returns (None, db') \<and> db_get db' path = Inr s \<and>
    decode_list s = Inr []"
proof -
  obtain db' where db': "db_del db path = Returns (None, db')" "ready db'"
      "contents db' = spec_op (OpDel path) (contents db)"
    using del_spec [OF assms(1), of path] assms(2) by auto
  then have "{k \<in> dom (contents db'). Match path k} = {}"
    using assms(2) by (auto simp: restrict_map_def split: if_splits)
  with get_pattern [OF db'(2) assms(2)] db'(1) show ?thesis by auto
qed

text \<open>A pattern sees what was last written to a key it covers.\<close>

lemma pattern_sees_set:
  assumes "ready db" "storable path data" "star \<in> set pattern" "Match pattern path"
    "finite (dom (contents db))"
  shows "\<exists>db' s objs. db_set now db path data = Returns (LastIndex path, db') \<and>
    db_get db' pattern = Inr s \<and> decode_list s = Inr objs \<and>
    stamp_object now (contents db path) path data \<in> set objs"
proof -
  obtain db' where db': "db_set now db path data = Returns (LastIndex path, db')" "ready db'"
      "contents db' = spec_op (OpSet now path data) (contents db)"
    using set_spec [OF assms(1,2)] by blast
  obtain s objs where s: "db_get db' pattern = Inr s" "decode_list s = Inr objs"
      "mset objs = image_mset (\<lambda>k. the (contents db' k))
         (mset_set {k \<in> dom (contents db'). Match pattern k})"
    using get_pattern [OF db'(2) assms(3)] by blast
  have fin: "finite {k \<in> dom (contents db'). Match pattern k}"
    using assms(5) db'(3) by simp
  have "set objs = (\<lambda>k. the (contents db' k)) ` {k \<in> dom (contents db'). Match pattern k}"
    using arg_cong [OF s(3), of set_mset] fin by simp
  moreover have "path \<in> {k \<in> dom (contents db'). Match pattern k}"
    using db'(3) assms(4) by auto
  ultimately have "the (contents db' path) \<in> set objs" by blast
  with db' s show ?thesis by auto
qed

text \<open>
  A whole history of operations refines its specification: it returns, the contents are what the
  map operations say, and the channel received exactly the events of the operations that are not
  muted, in order.
\<close>

lemma run_op_refines:
  assumes "ready db" "op_storable op"
  shows "\<exists>db'. run_op db_set db_del op db = Returns db' \<and> ready db' \<and>
    contents db' = spec_op op (contents db) \<and> muted db' = muted db \<and>
    pending db' = pending db @ spec_event (muted db) op (contents db)"
proof (cases op)
  case (OpSet now path data)
  with assms(2) set_spec [OF assms(1), of path data now] show ?thesis by auto
next
  case (OpDel path)
  with del_spec [OF assms(1), of path] show ?thesis by auto
qed

lemma run_ops_refines:
  "ready db \<Longrightarrow> list_all op_storable ops \<Longrightarrow>
     \<exists>db'. run_ops db_set db_del ops db = Returns db' \<and> ready db' \<and>
       contents db' = fold spec_op ops (contents db) \<and> muted db' = muted db \<and>
       pending db' = pending db @ spec_events (muted db) ops (contents db)"
proof (induction ops arbitrary: db)
  case (Cons op ops)
  then obtain db1 where db1: "run_op db_set db_del op db = Returns db1" "ready db1"
      "contents db1 = spec_op op (contents db)" "muted db1 = muted db"
      "pending db1 = pending db @ spec_event (muted db) op (contents db)"
    using run_op_refines [of db op] by auto
  with Cons.IH [of db1] Cons.prems show ?case by auto
qed simp

end

end
