(* ===== verification/Memory.thy ===== *)
theory Memory
  imports Storage "HOL-Library.AList"
begin

text \<open>
  \<^verbatim>\<open>src/memory.go\<close>: the storage the server uses by default.

  The \<^verbatim>\<open>sync.Map\<close> is an association list with distinct keys. Its order is the order in which
  \<^verbatim>\<open>Range\<close> visits the entries, which Go leaves open: every list with the same entries is a
  state of the same storage, and what an operation returns is shown not to depend on the order
  beyond the order of equal elements of a sort.

  A call on a storage that was never started dereferences a nil pointer, and a send on the nil
  channel of a closed storage blocks: the operations return an \<open>outcome\<close>.
\<close>

record MemoryStorage =
  mem :: "(string \<times> string) list"
  noBroadcastKeys :: "string list"
  watcher :: "StorageEvent list option"
  storage :: "Storage option"

definition empty_MemoryStorage :: MemoryStorage where
  "empty_MemoryStorage = \<lparr>mem = [], noBroadcastKeys = [], watcher = None, storage = None\<rparr>"

definition MemoryStorage_Active :: "MemoryStorage \<Rightarrow> bool outcome" where
  "MemoryStorage_Active db =
     (case storage db of None \<Rightarrow> Panics NilDereference | Some st \<Rightarrow> Returns (StorageActive st))"

definition MemoryStorage_Start :: "StorageOpt \<Rightarrow> MemoryStorage \<Rightarrow> MemoryStorage" where
  "MemoryStorage_Start storageOpt db0 =
     (let db1 = (if storage db0 = None then db0\<lparr>storage := Some \<lparr>StorageActive = False\<rparr>\<rparr> else db0);
          db2 = (if watcher db1 = None then db1\<lparr>watcher := Some []\<rparr> else db1);
          db3 = db2\<lparr>noBroadcastKeys := OptNoBroadcastKeys storageOpt\<rparr>
      in db3\<lparr>storage := map_option (\<lambda>st. st\<lparr>StorageActive := True\<rparr>) (storage db3)\<rparr>)"

text \<open>Closing closes the channel: its readers get the zero event, and later sends would block.\<close>

definition MemoryStorage_Close :: "MemoryStorage \<Rightarrow> MemoryStorage outcome" where
  "MemoryStorage_Close db =
     (case storage db of
        None \<Rightarrow> Panics NilDereference
      | Some st \<Rightarrow>
          (case watcher db of
             None \<Rightarrow> Panics CloseOfNilChannel
           | Some ch \<Rightarrow>
               Returns (db\<lparr>storage := Some (st\<lparr>StorageActive := False\<rparr>), watcher := None\<rparr>)))"

definition MemoryStorage_Clear :: "MemoryStorage \<Rightarrow> MemoryStorage" where
  "MemoryStorage_Clear db = db\<lparr>mem := fold (\<lambda>kv m. AList.delete (fst kv) m) (mem db) (mem db)\<rparr>"

definition key_less :: "(string \<Rightarrow> string) \<Rightarrow> string \<Rightarrow> string \<Rightarrow> bool" where
  "key_less unicode_lower a b =
     (strings_ToLower unicode_lower a < strings_ToLower unicode_lower b)"

definition MemoryStorage_Keys ::
  "(string \<Rightarrow> string) \<Rightarrow> 'c codec_scheme \<Rightarrow> MemoryStorage \<Rightarrow> string result" where
  "MemoryStorage_Keys unicode_lower J db =
     Encode_json (marshal_stats J) (sort_Slice (key_less unicode_lower) (map fst (mem db)))"

fun KeysRange_visit ::
  "string \<Rightarrow> int64 \<Rightarrow> int64 \<Rightarrow> (string \<times> string) list \<Rightarrow> string list" where
  "KeysRange_visit path from_time to_time [] = []"
| "KeysRange_visit path from_time to_time ((current, value) # m) =
     (if \<not> Match path current then KeysRange_visit path from_time to_time m
      else
        (let paths = strings_Split current slash;
             created = Decode (paths ! (length paths - 1))
         in if sint created < sint from_time \<or> sint to_time < sint created
            then KeysRange_visit path from_time to_time m
            else current # KeysRange_visit path from_time to_time m))"

definition MemoryStorage_KeysRange ::
  "MemoryStorage \<Rightarrow> string \<Rightarrow> int64 \<Rightarrow> int64 \<Rightarrow> string list result" where
  "MemoryStorage_KeysRange db path from_time to_time =
     (if \<not> strings_Contains path ''*'' then Inl (Error ''katamari: invalid pattern'')
      else if sint to_time < sint from_time then Inl (Error ''katamari: invalid range'')
      else Inr (KeysRange_visit path from_time to_time (mem db)))"

fun Get_visit ::
  "(string \<Rightarrow> Object result) \<Rightarrow> string \<Rightarrow> (string \<times> string) list \<Rightarrow> Object list" where
  "Get_visit decode path [] = []"
| "Get_visit decode path ((k, value) # m) =
     (if \<not> Match path k then Get_visit decode path m
      else
        (case decode value of
           Inl err \<Rightarrow> Get_visit decode path m
         | Inr newObject \<Rightarrow> newObject # Get_visit decode path m))"

definition MemoryStorage_Get :: "'c codec_scheme \<Rightarrow> MemoryStorage \<Rightarrow> string \<Rightarrow> string result" where
  "MemoryStorage_Get J db path =
     (if \<not> strings_Contains path ''*'' then
        (case map_of (mem db) path of
           None \<Rightarrow> Inl (Error ''katamari: not found'')
         | Some data \<Rightarrow> Inr data)
      else
        (let res = Get_visit (DecodeRaw J) path (mem db)
         in Encode_json (marshal_objects J) (sort_Slice object_less res)))"

definition MemoryStorage_GetN ::
  "'c codec_scheme \<Rightarrow> MemoryStorage \<Rightarrow> string \<Rightarrow> int \<Rightarrow> Object list result" where
  "MemoryStorage_GetN J db path limit =
     (if \<not> strings_Contains path ''*'' then Inl (Error ''katamari: invalid pattern'')
      else if limit \<le> 0 then Inl (Error ''katamari: invalid limit'')
      else
        (let res = sort_Slice object_less (Get_visit (Decode_object J) path (mem db))
         in if limit < int (length res) then Inr (take (nat limit) res) else Inr res))"

fun GetNRange_visit ::
  "(string \<Rightarrow> Object result) \<Rightarrow> string \<Rightarrow> int64 \<Rightarrow> int64 \<Rightarrow> (string \<times> string) list \<Rightarrow> Object list"
where
  "GetNRange_visit decode path from_time to_time [] = []"
| "GetNRange_visit decode path from_time to_time ((current, value) # m) =
     (if \<not> Match path current then GetNRange_visit decode path from_time to_time m
      else
        (let paths = strings_Split current slash;
             created = Key.Decode (paths ! (length paths - 1))
         in if sint created < sint from_time \<or> sint to_time < sint created
            then GetNRange_visit decode path from_time to_time m
            else
              (case decode value of
                 Inl err \<Rightarrow> GetNRange_visit decode path from_time to_time m
               | Inr newObject \<Rightarrow> newObject # GetNRange_visit decode path from_time to_time m)))"

definition MemoryStorage_GetNRange ::
  "'c codec_scheme \<Rightarrow> MemoryStorage \<Rightarrow> string \<Rightarrow> int \<Rightarrow> int64 \<Rightarrow> int64 \<Rightarrow> Object list result" where
  "MemoryStorage_GetNRange J db path limit from_time to_time =
     (if \<not> strings_Contains path ''*'' then Inl (Error ''katamari: invalid pattern'')
      else if limit \<le> 0 then Inl (Error ''katamari: invalid limit'')
      else
        (let res = sort_Slice object_less
               (GetNRange_visit (Decode_object J) path from_time to_time (mem db))
         in if limit < int (length res) then Inr (take (nat limit) res) else Inr res))"

definition MemoryStorage_Peek ::
  "'c codec_scheme \<Rightarrow> MemoryStorage \<Rightarrow> string \<Rightarrow> int64 \<Rightarrow> int64 \<times> int64" where
  "MemoryStorage_Peek J db path now =
     (case map_of (mem db) path of
        None \<Rightarrow> (now, 0)
      | Some previous \<Rightarrow>
          (case DecodeRaw J previous of
             Inl err \<Rightarrow> (now, 0)
           | Inr oldObject \<Rightarrow> (Created oldObject, now)))"

definition send_event :: "StorageEvent \<Rightarrow> MemoryStorage \<Rightarrow> MemoryStorage outcome" where
  "send_event ev db =
     (case watcher db of
        None \<Rightarrow> Blocks
      | Some ch \<Rightarrow> Returns (db\<lparr>watcher := Some (ch @ [ev])\<rparr>))"

text \<open>The guarded send with which \<open>Set\<close>, \<open>Pivot\<close> and \<open>Del\<close> end.\<close>

definition broadcast_event :: "string \<Rightarrow> string \<Rightarrow> MemoryStorage \<Rightarrow> MemoryStorage outcome" where
  "broadcast_event path operation db =
     (if Contains (noBroadcastKeys db) path then Returns db
      else
        bind_outcome (MemoryStorage_Active db)
          (\<lambda>active. if active then send_event \<lparr>EvKey = path, EvOperation = operation\<rparr> db
                    else Returns db))"

definition MemoryStorage_Set ::
  "'c codec_scheme \<Rightarrow> int64 \<Rightarrow> MemoryStorage \<Rightarrow> string \<Rightarrow> string \<Rightarrow> (string \<times> MemoryStorage) outcome"
where
  "MemoryStorage_Set J now db path data =
     (let index = LastIndex path;
          (created, updated) = MemoryStorage_Peek J db path now;
          db1 = db\<lparr>mem := AList.update path
            (New J \<lparr>Created = created, Updated = updated, Index = index, Data = data\<rparr>) (mem db)\<rparr>
      in bind_outcome (broadcast_event path ''set'' db1) (\<lambda>db2. Returns (index, db2)))"

definition MemoryStorage_Pivot ::
  "'c codec_scheme \<Rightarrow> MemoryStorage \<Rightarrow> string \<Rightarrow> string \<Rightarrow> int64 \<Rightarrow> int64 \<Rightarrow>
     (string \<times> MemoryStorage) outcome"
where
  "MemoryStorage_Pivot J db path data created updated =
     (let index = LastIndex path;
          db1 = db\<lparr>mem := AList.update path
            (New J \<lparr>Created = created, Updated = updated, Index = index, Data = data\<rparr>) (mem db)\<rparr>
      in if 8 < length path \<and> take 7 path = ''history'' then Returns (index, db1)
         else bind_outcome (broadcast_event path ''set'' db1) (\<lambda>db2. Returns (index, db2)))"

definition MemoryStorage_Del :: "MemoryStorage \<Rightarrow> string \<Rightarrow> (error option \<times> MemoryStorage) outcome" where
  "MemoryStorage_Del db path =
     (if \<not> strings_Contains path ''*'' then
        (case map_of (mem db) path of
           None \<Rightarrow> Returns (Some (Error ''katamari: not found''), db)
         | Some value \<Rightarrow>
             bind_outcome (broadcast_event path ''del'' (db\<lparr>mem := AList.delete path (mem db)\<rparr>))
               (\<lambda>db2. Returns (None, db2)))
      else
        (let m = fold (\<lambda>kv m. if Match path (fst kv) then AList.delete (fst kv) m else m)
               (mem db) (mem db)
         in bind_outcome (broadcast_event path ''del'' (db\<lparr>mem := m\<rparr>))
              (\<lambda>db2. Returns (None, db2))))"

definition MemoryStorage_Watch :: "MemoryStorage \<Rightarrow> StorageEvent list option" where
  "MemoryStorage_Watch db = watcher db"

text \<open>
  One turn of \<^verbatim>\<open>WatchStorageNoop\<close> of \<^verbatim>\<open>src/storage.go\<close>: it takes the
  oldest event and drops it, and says whether it goes on. With no event it waits; each turn asks for the
  channel anew, and a nil channel never gives anything.
\<close>

definition WatchStorageNoop_step :: "MemoryStorage \<Rightarrow> (bool \<times> MemoryStorage) outcome" where
  "WatchStorageNoop_step db =
     (case MemoryStorage_Watch db of
        None \<Rightarrow> Blocks
      | Some [] \<Rightarrow> Blocks
      | Some (ev # evs) \<Rightarrow>
          (let db1 = db\<lparr>watcher := Some evs\<rparr>
           in bind_outcome (MemoryStorage_Active db1) (\<lambda>active. Returns (active, db1))))"

end
