(* ===== verification/MemoryRefines.thy ===== *)
theory MemoryRefines
  imports Memory
begin

text \<open>
  \<^verbatim>\<open>MemoryStorage\<close> implements the \<open>database\<close> contract: through \<open>mem_contents\<close> a storage is
  a map from keys to objects, and every operation does to that map what \<open>spec_op\<close> says. The
  invariant \<open>storage_ready\<close> holds from \<open>Start\<close> to \<open>Close\<close>, under the codec laws.
\<close>

definition mem_contents :: "'c codec_scheme \<Rightarrow> MemoryStorage \<Rightarrow> contents" where
  "mem_contents J db k =
     (case map_of (mem db) k of
        None \<Rightarrow> None
      | Some v \<Rightarrow> (case DecodeRaw J v of Inl err \<Rightarrow> None | Inr obj \<Rightarrow> Some obj))"

definition mem_pending :: "MemoryStorage \<Rightarrow> StorageEvent list" where
  "mem_pending db = (case watcher db of None \<Rightarrow> [] | Some ch \<Rightarrow> ch)"

definition mem_muted :: "MemoryStorage \<Rightarrow> string \<Rightarrow> bool" where
  "mem_muted db path = Contains (noBroadcastKeys db) path"

definition stored_ok :: "'c codec_scheme \<Rightarrow> string \<Rightarrow> bool" where
  "stored_ok J v \<longleftrightarrow> v \<noteq> [] \<and> (\<exists>obj. safe_object obj \<and> DecodeRaw J v = Inr obj)"

definition mem_ok :: "'c codec_scheme \<Rightarrow> (string \<times> string) list \<Rightarrow> bool" where
  "mem_ok J m \<longleftrightarrow> distinct (map fst m) \<and> (\<forall>k v. map_of m k = Some v \<longrightarrow> stored_ok J v)"

definition started :: "MemoryStorage \<Rightarrow> bool" where
  "started db \<longleftrightarrow> storage db = Some \<lparr>StorageActive = True\<rparr> \<and> watcher db \<noteq> None"

definition storage_ready :: "'c codec_scheme \<Rightarrow> MemoryStorage \<Rightarrow> bool" where
  "storage_ready J db \<longleftrightarrow> object_law J \<and> objects_law J \<and> started db \<and> mem_ok J (mem db)"

section \<open>The channel\<close>

lemma broadcast_event_started:
  "started db \<Longrightarrow>
     \<exists>db'. broadcast_event path operation db = Returns db' \<and> started db' \<and> mem db' = mem db \<and>
       noBroadcastKeys db' = noBroadcastKeys db \<and>
       mem_pending db' = mem_pending db @
         (if mem_muted db path then [] else [\<lparr>EvKey = path, EvOperation = operation\<rparr>])"
  by (auto simp: broadcast_event_def started_def MemoryStorage_Active_def send_event_def
      mem_muted_def mem_pending_def)

lemma started_mem [simp]: "started (db\<lparr>mem := m\<rparr>) = started db"
  by (simp add: started_def)

lemma mem_pending_mem [simp]: "mem_pending (db\<lparr>mem := m\<rparr>) = mem_pending db"
  by (simp add: mem_pending_def)

lemma mem_muted_mem [simp]: "mem_muted (db\<lparr>mem := m\<rparr>) = mem_muted db"
  by (simp add: mem_muted_def fun_eq_iff)

lemma mem_muted_cong: "noBroadcastKeys db' = noBroadcastKeys db \<Longrightarrow> mem_muted db' = mem_muted db"
  by (simp add: mem_muted_def fun_eq_iff)

lemma mem_contents_cong: "mem db' = mem db \<Longrightarrow> mem_contents J db' = mem_contents J db"
  by (simp add: mem_contents_def fun_eq_iff)

section \<open>The map\<close>

lemma mem_contents_update:
  "DecodeRaw J v = Inr obj \<Longrightarrow>
     mem_contents J (db\<lparr>mem := AList.update path v (mem db)\<rparr>) = (mem_contents J db)(path \<mapsto> obj)"
  by (auto simp: mem_contents_def fun_eq_iff update_conv')

lemma mem_contents_delete:
  "mem_contents J (db\<lparr>mem := AList.delete path (mem db)\<rparr>) = (mem_contents J db)(path := None)"
  by (auto simp: mem_contents_def fun_eq_iff delete_conv')

lemma mem_ok_update: "mem_ok J m \<Longrightarrow> stored_ok J v \<Longrightarrow> mem_ok J (AList.update path v m)"
  by (auto simp: mem_ok_def update_conv' distinct_update)

lemma mem_ok_delete: "mem_ok J m \<Longrightarrow> mem_ok J (AList.delete path m)"
  by (auto simp: mem_ok_def delete_conv' distinct_delete)

lemma map_of_fold_delete:
  "map_of (fold (\<lambda>kv m. if P (fst kv) then AList.delete (fst kv) m else m) kvs m) k =
     (if P k \<and> k \<in> fst ` set kvs then None else map_of m k)"
  by (induction kvs arbitrary: m) (auto simp: delete_conv')

lemma mem_ok_fold_delete:
  "mem_ok J m \<Longrightarrow>
     mem_ok J (fold (\<lambda>kv m. if P (fst kv) then AList.delete (fst kv) m else m) kvs m)"
  by (induction kvs arbitrary: m) (auto simp: mem_ok_delete)

lemma mem_contents_fold_delete:
  "mem_contents J (db\<lparr>mem := fold (\<lambda>kv m. if P (fst kv) then AList.delete (fst kv) m else m)
       (mem db) (mem db)\<rparr>) = mem_contents J db |` {k. \<not> P k}"
  by (auto simp: mem_contents_def fun_eq_iff map_of_fold_delete restrict_map_def
      dest: map_of_SomeD split: option.splits intro: rev_image_eqI)

lemma mem_contents_Some:
  "mem_ok J (mem db) \<Longrightarrow> map_of (mem db) k = Some v \<Longrightarrow>
     \<exists>obj. mem_contents J db k = Some obj \<and> DecodeRaw J v = Inr obj \<and> safe_object obj \<and> v \<noteq> []"
  by (fastforce simp: mem_contents_def mem_ok_def stored_ok_def)

lemma mem_contents_None:
  "mem_ok J (mem db) \<Longrightarrow> mem_contents J db k = None \<longleftrightarrow> map_of (mem db) k = None"
  using mem_contents_Some [of J db k] by (cases "map_of (mem db) k") (auto simp: mem_contents_def)

lemma dom_mem_contents: "mem_ok J (mem db) \<Longrightarrow> dom (mem_contents J db) = fst ` set (mem db)"
  by (auto simp: dom_def mem_contents_None map_of_eq_None_iff)

lemma finite_dom_mem_contents: "finite (dom (mem_contents J db))"
proof (rule finite_subset)
  show "dom (mem_contents J db) \<subseteq> dom (map_of (mem db))"
    by (auto simp: mem_contents_def split: option.splits)
qed (rule finite_dom_map_of)

lemma Peek_stamps:
  "mem_ok J (mem db) \<Longrightarrow>
     MemoryStorage_Peek J db path now =
       (Created (stamp_object now (mem_contents J db path) path data),
        Updated (stamp_object now (mem_contents J db path) path data))"
  by (auto simp: MemoryStorage_Peek_def mem_contents_def stamp_object_def split: option.splits sum.splits)

lemma Set_new_object:
  assumes "mem_ok J (mem db)"
  shows "MemoryStorage_Set J now db path data =
    bind_outcome
      (broadcast_event path ''set''
        (db\<lparr>mem := AList.update path
          (New J (stamp_object now (mem_contents J db path) path data)) (mem db)\<rparr>))
      (\<lambda>db2. Returns (LastIndex path, db2))"
  unfolding MemoryStorage_Set_def Peek_stamps [OF assms, of path now data] Let_def case_prod_conv
  by (simp add: stamp_object_def)

lemma stored_ok_New: "object_law J \<Longrightarrow> safe_object obj \<Longrightarrow> stored_ok J (New J obj)"
  using DecodeRaw_New New_not_Nil unfolding stored_ok_def by blast

section \<open>Reading a pattern\<close>

lemma mset_Get_visit:
  "\<forall>(k, v) \<in> set m. \<exists>obj. decode v = Inr obj \<and> c k = Some obj \<Longrightarrow>
     mset (Get_visit decode path m) =
       image_mset (\<lambda>k. the (c k)) (mset (filter (Match path) (map fst m)))"
  by (induction m) (auto split: sum.splits)

lemma Get_visit_safe:
  "\<forall>(k, v) \<in> set m. \<exists>obj. decode v = Inr obj \<and> safe_object obj \<Longrightarrow>
     list_all safe_object (Get_visit decode path m)"
  by (induction m) (auto split: sum.splits)

lemma mset_Get_visit_contents:
  assumes "mem_ok J (mem db)"
  shows "mset (Get_visit (DecodeRaw J) path (mem db)) =
    image_mset (\<lambda>k. the (mem_contents J db k)) (mset_set {k \<in> dom (mem_contents J db). Match path k})"
proof -
  have dist: "distinct (map fst (mem db))" using assms by (simp add: mem_ok_def)
  have "\<forall>(k, v) \<in> set (mem db). \<exists>obj. DecodeRaw J v = Inr obj \<and> mem_contents J db k = Some obj"
    using mem_contents_Some [OF assms] map_of_is_SomeI [OF dist] by fastforce
  then have "mset (Get_visit (DecodeRaw J) path (mem db)) =
      image_mset (\<lambda>k. the (mem_contents J db k)) (mset (filter (Match path) (map fst (mem db))))"
    by (rule mset_Get_visit)
  also have "mset (filter (Match path) (map fst (mem db))) =
      mset_set (set (filter (Match path) (map fst (mem db))))"
    using dist by (intro mset_set_set [symmetric]) simp
  also have "set (filter (Match path) (map fst (mem db))) =
      {k \<in> dom (mem_contents J db). Match path k}"
    using dom_mem_contents [OF assms] by auto
  finally show ?thesis .
qed

lemma Get_pattern:
  assumes "storage_ready J db" "star \<in> set path"
  defines "objs \<equiv> sort_Slice object_less (Get_visit (DecodeRaw J) path (mem db))"
  shows "\<exists>s. MemoryStorage_Get J db path = Inr s \<and> s \<noteq> [] \<and> unmarshal_objects J s = Inr objs"
proof -
  have ok: "mem_ok J (mem db)" and law: "objects_law J"
    using assms by (auto simp: storage_ready_def)
  have "distinct (map fst (mem db))" using ok by (simp add: mem_ok_def)
  then have "\<forall>(k, v) \<in> set (mem db). \<exists>obj. DecodeRaw J v = Inr obj \<and> safe_object obj"
    using mem_contents_Some [OF ok] map_of_is_SomeI by fastforce
  then have "list_all safe_object (Get_visit (DecodeRaw J) path (mem db))"
    by (rule Get_visit_safe)
  then have "list_all safe_object objs" by (simp add: objs_def list_all_iff)
  with law obtain s where "marshal_objects J objs = Inr s" "s \<noteq> []" "unmarshal_objects J s = Inr objs"
    unfolding objects_law_def by blast
  with assms(2) show ?thesis
    by (auto simp: MemoryStorage_Get_def Encode_json_def objs_def)
qed

section \<open>The contract holds\<close>

interpretation memory: database
  "storage_ready J" "mem_contents J" mem_pending mem_muted "MemoryStorage_Get J"
  "MemoryStorage_Set J" MemoryStorage_Del "DecodeRaw J" "unmarshal_objects J" for J
proof (unfold_locales, goal_cases)
  case (1 db path data now)
  let ?obj = "stamp_object now (mem_contents J db path) path data"
  let ?db1 = "db\<lparr>mem := AList.update path (New J ?obj) (mem db)\<rparr>"
  have ok: "mem_ok J (mem db)" and law: "object_law J" and st: "started ?db1"
    using 1 by (auto simp: storage_ready_def)
  have safe: "safe_object ?obj" using 1 by (simp add: safe_stamp_object)
  have ok1: "mem_ok J (mem ?db1)" using ok law safe by (simp add: mem_ok_update stored_ok_New)
  have cont: "mem_contents J ?db1 = (mem_contents J db)(path \<mapsto> ?obj)"
    by (rule mem_contents_update [OF DecodeRaw_New [OF law safe]])
  obtain db' where db': "broadcast_event path ''set'' ?db1 = Returns db'" "started db'" "mem db' = mem ?db1"
      "noBroadcastKeys db' = noBroadcastKeys ?db1" "mem_pending db' = mem_pending ?db1 @
         (if mem_muted ?db1 path then [] else [\<lparr>EvKey = path, EvOperation = ''set''\<rparr>])"
    using broadcast_event_started [OF st] by blast
  have "storage_ready J db'"
    using 1 db'(2,3) ok1 by (simp add: storage_ready_def)
  moreover have "mem_contents J db' = (mem_contents J db)(path \<mapsto> ?obj)"
    using mem_contents_cong [OF db'(3), of J] cont by simp
  moreover have "mem_muted db' = mem_muted db"
    using mem_muted_cong [OF db'(4)] by simp
  ultimately show ?case
    using db' by (simp add: Set_new_object [OF ok])
next
  case (2 db path)
  have ok: "mem_ok J (mem db)" and st: "started (db\<lparr>mem := m\<rparr>)" for m
    using 2 by (auto simp: storage_ready_def)
  have finish: "\<exists>db'. broadcast_event path ''del'' (db\<lparr>mem := m\<rparr>) = Returns db' \<and>
      storage_ready J db' \<and> mem_contents J db' = mem_contents J (db\<lparr>mem := m\<rparr>) \<and>
      mem_muted db' = mem_muted db \<and>
      mem_pending db' = mem_pending db @
        (if mem_muted db path then [] else [\<lparr>EvKey = path, EvOperation = ''del''\<rparr>])"
    if m: "mem_ok J m" for m
  proof -
    obtain db' where db': "broadcast_event path ''del'' (db\<lparr>mem := m\<rparr>) = Returns db'"
        "started db'" "mem db' = mem (db\<lparr>mem := m\<rparr>)"
        "noBroadcastKeys db' = noBroadcastKeys (db\<lparr>mem := m\<rparr>)"
        "mem_pending db' = mem_pending (db\<lparr>mem := m\<rparr>) @
           (if mem_muted (db\<lparr>mem := m\<rparr>) path then [] else [\<lparr>EvKey = path, EvOperation = ''del''\<rparr>])"
      using broadcast_event_started [OF st] by blast
    have "storage_ready J db'"
      using 2 db'(2,3) m by (simp add: storage_ready_def)
    moreover have "mem_muted db' = mem_muted db"
      using mem_muted_cong [OF db'(4)] by simp
    ultimately show ?thesis
      using db' mem_contents_cong [OF db'(3), of J] by simp
  qed
  show ?case
  proof (cases "star \<in> set path")
    case True
    let ?m = "fold (\<lambda>kv m. if Match path (fst kv) then AList.delete (fst kv) m else m) (mem db) (mem db)"
    obtain db' where "broadcast_event path ''del'' (db\<lparr>mem := ?m\<rparr>) = Returns db'" "storage_ready J db'"
        "mem_contents J db' = mem_contents J (db\<lparr>mem := ?m\<rparr>)" "mem_muted db' = mem_muted db"
        "mem_pending db' = mem_pending db @
          (if mem_muted db path then [] else [\<lparr>EvKey = path, EvOperation = ''del''\<rparr>])"
      using finish [OF mem_ok_fold_delete [OF ok, of "Match path" "mem db"]] by blast
    with True show ?thesis
      by (simp add: MemoryStorage_Del_def mem_contents_fold_delete)
  next
    case False
    show ?thesis
    proof (cases "map_of (mem db) path")
      case None
      then have "mem_contents J db path = None" by (simp add: mem_contents_def)
      with None False 2 show ?thesis
        by (auto simp: MemoryStorage_Del_def not_found_def fun_upd_idem)
    next
      case (Some v)
      with mem_contents_Some [OF ok] have "mem_contents J db path \<noteq> None" by blast
      moreover obtain db' where
          "broadcast_event path ''del'' (db\<lparr>mem := AList.delete path (mem db)\<rparr>) = Returns db'"
          "storage_ready J db'"
          "mem_contents J db' = mem_contents J (db\<lparr>mem := AList.delete path (mem db)\<rparr>)"
          "mem_muted db' = mem_muted db"
          "mem_pending db' = mem_pending db @
            (if mem_muted db path then [] else [\<lparr>EvKey = path, EvOperation = ''del''\<rparr>])"
        using finish [OF mem_ok_delete [OF ok, of path]] by blast
      ultimately show ?thesis
        using Some False by (simp add: MemoryStorage_Del_def mem_contents_delete)
    qed
  qed
next
  case (3 db path)
  then have ok: "mem_ok J (mem db)" by (simp add: storage_ready_def)
  show ?case
  proof (cases "map_of (mem db) path")
    case None
    with 3(2) show ?thesis
      by (simp add: MemoryStorage_Get_def mem_contents_def not_found_def)
  next
    case (Some v)
    with mem_contents_Some [OF ok Some] 3(2) show ?thesis
      by (auto simp: MemoryStorage_Get_def)
  qed
next
  case (4 db path)
  let ?objs = "sort_Slice object_less (Get_visit (DecodeRaw J) path (mem db))"
  have "sorted_wrt (\<lambda>x y. \<not> object_less y x) ?objs"
    by (rule recent.sort_Slice_sorted)
  moreover have "mset ?objs = image_mset (\<lambda>k. the (mem_contents J db k))
      (mset_set {k \<in> dom (mem_contents J db). Match path k})"
    using 4(1) mset_Get_visit_contents [of J db path] by (simp add: storage_ready_def)
  ultimately show ?case using Get_pattern [OF 4] by blast
qed

end
