(* ===== verification/MemoryQueries.thy ===== *)
theory MemoryQueries
  imports MemoryRefines
begin

text \<open>
  The listing operations of \<^verbatim>\<open>MemoryStorage\<close> (\<open>Keys\<close>, \<open>KeysRange\<close>, \<open>GetN\<close>,
  \<open>GetNRange\<close>) and its life cycle: what each returns on every branch, that no answer depends on
  the visiting order of the map, and what a call does before \<open>Start\<close> and after \<open>Close\<close>.
\<close>

section \<open>Keys, in the order of their lower case\<close>

interpretation lowered: strict_weak_order "key_less unicode_lower" for unicode_lower
  by unfold_locales (auto simp: key_less_def)

lemma Keys_sorted_permutation:
  "\<exists>ks. MemoryStorage_Keys unicode_lower J db = Encode_json (marshal_stats J) ks \<and>
     mset ks = mset (map fst (mem db)) \<and>
     sorted_wrt (\<lambda>a b. strings_ToLower unicode_lower a \<le> strings_ToLower unicode_lower b) ks"
proof -
  let ?ks = "sort_Slice (key_less unicode_lower) (map fst (mem db))"
  have "sorted_wrt (\<lambda>x y. \<not> key_less unicode_lower y x) ?ks"
    by (rule lowered.sort_Slice_sorted)
  then have "sorted_wrt (\<lambda>a b. strings_ToLower unicode_lower a \<le> strings_ToLower unicode_lower b) ?ks"
    by (rule sorted_wrt_mono_rel [rotated]) (simp add: key_less_def not_less)
  then show ?thesis
    by (intro exI [of _ ?ks]) (simp add: MemoryStorage_Keys_def)
qed

section \<open>Ranges of creation times\<close>

definition in_range :: "int64 \<Rightarrow> int64 \<Rightarrow> string \<Rightarrow> bool" where
  "in_range from_time to_time key \<longleftrightarrow>
     sint from_time \<le> sint (Decode (LastIndex key)) \<and> sint (Decode (LastIndex key)) \<le> sint to_time"

lemma last_path: "strings_Split k slash ! (length (strings_Split k slash) - Suc 0) = LastIndex k"
  by (simp add: LastIndex_segment last_conv_nth)

lemma KeysRange_visit_filter:
  "KeysRange_visit path from_time to_time m =
     filter (\<lambda>k. Match path k \<and> in_range from_time to_time k) (map fst m)"
  by (induction m) (auto simp: last_path in_range_def not_less Let_def)

lemma KeysRange_result:
  "star \<in> set path \<Longrightarrow> sint from_time \<le> sint to_time \<Longrightarrow>
     MemoryStorage_KeysRange db path from_time to_time =
       Inr (filter (\<lambda>k. Match path k \<and> in_range from_time to_time k) (map fst (mem db)))"
  by (simp add: MemoryStorage_KeysRange_def KeysRange_visit_filter)

lemma GetNRange_visit_filter:
  "GetNRange_visit decode path from_time to_time m =
     Get_visit decode path (filter (\<lambda>kv. in_range from_time to_time (fst kv)) m)"
  by (induction m) (auto simp: last_path in_range_def not_less Let_def split: sum.splits)

lemma GetNRange_eq_GetN:
  "MemoryStorage_GetNRange J db path limit from_time to_time =
     MemoryStorage_GetN J
       (db\<lparr>mem := filter (\<lambda>kv. in_range from_time to_time (fst kv)) (mem db)\<rparr>) path limit"
  by (simp add: MemoryStorage_GetNRange_def MemoryStorage_GetN_def GetNRange_visit_filter)

section \<open>The newest elements\<close>

lemma newest_prefix:
  assumes "sorted_wrt R xs"
  shows "\<forall>x \<in> set (take n xs). \<forall>y \<in> set (drop n xs). R x y"
proof -
  have "sorted_wrt R (take n xs @ drop n xs)" using assms by simp
  then show ?thesis unfolding sorted_wrt_append by blast
qed

lemma GetN_result:
  fixes J :: "'c codec_scheme" and db :: MemoryStorage
  assumes "star \<in> set path" "0 < limit"
  defines "found \<equiv> Get_visit (Decode_object J) path (mem db)"
  shows "\<exists>res omitted. MemoryStorage_GetN J db path limit = Inr res \<and>
    length res = min (nat limit) (length found) \<and> mset (res @ omitted) = mset found \<and>
    sorted_wrt (\<lambda>x y. \<not> object_less y x) res \<and>
    (\<forall>x \<in> set res. \<forall>y \<in> set omitted. \<not> object_less y x)"
proof -
  let ?all = "sort_Slice object_less found" and ?n = "nat limit"
  have sorted: "sorted_wrt (\<lambda>x y. \<not> object_less y x) ?all"
    by (rule recent.sort_Slice_sorted)
  have "MemoryStorage_GetN J db path limit = Inr (take ?n ?all)"
    using assms by (auto simp: MemoryStorage_GetN_def Let_def)
  moreover have "length (take ?n ?all) = min ?n (length found)"
    by (simp add: min.commute)
  moreover have "mset (take ?n ?all @ drop ?n ?all) = mset found"
    by (simp del: mset_append)
  moreover have "sorted_wrt (\<lambda>x y. \<not> object_less y x) (take ?n ?all)"
    using sorted by (rule sorted_wrt_take)
  ultimately show ?thesis using newest_prefix [OF sorted] by blast
qed

section \<open>The visiting order does not matter\<close>

lemma Get_visit_order:
  "mset m = mset m' \<Longrightarrow> mset (Get_visit decode path m) = mset (Get_visit decode path m')"
proof -
  have as_filter: "mset (Get_visit decode path m) =
      image_mset (\<lambda>kv. projr (decode (snd kv)))
        (filter_mset (\<lambda>kv. Match path (fst kv) \<and> (\<exists>obj. decode (snd kv) = Inr obj)) (mset m))" for m
    by (induction m) (auto split: sum.splits)
  assume "mset m = mset m'"
  then show ?thesis by (simp add: as_filter)
qed

lemma Get_key_order:
  "mset (mem db) = mset (mem db') \<Longrightarrow> distinct (map fst (mem db)) \<Longrightarrow> star \<notin> set path \<Longrightarrow>
     MemoryStorage_Get J db path = MemoryStorage_Get J db' path"
  by (simp add: MemoryStorage_Get_def map_of_eq_of_mset_eq [of "mem db" "mem db'"])

lemma mem_contents_order:
  "mset (mem db) = mset (mem db') \<Longrightarrow> distinct (map fst (mem db)) \<Longrightarrow>
     mem_contents J db = mem_contents J db'"
  by (simp add: mem_contents_def fun_eq_iff map_of_eq_of_mset_eq [of "mem db" "mem db'"])

section \<open>Before Start and after Close\<close>

lemma Start_started: "started (MemoryStorage_Start opt db)"
  by (cases "storage db") (auto simp: MemoryStorage_Start_def started_def Let_def)

lemma Start_frame: "mem (MemoryStorage_Start opt db) = mem db"
  by (simp add: MemoryStorage_Start_def Let_def)

lemma Close_started:
  "started db \<Longrightarrow>
     \<exists>db'. MemoryStorage_Close db = Returns db' \<and> mem db' = mem db \<and>
       MemoryStorage_Active db' = Returns False \<and> watcher db' = None"
  by (auto simp: MemoryStorage_Close_def started_def MemoryStorage_Active_def)

lemma broadcast_event_inactive:
  "MemoryStorage_Active db = Returns False \<Longrightarrow> broadcast_event path operation db = Returns db"
  by (simp add: broadcast_event_def)

lemma Clear_empty: "mem (MemoryStorage_Clear db) = []"
proof -
  have keep: "set (fold (\<lambda>kv m. AList.delete (fst kv) m) kvs m) =
      {kv \<in> set m. fst kv \<notin> fst ` set kvs}" for kvs m :: "(string \<times> string) list"
    by (induction kvs arbitrary: m) (auto simp: AList.delete_eq)
  have "set (mem (MemoryStorage_Clear db)) = {}"
    by (auto simp: MemoryStorage_Clear_def keep)
  then show ?thesis by simp
qed

section \<open>What a write does to the entries\<close>

lemma broadcast_event_frame:
  "broadcast_event path operation db = Returns db' \<Longrightarrow> mem db' = mem db \<and> noBroadcastKeys db' = noBroadcastKeys db"
  by (auto simp: broadcast_event_def send_event_def bind_outcome_eq_Returns split: if_splits option.splits)

lemma Set_mem:
  "MemoryStorage_Set J now db path data = Returns (index, db') \<Longrightarrow>
     \<exists>v. mem db' = AList.update path v (mem db)"
  by (auto simp: MemoryStorage_Set_def Let_def bind_outcome_eq_Returns split: prod.splits
      dest!: broadcast_event_frame)

lemma Set_new:
  "MemoryStorage_Set J now db path data = Returns (index, db') \<Longrightarrow>
     \<exists>obj. mem db' = AList.update path (New J obj) (mem db)"
  by (auto simp: MemoryStorage_Set_def Let_def bind_outcome_eq_Returns split: prod.splits
      dest!: broadcast_event_frame)

lemma Del_mem:
  assumes "MemoryStorage_Del db path = Returns (err, db')"
  shows "mem db' = mem db \<or> mem db' = AList.delete path (mem db) \<or>
    mem db' = fold (\<lambda>kv m. if Match path (fst kv) then AList.delete (fst kv) m else m) (mem db) (mem db)"
  using assms
  by (auto simp: MemoryStorage_Del_def Let_def bind_outcome_eq_Returns split: if_splits option.splits
      dest!: broadcast_event_frame)

lemma Set_noBroadcastKeys:
  "MemoryStorage_Set J now db path data = Returns (index, db') \<Longrightarrow> noBroadcastKeys db' = noBroadcastKeys db"
  by (auto simp: MemoryStorage_Set_def Let_def bind_outcome_eq_Returns split: prod.splits
      dest!: broadcast_event_frame)

lemma Del_noBroadcastKeys:
  "MemoryStorage_Del db path = Returns (err, db') \<Longrightarrow> noBroadcastKeys db' = noBroadcastKeys db"
  by (auto simp: MemoryStorage_Del_def Let_def bind_outcome_eq_Returns split: if_splits option.splits
      dest!: broadcast_event_frame)

end
