(* ===== verification/Stream.thy ===== *)
theory Stream
  imports Key Messages
begin

text \<open>
  \<^verbatim>\<open>src/stream/stream.go\<close> and \<^verbatim>\<open>src/stream/clock.go\<close>: the pools of websocket connections, one
  per subscribed key, each with the cache of the last broadcast document and its version.

  A connection is an identity; what the peer receives is the list of frames in its \<open>socket\<close>. A
  write fails when the connection is closed or the peer is gone (\<open>failing\<close>, which the network
  decides), and a failed write closes the connection. The locks of the source make each method one
  atomic operation on the state. Every call of the clock is an argument.

  Pool 0 is the pool of the clock subscribers, with the empty key.
\<close>

type_synonym Conn = nat

record socket =
  sent :: "string list"
  failing :: bool
  sock_closed :: bool

record Cache =
  Version :: int64
  CacheData :: string

record Pool =
  PoolKey :: string
  cache :: Cache
  connections :: "Conn list"

record Stream =
  OnSubscribe :: "string \<Rightarrow> error option"
  ForcePatch :: bool
  NoPatch :: bool
  pools :: "Pool list"
  sockets :: "Conn \<Rightarrow> socket"
  next_conn :: Conn
  unsubscribed :: "string list"
  callbacks :: nat

record BroadcastOpt =
  opt_Get :: "string \<Rightarrow> string result"
  opt_Encode :: "string \<Rightarrow> string"
  opt_Callback :: bool

definition zero_Cache :: Cache where
  "zero_Cache = \<lparr>Version = 0, CacheData = []\<rparr>"

definition open_socket :: socket where
  "open_socket = \<lparr>sent = [], failing = False, sock_closed = False\<rparr>"

section \<open>Pools\<close>

fun findPool_from :: "Pool list \<Rightarrow> string \<Rightarrow> int" where
  "findPool_from [] key = -1"
| "findPool_from (p # ps) key =
     (if PoolKey p = key then 0
      else (let i = findPool_from ps key in if i = -1 then -1 else i + 1))"

definition findPool :: "Stream \<Rightarrow> string \<Rightarrow> int" where
  "findPool sm key = findPool_from (pools sm) key"

definition InitClock :: "Stream \<Rightarrow> Stream" where
  "InitClock sm =
     (if length (pools sm) = 0
      then sm\<lparr>pools := pools sm @ [\<lparr>PoolKey = '''', cache = zero_Cache, connections = []\<rparr>]\<rparr>
      else sm)"

text \<open>\<^verbatim>\<open>new\<close>: the new connection joins the pool of its key, which is created when missing.\<close>

definition Stream_new :: "string \<Rightarrow> Stream \<Rightarrow> Conn \<times> Stream" where
  "Stream_new key sm0 =
     (let client = next_conn sm0;
          sm = sm0\<lparr>next_conn := Suc client, sockets := (sockets sm0)(client := open_socket)\<rparr>;
          poolIndex = findPool sm key
      in if poolIndex = -1 then
           (client,
            sm\<lparr>pools := pools sm @ [\<lparr>PoolKey = key, cache = zero_Cache, connections = [client]\<rparr>]\<rparr>)
         else
           (client,
            sm\<lparr>pools := (pools sm)[nat poolIndex :=
              (pools sm ! nat poolIndex)\<lparr>connections := connections (pools sm ! nat poolIndex) @ [client]\<rparr>]\<rparr>))"

text \<open>
  \<^verbatim>\<open>New\<close>: \<open>upgrade\<close> is what the websocket handshake of this request returns (\<open>None\<close>: it
  succeeded); the handshake belongs to \<^verbatim>\<open>gorilla/websocket\<close>.
\<close>

definition Stream_New :: "string \<Rightarrow> error option \<Rightarrow> Stream \<Rightarrow> Conn result \<times> Stream" where
  "Stream_New key upgrade sm =
     (case OnSubscribe sm key of
        Some err \<Rightarrow> (Inl err, sm)
      | None \<Rightarrow>
          (case upgrade of
             Some err \<Rightarrow> (Inl err, sm)
           | None \<Rightarrow> (case Stream_new key sm of (client, sm') \<Rightarrow> (Inr client, sm'))))"

definition close_conn :: "Conn \<Rightarrow> Stream \<Rightarrow> Stream" where
  "close_conn client sm =
     sm\<lparr>sockets := (sockets sm)(client := (sockets sm client)\<lparr>sock_closed := True\<rparr>)\<rparr>"

definition Stream_Close :: "string \<Rightarrow> Conn \<Rightarrow> Stream \<Rightarrow> Stream outcome" where
  "Stream_Close key client sm =
     (let poolIndex = findPool sm key
      in if poolIndex = -1 then Panics IndexOutOfRange
         else
           (let p = pools sm ! nat poolIndex;
                na = filter (\<lambda>v. v \<noteq> client) (connections p);
                sm1 = sm\<lparr>pools := (pools sm)[nat poolIndex := p\<lparr>connections := na\<rparr>]\<rparr>;
                sm2 = sm1\<lparr>unsubscribed := unsubscribed sm1 @ [key]\<rparr>
            in Returns (close_conn client sm2)))"

text \<open>
  \<^verbatim>\<open>Read\<close>: it takes frames, whose content it drops, until a read fails, and then closes
  the connection. The argument is what the reads return (\<open>True\<close>: a frame); without a failure
  among them the loop is still waiting.
\<close>

fun Stream_Read :: "string \<Rightarrow> Conn \<Rightarrow> bool list \<Rightarrow> Stream \<Rightarrow> Stream outcome" where
  "Stream_Read key client [] sm = Blocks"
| "Stream_Read key client (ok # reads) sm =
     (if \<not> ok then Stream_Close key client sm else Stream_Read key client reads sm)"

section \<open>Writing\<close>

definition FormatBool :: "bool \<Rightarrow> string" where
  "FormatBool b = (if b then ''true'' else ''false'')"

definition frame :: "string \<Rightarrow> bool \<Rightarrow> int64 \<Rightarrow> string" where
  \<open>frame data snapshot version =
     ''{'' @
     ''"snapshot": '' @ FormatBool snapshot @ '','' @
     ''"version": "'' @ FormatInt version 16 @ ''",'' @
     ''"data": "'' @ data @ ''"'' @
     ''}''\<close>

text \<open>\<^verbatim>\<open>conn.WriteMessage\<close>, and closing the connection when it fails.\<close>

definition write_message :: "Conn \<Rightarrow> string \<Rightarrow> Stream \<Rightarrow> Stream" where
  "write_message client bytes sm =
     (let s = sockets sm client
      in if failing s \<or> sock_closed s then close_conn client sm
         else sm\<lparr>sockets := (sockets sm)(client := s\<lparr>sent := sent s @ [bytes]\<rparr>)\<rparr>)"

definition Stream_Write :: "Conn \<Rightarrow> string \<Rightarrow> bool \<Rightarrow> int64 \<Rightarrow> Stream \<Rightarrow> Stream" where
  "Stream_Write client data snapshot version sm =
     write_message client (frame data snapshot version) sm"

definition WriteClock :: "Conn \<Rightarrow> string \<Rightarrow> Stream \<Rightarrow> Stream" where
  "WriteClock client data sm = write_message client data sm"

definition BroadcastClock :: "string \<Rightarrow> Stream \<Rightarrow> Stream outcome" where
  "BroadcastClock data sm =
     (case pools sm of
        [] \<Rightarrow> Panics IndexOutOfRange
      | p # ps \<Rightarrow> Returns (fold (\<lambda>client. WriteClock client data) (connections p) sm))"

section \<open>Caches and patches\<close>

definition setCache_pool :: "int64 \<Rightarrow> string \<Rightarrow> Pool \<Rightarrow> Pool" where
  "setCache_pool now data p = p\<lparr>cache := \<lparr>Version = now, CacheData = data\<rparr>\<rparr>"

text \<open>
  \<^verbatim>\<open>Patch\<close> on the pool at the index: what to send, whether it is a snapshot, its version, and the
  pool with its new cache.
\<close>

definition Patch_pool ::
  "('p, 'c) wire_scheme \<Rightarrow> bool \<Rightarrow> bool \<Rightarrow> int64 \<Rightarrow> string \<Rightarrow> Pool \<Rightarrow> (string \<times> bool \<times> int64) \<times> Pool"
where
  "Patch_pool J no_patch force_patch now data p =
     (if no_patch then ((data, True, now), setCache_pool now data p)
      else
        (case CreatePatch J (CacheData (cache p)) data of
           Inl err \<Rightarrow> ((data, True, now), setCache_pool now data p)
         | Inr patch \<Rightarrow>
             (case marshal_patch J patch of
                Inl err \<Rightarrow> ((data, True, now), setCache_pool now data p)
              | Inr operations \<Rightarrow>
                  if \<not> force_patch \<and> length data < length operations
                  then ((data, True, now), setCache_pool now data p)
                  else ((operations, False, now), setCache_pool now data p))))"

definition Stream_Patch ::
  "('p, 'c) wire_scheme \<Rightarrow> int64 \<Rightarrow> nat \<Rightarrow> string \<Rightarrow> Stream \<Rightarrow> ((string \<times> bool \<times> int64) \<times> Stream) outcome"
where
  "Stream_Patch J now poolIndex data sm =
     (if length (pools sm) \<le> poolIndex then Panics IndexOutOfRange
      else
        (case Patch_pool J (NoPatch sm) (ForcePatch sm) now data (pools sm ! poolIndex) of
           (message, p) \<Rightarrow> Returns (message, sm\<lparr>pools := (pools sm)[poolIndex := p]\<rparr>)))"

definition Stream_setCache :: "int64 \<Rightarrow> string \<Rightarrow> string \<Rightarrow> Stream \<Rightarrow> int64 \<times> Stream" where
  "Stream_setCache now key data sm =
     (let poolIndex = findPool sm key
      in if poolIndex = -1 then
           (now,
            sm\<lparr>pools := pools sm @
              [\<lparr>PoolKey = key, cache = \<lparr>Version = now, CacheData = data\<rparr>, connections = []\<rparr>]\<rparr>)
         else
           (now,
            sm\<lparr>pools := (pools sm)[nat poolIndex :=
              setCache_pool now data (pools sm ! nat poolIndex)]\<rparr>))"

definition GetCacheVersion :: "string \<Rightarrow> Stream \<Rightarrow> int64 result" where
  "GetCacheVersion key sm =
     (let poolIndex = findPool sm key
      in if poolIndex = -1 then Inl (Error ''stream pool not found'')
         else if length (CacheData (cache (pools sm ! nat poolIndex))) = 0
         then Inl (Error ''stream pool cache empty'')
         else Inr (Version (cache (pools sm ! nat poolIndex))))"

definition Refresh ::
  "int64 \<Rightarrow> string \<Rightarrow> (string \<Rightarrow> string result) \<Rightarrow> Stream \<Rightarrow> Cache result \<times> Stream" where
  "Refresh now path getDataFn sm =
     (case getDataFn path of
        Inl err \<Rightarrow> (Inl err, sm)
      | Inr raw0 \<Rightarrow>
          (let raw = (if length raw0 = 0 then EmptyObject else raw0)
           in case GetCacheVersion path sm of
                Inl err \<Rightarrow>
                  (case Stream_setCache now path raw sm of
                     (newVersion, sm') \<Rightarrow> (Inr \<lparr>Version = newVersion, CacheData = raw\<rparr>, sm'))
              | Inr cacheVersion \<Rightarrow> (Inr \<lparr>Version = cacheVersion, CacheData = raw\<rparr>, sm)))"

section \<open>Broadcasting\<close>

definition broadcast_conns :: "Conn list \<Rightarrow> string \<Rightarrow> bool \<Rightarrow> int64 \<Rightarrow> Stream \<Rightarrow> Stream" where
  "broadcast_conns conns data snapshot version sm =
     fold (\<lambda>client. Stream_Write client data snapshot version) conns sm"

text \<open>The body of the loop of \<^verbatim>\<open>Broadcast\<close> for the pool at index \<open>i\<close>, at time \<open>now i\<close>.\<close>

definition broadcast_pool ::
  "('p, 'c) wire_scheme \<Rightarrow> (nat \<Rightarrow> int64) \<Rightarrow> BroadcastOpt \<Rightarrow> string \<Rightarrow> nat \<Rightarrow> Stream \<Rightarrow> Stream" where
  "broadcast_pool J now opt path i sm =
     (let p = pools sm ! i
      in if \<not> Peer (PoolKey p) path then sm
         else
           (case opt_Get opt (PoolKey p) of
              Inl err \<Rightarrow> sm
            | Inr data \<Rightarrow>
                (case Patch_pool J (NoPatch sm) (ForcePatch sm) (now i) data p of
                   ((modifiedData, snapshot, version), p') \<Rightarrow>
                     (let sm1 = sm\<lparr>pools := (pools sm)[i := p']\<rparr>;
                          sm2 = broadcast_conns (connections p') (opt_Encode opt modifiedData)
                                  snapshot version sm1
                      in if opt_Callback opt then sm2\<lparr>callbacks := Suc (callbacks sm2)\<rparr> else sm2))))"

definition Broadcast ::
  "('p, 'c) wire_scheme \<Rightarrow> (nat \<Rightarrow> int64) \<Rightarrow> BroadcastOpt \<Rightarrow> string \<Rightarrow> Stream \<Rightarrow> Stream" where
  "Broadcast J now opt path sm = fold (broadcast_pool J now opt path) [1..<length (pools sm)] sm"

end
