(* ===== verification/StreamFacts.thy ===== *)
theory StreamFacts
  imports Stream
begin

text \<open>
  The invariant of the stream (the clock pool is first, keys are unique, a connection is in at most
  one pool) and what each operation does to pools and connections.
\<close>

section \<open>Finding a pool\<close>

lemma findPool_from_range: "-1 \<le> findPool_from ps key"
  by (induction ps) (auto simp: Let_def)

lemma findPool_from_none: "findPool_from ps key = -1 \<longleftrightarrow> key \<notin> PoolKey ` set ps"
proof (induction ps)
  case (Cons p ps)
  then show ?case using findPool_from_range [of ps key] by (auto simp: Let_def)
qed simp

lemma findPool_from_append:
  "findPool_from ps key \<noteq> -1 \<Longrightarrow> findPool_from (ps @ qs) key = findPool_from ps key"
proof (induction ps)
  case (Cons p ps)
  then show ?case by (auto simp: Let_def split: if_splits)
qed simp

lemma findPool_from_cong:
  "map PoolKey ps = map PoolKey qs \<Longrightarrow> findPool_from ps key = findPool_from qs key"
proof (induction ps arbitrary: qs)
  case (Cons p ps)
  then obtain q qs' where "qs = q # qs'" by (cases qs) auto
  with Cons show ?case by auto
qed simp

lemma findPool_from_cases:
  obtains (missing) "findPool_from ps key = -1" "key \<notin> PoolKey ` set ps"
  | (found) i where "findPool_from ps key = int i" "i < length ps" "PoolKey (ps ! i) = key"
proof (cases "findPool_from ps key = -1")
  case True
  then show ?thesis using missing findPool_from_none by blast
next
  case False
  then have "\<exists>i. findPool_from ps key = int i \<and> i < length ps \<and> PoolKey (ps ! i) = key"
  proof (induction ps)
    case (Cons p ps)
    show ?case
    proof (cases "PoolKey p = key")
      case True
      then show ?thesis by (intro exI [of _ 0]) simp
    next
      case no: False
      with Cons obtain i where "findPool_from ps key = int i" "i < length ps" "PoolKey (ps ! i) = key"
        by (auto simp: Let_def split: if_splits)
      with no show ?thesis by (intro exI [of _ "Suc i"]) auto
    qed
  qed simp
  then show ?thesis using found by blast
qed

lemma findPool_from_index:
  "distinct (map PoolKey ps) \<Longrightarrow> i < length ps \<Longrightarrow> findPool_from ps (PoolKey (ps ! i)) = int i"
proof (cases rule: findPool_from_cases [of ps "PoolKey (ps ! i)"])
  case (found j)
  assume "distinct (map PoolKey ps)" "i < length ps"
  with found show ?thesis by (metis length_map nth_eq_iff_index_eq nth_map)
qed auto

section \<open>The invariant\<close>

definition pool_conns :: "Pool list \<Rightarrow> Conn list" where
  "pool_conns ps = concat (map connections ps)"

definition stream_ok :: "Stream \<Rightarrow> bool" where
  "stream_ok sm \<longleftrightarrow>
     pools sm \<noteq> [] \<and> PoolKey (pools sm ! 0) = '''' \<and> distinct (map PoolKey (pools sm)) \<and>
     distinct (pool_conns (pools sm)) \<and> (\<forall>c \<in> set (pool_conns (pools sm)). c < next_conn sm)"

lemma mset_concat_update:
  "i < length xss \<Longrightarrow> mset (concat (xss[i := ys])) + mset (xss ! i) = mset (concat xss) + mset ys"
proof (induction xss arbitrary: i)
  case (Cons xs xss)
  show ?case
  proof (cases i)
    case 0
    then show ?thesis by simp
  next
    case (Suc j)
    with Cons have "mset (concat (xss[j := ys])) + mset (xss ! j) = mset (concat xss) + mset ys"
      by simp
    with Suc show ?thesis by simp
  qed
qed simp

lemma mset_pool_conns_update:
  "i < length ps \<Longrightarrow>
     mset (pool_conns (ps[i := p])) + mset (connections (ps ! i)) =
       mset (pool_conns ps) + mset (connections p)"
  using mset_concat_update [of i "map connections ps" "connections p"]
  by (simp add: pool_conns_def map_update)

lemma pool_conns_append [simp]: "pool_conns (ps @ [p]) = pool_conns ps @ connections p"
  by (simp add: pool_conns_def)

lemma connections_in_pool_conns:
  "i < length ps \<Longrightarrow> c \<in> set (connections (ps ! i)) \<Longrightarrow> c \<in> set (pool_conns ps)"
  by (auto simp: pool_conns_def)

lemma distinct_concat_nth: "distinct (concat xss) \<Longrightarrow> i < length xss \<Longrightarrow> distinct (xss ! i)"
  by (induction xss arbitrary: i) (auto simp: nth_Cons split: nat.splits)

lemma stream_ok_connections_distinct:
  "stream_ok sm \<Longrightarrow> i < length (pools sm) \<Longrightarrow> distinct (connections (pools sm ! i))"
  using distinct_concat_nth [of "map connections (pools sm)" i]
  by (simp add: stream_ok_def pool_conns_def)

lemma distinct_concat_disjoint:
  "distinct (concat xss) \<Longrightarrow> i < length xss \<Longrightarrow> j < length xss \<Longrightarrow> i \<noteq> j \<Longrightarrow>
     set (xss ! i) \<inter> set (xss ! j) = {}"
proof (induction xss arbitrary: i j)
  case (Cons xs xss)
  have sub: "set (xss ! k) \<subseteq> set (concat xss)" if "k < length xss" for k
    using nth_mem [OF that] by auto
  show ?case
  proof (cases i)
    case 0
    with Cons.prems obtain k where "j = Suc k" "k < length xss" by (cases j) auto
    with 0 Cons.prems(1) sub [of k] show ?thesis by auto
  next
    case (Suc i')
    show ?thesis
    proof (cases j)
      case 0
      with Suc Cons.prems sub [of i'] show ?thesis by auto
    next
      case (Suc j')
      with \<open>i = Suc i'\<close> Cons show ?thesis by simp
    qed
  qed
qed simp

lemma stream_ok_connections_disjoint:
  "stream_ok sm \<Longrightarrow> i < length (pools sm) \<Longrightarrow> j < length (pools sm) \<Longrightarrow> i \<noteq> j \<Longrightarrow>
     set (connections (pools sm ! i)) \<inter> set (connections (pools sm ! j)) = {}"
  using distinct_concat_disjoint [of "map connections (pools sm)" i j]
  by (simp add: stream_ok_def pool_conns_def)

text \<open>The three ways a stream operation changes the pools.\<close>

lemma stream_ok_same_shape:
  assumes "stream_ok sm" "map PoolKey ps = map PoolKey (pools sm)"
    and "mset (pool_conns ps) \<subseteq># mset (pool_conns (pools sm))" "next_conn sm \<le> next_conn sm'" "pools sm' = ps"
  shows "stream_ok sm'"
proof -
  have "length ps = length (pools sm)" using assms(2) map_eq_imp_length_eq by blast
  moreover have "PoolKey (ps ! 0) = PoolKey (pools sm ! 0)"
    using assms(1,2) calculation by (metis length_greater_0_conv nth_map stream_ok_def)
  moreover have "distinct (pool_conns ps)"
    using assms(1,3) distinct_submset unfolding stream_ok_def by blast
  moreover have "set (pool_conns ps) \<subseteq> set (pool_conns (pools sm))"
    using set_mset_mono [OF assms(3)] by simp
  ultimately show ?thesis
    using assms unfolding stream_ok_def by (metis length_0_conv less_le_trans subsetD)
qed

section \<open>Writes\<close>

definition deliver :: "string \<Rightarrow> socket \<Rightarrow> socket" where
  "deliver bytes s =
     (if failing s \<or> sock_closed s then s\<lparr>sock_closed := True\<rparr> else s\<lparr>sent := sent s @ [bytes]\<rparr>)"

lemma write_message_deliver:
  "write_message client bytes sm =
     sm\<lparr>sockets := (sockets sm)(client := deliver bytes (sockets sm client))\<rparr>"
  by (simp add: write_message_def deliver_def close_conn_def Let_def)

text \<open>Writing to distinct connections delivers to each of them once, and changes nothing else.\<close>

lemma fold_write_message:
  "distinct conns \<Longrightarrow>
     fold (\<lambda>client. write_message client bytes) conns sm =
       sm\<lparr>sockets := (\<lambda>c. if c \<in> set conns then deliver bytes (sockets sm c) else sockets sm c)\<rparr>"
proof (induction conns arbitrary: sm)
  case (Cons client conns)
  then show ?case by (auto simp: write_message_deliver fun_eq_iff intro!: arg_cong [where f = "\<lambda>s. sm\<lparr>sockets := s\<rparr>"])
qed simp

lemma broadcast_conns_deliver:
  "distinct conns \<Longrightarrow>
     broadcast_conns conns data snapshot version sm =
       sm\<lparr>sockets := (\<lambda>c. if c \<in> set conns then deliver (frame data snapshot version) (sockets sm c)
                       else sockets sm c)\<rparr>"
  unfolding broadcast_conns_def Stream_Write_def by (rule fold_write_message)

lemma BroadcastClock_deliver:
  assumes "stream_ok sm"
  shows "BroadcastClock data sm =
    Returns (sm\<lparr>sockets := (\<lambda>c. if c \<in> set (connections (pools sm ! 0))
        then deliver data (sockets sm c) else sockets sm c)\<rparr>)"
proof -
  obtain p ps where p: "pools sm = p # ps"
    using assms by (cases "pools sm") (auto simp: stream_ok_def)
  have "distinct (connections p)"
    using stream_ok_connections_distinct [OF assms, of 0] p by simp
  then show ?thesis
    by (simp add: BroadcastClock_def WriteClock_def [abs_def] p fold_write_message)
qed

section \<open>One pool of a broadcast\<close>

text \<open>The pool after its turn in a broadcast, and the frame its connections receive, if any.\<close>

definition pool_after :: "int64 \<Rightarrow> BroadcastOpt \<Rightarrow> string \<Rightarrow> Pool \<Rightarrow> Pool" where
  "pool_after now opt path p =
     (if Peer (PoolKey p) path then
        (case opt_Get opt (PoolKey p) of
           Inl err \<Rightarrow> p
         | Inr data \<Rightarrow> setCache_pool now data p)
      else p)"

definition pool_frame ::
  "('p, 'c) wire_scheme \<Rightarrow> bool \<Rightarrow> bool \<Rightarrow> int64 \<Rightarrow> BroadcastOpt \<Rightarrow> string \<Rightarrow> Pool \<Rightarrow> string option" where
  "pool_frame J np fp now opt path p =
     (if Peer (PoolKey p) path then
        (case opt_Get opt (PoolKey p) of
           Inl err \<Rightarrow> None
         | Inr data \<Rightarrow>
             (case fst (Patch_pool J np fp now data p) of
                (modified, snapshot, version) \<Rightarrow>
                  Some (frame (opt_Encode opt modified) snapshot version)))
      else None)"

definition deliver_option :: "string option \<Rightarrow> socket \<Rightarrow> socket" where
  "deliver_option f s = (case f of None \<Rightarrow> s | Some bytes \<Rightarrow> deliver bytes s)"

lemma Patch_pool_pool [simp]: "snd (Patch_pool J np fp now data p) = setCache_pool now data p"
  by (simp add: Patch_pool_def split: sum.splits)

lemma Patch_pool_version: "fst (Patch_pool J np fp now data p) = (m, s, v) \<Longrightarrow> v = now"
  by (auto simp: Patch_pool_def split: sum.splits if_splits)

lemma setCache_pool_simps [simp]:
  "PoolKey (setCache_pool now data p) = PoolKey p"
  "connections (setCache_pool now data p) = connections p"
  "cache (setCache_pool now data p) = \<lparr>Version = now, CacheData = data\<rparr>"
  by (simp_all add: setCache_pool_def)

lemma pool_after_simps [simp]:
  "PoolKey (pool_after now opt path p) = PoolKey p"
  "connections (pool_after now opt path p) = connections p"
  by (auto simp: pool_after_def split: sum.splits)

lemma broadcast_pool_effect:
  assumes "distinct (connections (pools sm ! i))"
  shows "\<exists>n. broadcast_pool J now opt path i sm =
    sm\<lparr>pools := (pools sm)[i := pool_after (now i) opt path (pools sm ! i)],
       sockets := (\<lambda>c. if c \<in> set (connections (pools sm ! i))
         then deliver_option (pool_frame J (NoPatch sm) (ForcePatch sm) (now i) opt path (pools sm ! i))
           (sockets sm c)
         else sockets sm c),
       callbacks := n\<rparr>"
proof -
  let ?p = "pools sm ! i"
  show ?thesis
  proof (cases "Peer (PoolKey ?p) path")
    case False
    then show ?thesis
      by (intro exI [of _ "callbacks sm"])
        (simp add: broadcast_pool_def pool_after_def pool_frame_def deliver_option_def cong: if_cong)
  next
    case True
    show ?thesis
    proof (cases "opt_Get opt (PoolKey ?p)")
      case (Inl err)
      with True show ?thesis
        by (intro exI [of _ "callbacks sm"])
          (simp add: broadcast_pool_def pool_after_def pool_frame_def deliver_option_def cong: if_cong)
    next
      case (Inr data)
      obtain m s v where f: "fst (Patch_pool J (NoPatch sm) (ForcePatch sm) (now i) data ?p) = (m, s, v)"
        using prod_cases3 by blast
      then have "Patch_pool J (NoPatch sm) (ForcePatch sm) (now i) data ?p =
          ((m, s, v), setCache_pool (now i) data ?p)"
        by (metis Patch_pool_pool prod.collapse)
      with True Inr assms f show ?thesis
        by (intro exI [of _ "if opt_Callback opt then Suc (callbacks sm) else callbacks sm"])
          (auto simp: broadcast_pool_def pool_after_def pool_frame_def deliver_option_def
            broadcast_conns_deliver Let_def cong: if_cong)
    qed
  qed
qed

end
