(* ===== verification/StreamContract.thy ===== *)
theory StreamContract
  imports StreamFacts
begin

text \<open>
  The contract every operation of the stream meets, as the locale \<open>stream_operation\<close>: the invariant
  is kept, pools are never removed, renamed or moved, the settings stay, what a peer has received is
  only ever extended, and a closed connection stays closed and silent. It is interpreted on every
  operation, and gives the same for any history of operations.
\<close>

definition returned :: "'a \<Rightarrow> 'a outcome \<Rightarrow> 'a" where
  "returned x m = (case m of Returns y \<Rightarrow> y | Panics p \<Rightarrow> x | Blocks \<Rightarrow> x)"

section \<open>The contract\<close>

text \<open>A socket only moves forward: frames are appended while it is open, and closing is final.\<close>

definition socket_le :: "socket \<Rightarrow> socket \<Rightarrow> bool" where
  "socket_le s t \<longleftrightarrow>
     prefix (sent s) (sent t) \<and> (sock_closed s \<longrightarrow> sock_closed t \<and> sent t = sent s) \<and>
     (failing s \<longrightarrow> failing t)"

lemma socket_le_refl [simp]: "socket_le s s"
  by (simp add: socket_le_def)

lemma socket_le_trans: "socket_le s t \<Longrightarrow> socket_le t u \<Longrightarrow> socket_le s u"
  by (auto simp: socket_le_def)

lemma socket_le_deliver [simp]: "socket_le s (deliver bytes s)"
  by (simp add: socket_le_def deliver_def)

lemma socket_le_deliver_option [simp]: "socket_le s (deliver_option f s)"
  by (simp add: deliver_option_def split: option.split)

lemma socket_le_close [simp]: "socket_le s (s\<lparr>sock_closed := True\<rparr>)"
  by (simp add: socket_le_def)

definition stream_le :: "Stream \<Rightarrow> Stream \<Rightarrow> bool" where
  "stream_le sm sm' \<longleftrightarrow>
     prefix (map PoolKey (pools sm)) (map PoolKey (pools sm')) \<and>
     NoPatch sm' = NoPatch sm \<and> ForcePatch sm' = ForcePatch sm \<and> OnSubscribe sm' = OnSubscribe sm \<and>
     next_conn sm \<le> next_conn sm' \<and> prefix (unsubscribed sm) (unsubscribed sm') \<and>
     (\<forall>c. c < next_conn sm \<longrightarrow> socket_le (sockets sm c) (sockets sm' c))"

lemma stream_le_refl [simp]: "stream_le sm sm"
  by (simp add: stream_le_def)

lemma stream_le_trans:
  assumes "stream_le a b" "stream_le b c"
  shows "stream_le a c"
  unfolding stream_le_def
proof (intro conjI allI impI)
  show "prefix (map PoolKey (pools a)) (map PoolKey (pools c))"
    "prefix (unsubscribed a) (unsubscribed c)"
    using assms by (auto simp: stream_le_def intro: prefix_order.trans)
  fix conn
  assume "conn < next_conn a"
  then show "socket_le (sockets a conn) (sockets c conn)"
    using assms socket_le_trans [of "sockets a conn" "sockets b conn" "sockets c conn"]
    by (simp add: stream_le_def)
qed (use assms in \<open>simp_all add: stream_le_def\<close>)

locale stream_operation =
  fixes f :: "Stream \<Rightarrow> Stream"
  assumes keeps_ok: "stream_ok sm \<Longrightarrow> stream_ok (f sm)"
    and forward: "stream_ok sm \<Longrightarrow> stream_le sm (f sm)"
begin

lemma pool_key_stable:
  "stream_ok sm \<Longrightarrow> i < length (pools sm) \<Longrightarrow>
     i < length (pools (f sm)) \<and> PoolKey (pools (f sm) ! i) = PoolKey (pools sm ! i)"
proof -
  assume ok: "stream_ok sm" and i: "i < length (pools sm)"
  have p: "prefix (map PoolKey (pools sm)) (map PoolKey (pools (f sm)))"
    using forward [OF ok] by (simp add: stream_le_def)
  then have len: "length (pools sm) \<le> length (pools (f sm))"
    using prefix_length_le by fastforce
  have "map PoolKey (pools sm) ! i = map PoolKey (pools (f sm)) ! i"
    using p i by (auto simp: prefix_def nth_append)
  with i len show ?thesis by simp
qed

lemma findPool_stable:
  assumes ok: "stream_ok sm" and found: "findPool sm key \<noteq> -1"
  shows "findPool (f sm) key = findPool sm key"
proof -
  obtain i where i: "findPool sm key = int i" "i < length (pools sm)" "PoolKey (pools sm ! i) = key"
    using found unfolding findPool_def by (cases rule: findPool_from_cases [of "pools sm" key]) auto
  have "i < length (pools (f sm))" "PoolKey (pools (f sm) ! i) = key"
    using pool_key_stable [OF ok i(2)] i(3) by auto
  moreover have "distinct (map PoolKey (pools (f sm)))"
    using keeps_ok [OF ok] by (simp add: stream_ok_def)
  ultimately show ?thesis
    using findPool_from_index [of "pools (f sm)" i] i(1) by (simp add: findPool_def)
qed

end

lemma stream_operation_id: "stream_operation (\<lambda>sm. sm)"
  by unfold_locales auto

lemma stream_operation_comp:
  assumes "stream_operation f" "stream_operation g"
  shows "stream_operation (\<lambda>sm. g (f sm))"
proof -
  have step: "stream_ok (f sm) \<and> stream_le sm (f sm)" if "stream_ok sm" for sm
    using assms(1) that by (simp add: stream_operation_def)
  show ?thesis
    unfolding stream_operation_def
    using assms(2) step stream_le_trans unfolding stream_operation_def by blast
qed

lemma stream_operation_fold:
  "(\<And>x. x \<in> set xs \<Longrightarrow> stream_operation (f x)) \<Longrightarrow> stream_operation (fold f xs)"
proof (induction xs)
  case Nil
  then show ?case by (simp add: stream_operation_id id_def)
next
  case (Cons x xs)
  then have "stream_operation (f x)" "stream_operation (fold f xs)" by auto
  then have "stream_operation (\<lambda>sm. fold f xs (f x sm))" by (rule stream_operation_comp)
  then show ?case by (simp add: comp_def)
qed

section \<open>The operations meet the contract\<close>

text \<open>Changing one pool, keeping its key and at most removing connections.\<close>

lemma update_pool_ok:
  assumes "stream_ok sm" "i < length (pools sm)" "PoolKey p = PoolKey (pools sm ! i)"
    and "mset (connections p) \<subseteq># mset (connections (pools sm ! i))"
    and "pools sm' = (pools sm)[i := p]" "next_conn sm' = next_conn sm"
  shows "stream_ok sm'"
proof (rule stream_ok_same_shape [OF assms(1) _ _ _ assms(5)])
  show "map PoolKey ((pools sm)[i := p]) = map PoolKey (pools sm)"
    using assms(2,3) by (simp add: map_update) (metis list_update_id length_map nth_map)
  have "mset (pool_conns ((pools sm)[i := p])) + mset (connections (pools sm ! i)) =
      mset (pool_conns (pools sm)) + mset (connections p)"
    using assms(2) by (rule mset_pool_conns_update)
  with assms(4) show "mset (pool_conns ((pools sm)[i := p])) \<subseteq># mset (pool_conns (pools sm))"
    by (metis mset_subset_eq_mono_add_left_cancel subset_mset.add_le_cancel_right subset_mset.add_mono
        subset_mset.order_refl)
qed (use assms in simp)

lemma update_pool_keys:
  "i < length ps \<Longrightarrow> PoolKey p = PoolKey (ps ! i) \<Longrightarrow> map PoolKey (ps[i := p]) = map PoolKey ps"
  by (simp add: map_update) (metis list_update_id length_map nth_map)

text \<open>Adding a pool for a key that has none.\<close>

lemma append_pool_ok:
  assumes "stream_ok sm" "PoolKey p \<notin> PoolKey ` set (pools sm)"
    and "distinct (connections p)" "\<forall>c \<in> set (connections p). next_conn sm \<le> c \<and> c < next_conn sm'"
    and "pools sm' = pools sm @ [p]" "next_conn sm \<le> next_conn sm'"
  shows "stream_ok sm'"
proof -
  have "set (pool_conns (pools sm)) \<inter> set (connections p) = {}"
    using assms(1,4) by (fastforce simp: stream_ok_def)
  then show ?thesis
    using assms unfolding stream_ok_def by (auto simp: nth_append dest: less_le_trans)
qed

lemma findPool_cases:
  obtains (missing) "findPool sm key = -1" "key \<notin> PoolKey ` set (pools sm)"
  | (found) i where "findPool sm key = int i" "i < length (pools sm)" "PoolKey (pools sm ! i) = key"
  unfolding findPool_def by (rule findPool_from_cases) auto

lemma new_ok:
  assumes "stream_ok sm"
  shows "stream_ok (snd (Stream_new key sm))"
proof (cases rule: findPool_cases [of sm key])
  case missing
  then show ?thesis
    using append_pool_ok [OF assms, of "\<lparr>PoolKey = key, cache = zero_Cache, connections = [next_conn sm]\<rparr>"]
    by (simp add: Stream_new_def Let_def findPool_def)
next
  case (found i)
  let ?p = "(pools sm ! i)\<lparr>connections := connections (pools sm ! i) @ [next_conn sm]\<rparr>"
  let ?ps = "(pools sm)[i := ?p]"
  have m: "mset (pool_conns ?ps) = add_mset (next_conn sm) (mset (pool_conns (pools sm)))"
    using mset_pool_conns_update [OF found(2), of ?p] by simp
  then have s: "set (pool_conns ?ps) = insert (next_conn sm) (set (pool_conns (pools sm)))"
    by (metis set_mset_add_mset_insert set_mset_mset)
  have new: "next_conn sm \<notin> set (pool_conns (pools sm))"
    using assms by (auto simp: stream_ok_def)
  have "mset (pool_conns ?ps) = mset (next_conn sm # pool_conns (pools sm))" using m by simp
  then have d: "distinct (pool_conns ?ps)"
    using new assms by (metis distinct.simps(2) mset_eq_imp_distinct_iff stream_ok_def)
  have k: "map PoolKey ?ps = map PoolKey (pools sm)"
    using found(2) by (intro update_pool_keys) simp_all
  then have "PoolKey (?ps ! 0) = PoolKey (pools sm ! 0)"
    using assms by (metis length_greater_0_conv length_list_update nth_map stream_ok_def)
  with d s k assms found show ?thesis
    by (auto simp: Stream_new_def Let_def findPool_def stream_ok_def)
qed

lemma new_forward: "stream_le sm (snd (Stream_new key sm))"
proof (cases rule: findPool_cases [of sm key])
  case (found i)
  then show ?thesis
    by (simp add: Stream_new_def Let_def findPool_def stream_le_def update_pool_keys)
qed (simp add: Stream_new_def Let_def findPool_def stream_le_def)

interpretation new: stream_operation "\<lambda>sm. snd (Stream_new key sm)" for key
  by unfold_locales (rule new_ok new_forward, assumption?)+

lemma snd_Stream_New:
  "snd (Stream_New key upgrade sm) =
     (if OnSubscribe sm key = None \<and> upgrade = None then snd (Stream_new key sm) else sm)"
  by (auto simp: Stream_New_def split: option.split prod.split)

interpretation New: stream_operation "\<lambda>sm. snd (Stream_New key upgrade sm)" for key upgrade
  by unfold_locales (simp_all add: snd_Stream_New new_ok new_forward)

lemma Stream_Close_found:
  assumes "findPool sm key = int i"
  shows "Stream_Close key client sm =
    Returns (sm\<lparr>pools := (pools sm)[i := (pools sm ! i)\<lparr>connections :=
        filter (\<lambda>v. v \<noteq> client) (connections (pools sm ! i))\<rparr>],
      unsubscribed := unsubscribed sm @ [key],
      sockets := (sockets sm)(client := (sockets sm client)\<lparr>sock_closed := True\<rparr>)\<rparr>)"
  using assms by (simp add: Stream_Close_def Let_def close_conn_def)

interpretation leaving: stream_operation "\<lambda>sm. returned sm (Stream_Close key client sm)" for key client
proof
  fix sm
  assume ok: "stream_ok sm"
  have "stream_ok (returned sm (Stream_Close key client sm)) \<and>
      stream_le sm (returned sm (Stream_Close key client sm))"
  proof (cases rule: findPool_cases [of sm key])
    case missing
    with ok show ?thesis by (simp add: Stream_Close_def returned_def)
  next
    case (found i)
    let ?p = "(pools sm ! i)\<lparr>connections := filter (\<lambda>v. v \<noteq> client) (connections (pools sm ! i))\<rparr>"
    have "stream_ok (returned sm (Stream_Close key client sm))"
      by (rule update_pool_ok [OF ok found(2), of ?p])
        (simp_all add: Stream_Close_found [OF found(1)] returned_def multiset_filter_subset)
    with found show ?thesis
      by (simp add: Stream_Close_found [OF found(1)] returned_def stream_le_def update_pool_keys)
  qed
  then show "stream_ok (returned sm (Stream_Close key client sm))"
    "stream_le sm (returned sm (Stream_Close key client sm))" by auto
qed

interpretation writing: stream_operation "write_message client bytes" for client bytes
  by unfold_locales (auto simp: write_message_deliver stream_ok_def stream_le_def)

interpretation Write: stream_operation "Stream_Write client data snapshot version"
  for client data snapshot version
  unfolding Stream_Write_def [abs_def] by (rule writing.stream_operation_axioms)

text \<open>The network, not the program, loses a peer: later writes to it fail.\<close>

definition lose_peer :: "Conn \<Rightarrow> Stream \<Rightarrow> Stream" where
  "lose_peer client sm =
     sm\<lparr>sockets := (sockets sm)(client := (sockets sm client)\<lparr>failing := True\<rparr>)\<rparr>"

interpretation losing: stream_operation "lose_peer client" for client
  by unfold_locales (auto simp: lose_peer_def stream_ok_def stream_le_def socket_le_def)

interpretation WriteClock: stream_operation "WriteClock client data" for client data
  unfolding WriteClock_def [abs_def] by (rule writing.stream_operation_axioms)

interpretation clock: stream_operation "\<lambda>sm. returned sm (BroadcastClock data sm)" for data
  by unfold_locales
    (auto simp: BroadcastClock_deliver returned_def stream_ok_def stream_le_def)

interpretation setCache: stream_operation "\<lambda>sm. snd (Stream_setCache now key data sm)" for now key data
proof
  fix sm
  assume ok: "stream_ok sm"
  have "stream_ok (snd (Stream_setCache now key data sm)) \<and>
      stream_le sm (snd (Stream_setCache now key data sm))"
  proof (cases rule: findPool_cases [of sm key])
    case missing
    then show ?thesis
      using append_pool_ok [OF ok, of "\<lparr>PoolKey = key, cache = \<lparr>Version = now, CacheData = data\<rparr>, connections = []\<rparr>"]
      by (simp add: Stream_setCache_def stream_le_def)
  next
    case (found i)
    then show ?thesis
      using update_pool_ok [OF ok found(2), of "setCache_pool now data (pools sm ! i)"]
      by (simp add: Stream_setCache_def stream_le_def update_pool_keys)
  qed
  then show "stream_ok (snd (Stream_setCache now key data sm))"
    "stream_le sm (snd (Stream_setCache now key data sm))" by auto
qed

lemma snd_Refresh:
  "snd (Refresh now path get sm) =
     (case get path of
        Inl err \<Rightarrow> sm
      | Inr raw \<Rightarrow>
          (case GetCacheVersion path sm of
             Inl err \<Rightarrow> snd (Stream_setCache now path (if raw = [] then EmptyObject else raw) sm)
           | Inr version \<Rightarrow> sm))"
  by (simp add: Refresh_def Let_def split: sum.split prod.split)

interpretation refresh: stream_operation "\<lambda>sm. snd (Refresh now path get sm)" for now path get
  by unfold_locales
    (auto simp: snd_Refresh setCache.keeps_ok setCache.forward split: sum.split)

interpretation patch: stream_operation "\<lambda>sm. snd (returned (x, sm) (Stream_Patch J now i data sm))"
  for x J now i data
proof
  fix sm
  assume ok: "stream_ok sm"
  have "stream_ok (snd (returned (x, sm) (Stream_Patch J now i data sm))) \<and>
      stream_le sm (snd (returned (x, sm) (Stream_Patch J now i data sm)))"
  proof (cases "i < length (pools sm)")
    case True
    obtain m where "Patch_pool J (NoPatch sm) (ForcePatch sm) now data (pools sm ! i) =
        (m, setCache_pool now data (pools sm ! i))"
      by (metis Patch_pool_pool prod.collapse)
    with True show ?thesis
      using update_pool_ok [OF ok True, of "setCache_pool now data (pools sm ! i)"]
      by (simp add: Stream_Patch_def returned_def stream_le_def update_pool_keys)
  qed (use ok in \<open>simp add: Stream_Patch_def returned_def\<close>)
  then show "stream_ok (snd (returned (x, sm) (Stream_Patch J now i data sm)))"
    "stream_le sm (snd (returned (x, sm) (Stream_Patch J now i data sm)))" by auto
qed

lemma broadcast_pool_operation: "i < length (pools sm) \<Longrightarrow> stream_ok sm \<Longrightarrow>
    stream_ok (broadcast_pool J now opt path i sm) \<and> stream_le sm (broadcast_pool J now opt path i sm) \<and>
    length (pools (broadcast_pool J now opt path i sm)) = length (pools sm)"
  using broadcast_pool_effect [where i = i and sm = sm and J = J and now = now and opt = opt and path = path]
    stream_ok_connections_distinct [of sm i]
    update_pool_ok [of sm i "pool_after (now i) opt path (pools sm ! i)"]
  by (auto simp: stream_le_def update_pool_keys)

lemma Broadcast_operation:
  assumes "stream_ok sm" "\<forall>i \<in> set is. i < length (pools sm)"
  shows "stream_ok (fold (broadcast_pool J now opt path) is sm) \<and>
    stream_le sm (fold (broadcast_pool J now opt path) is sm) \<and>
    length (pools (fold (broadcast_pool J now opt path) is sm)) = length (pools sm)"
  using assms
proof (induction "is" arbitrary: sm)
  case (Cons i "is")
  let ?sm = "broadcast_pool J now opt path i sm"
  have "stream_ok ?sm" "stream_le sm ?sm" "length (pools ?sm) = length (pools sm)"
    using broadcast_pool_operation [of i sm] Cons.prems by auto
  with Cons.IH [of ?sm] Cons.prems show ?case by (auto intro: stream_le_trans)
qed simp

lemma Broadcast_length [simp]:
  "stream_ok sm \<Longrightarrow> length (pools (Broadcast J now opt path sm)) = length (pools sm)"
  using Broadcast_operation [of sm "[1..<length (pools sm)]" J now opt path] by (simp add: Broadcast_def)

interpretation broadcast: stream_operation "Broadcast J now opt path" for J now opt path
  by unfold_locales (simp_all add: Broadcast_def Broadcast_operation)

end
