(* ===== verification/Subscription.thy ===== *)
theory Subscription
  imports StreamContract
begin

text \<open>
  The effect of a whole \<open>Broadcast\<close>, and why a subscriber that applies the messages it receives
  has the document of its pool: the frames of \<^verbatim>\<open>src/stream/stream.go\<close>, decoded and patched by
  \<^verbatim>\<open>src/messages/messages.go\<close>, keep the subscriber's cache and the pool's cache the same
  JSON document, over any number of broadcasts.
\<close>

section \<open>The effect of a broadcast\<close>

abbreviation frame_for ::
  "('p, 'c) wire_scheme \<Rightarrow> (nat \<Rightarrow> int64) \<Rightarrow> BroadcastOpt \<Rightarrow> string \<Rightarrow> Stream \<Rightarrow> nat \<Rightarrow> string option"
where
  "frame_for J now opt path sm i \<equiv>
     pool_frame J (NoPatch sm) (ForcePatch sm) (now i) opt path (pools sm ! i)"

text \<open>What turns of the pools \<open>is\<close> have made of \<open>sm\<close>.\<close>

definition turns_taken ::
  "('p, 'c) wire_scheme \<Rightarrow> (nat \<Rightarrow> int64) \<Rightarrow> BroadcastOpt \<Rightarrow> string \<Rightarrow> nat list \<Rightarrow> Stream \<Rightarrow> Stream \<Rightarrow> bool"
where
  "turns_taken J now opt path is sm sm' \<longleftrightarrow>
     (\<forall>i < length (pools sm). pools sm' ! i =
        (if i \<in> set is then pool_after (now i) opt path (pools sm ! i) else pools sm ! i)) \<and>
     (\<forall>i \<in> set is. \<forall>c \<in> set (connections (pools sm ! i)).
        sockets sm' c = deliver_option (frame_for J now opt path sm i) (sockets sm c)) \<and>
     (\<forall>c. (\<forall>i \<in> set is. c \<notin> set (connections (pools sm ! i))) \<longrightarrow> sockets sm' c = sockets sm c)"

lemma turns_taken_Cons:
  assumes ok: "stream_ok sm" and i: "i < length (pools sm)" "i \<notin> set is"
    and range: "\<forall>j \<in> set is. j < length (pools sm)"
    and rest: "turns_taken J now opt path is (broadcast_pool J now opt path i sm) sm'"
  shows "turns_taken J now opt path (i # is) sm sm'"
proof -
  let ?sm = "broadcast_pool J now opt path i sm"
  obtain n where eff: "?sm = sm\<lparr>pools := (pools sm)[i := pool_after (now i) opt path (pools sm ! i)],
       sockets := (\<lambda>c. if c \<in> set (connections (pools sm ! i))
         then deliver_option (frame_for J now opt path sm i) (sockets sm c) else sockets sm c),
       callbacks := n\<rparr>"
    using broadcast_pool_effect [of sm i J now opt path] stream_ok_connections_distinct [OF ok i(1)] by auto
  have other: "pools ?sm ! j = pools sm ! j" if "j \<noteq> i" for j
    using that by (simp add: eff)
  have later: "pools ?sm ! j = pools sm ! j" if "j \<in> set is" for j
    using that i(2) by (cases "j = i") (simp_all add: other)
  have disjoint: "c \<notin> set (connections (pools sm ! j))"
    if "c \<in> set (connections (pools sm ! i))" "j \<in> set is" for c j
    using stream_ok_connections_disjoint [OF ok i(1), of j] that range i(2) by blast
  have mine: "sockets sm' c = deliver_option (frame_for J now opt path sm i) (sockets sm c)"
    if c: "c \<in> set (connections (pools sm ! i))" for c
  proof -
    have "sockets sm' c = sockets ?sm c"
      using rest disjoint [OF c] later unfolding turns_taken_def by simp
    with c show ?thesis by (simp add: eff)
  qed
  have theirs: "sockets sm' c = deliver_option (frame_for J now opt path sm j) (sockets sm c)"
    if j: "j \<in> set is" and c: "c \<in> set (connections (pools sm ! j))" for c j
  proof -
    have "sockets sm' c = deliver_option (frame_for J now opt path ?sm j) (sockets ?sm c)"
      using rest j c later [OF j] unfolding turns_taken_def by metis
    moreover have "c \<notin> set (connections (pools sm ! i))"
      using disjoint j c by blast
    ultimately show ?thesis by (simp add: later [OF j]) (simp add: eff)
  qed
  have nobody: "sockets sm' c = sockets sm c"
    if c: "\<forall>j \<in> set (i # is). c \<notin> set (connections (pools sm ! j))" for c
  proof -
    have "sockets sm' c = sockets ?sm c"
      using rest c later unfolding turns_taken_def by simp
    with c show ?thesis by (simp add: eff)
  qed
  have "pools sm' ! j = (if j \<in> set (i # is) then pool_after (now j) opt path (pools sm ! j) else pools sm ! j)"
    if j: "j < length (pools sm)" for j
    using rest j i unfolding turns_taken_def by (cases "j = i") (auto simp: eff)
  then show ?thesis
    unfolding turns_taken_def using mine theirs nobody by auto
qed

lemma broadcast_fold_turns:
  "stream_ok sm \<Longrightarrow> distinct is \<Longrightarrow> \<forall>i \<in> set is. i < length (pools sm) \<Longrightarrow>
     turns_taken J now opt path is sm (fold (broadcast_pool J now opt path) is sm)"
proof (induction "is" arbitrary: sm)
  case Nil
  then show ?case by (simp add: turns_taken_def)
next
  case (Cons i "is")
  have "stream_ok (broadcast_pool J now opt path i sm)"
    "length (pools (broadcast_pool J now opt path i sm)) = length (pools sm)"
    using broadcast_pool_operation [of i sm J now opt path] Cons.prems by auto
  with Cons show ?case by (auto intro!: turns_taken_Cons)
qed

lemma Broadcast_turns:
  "stream_ok sm \<Longrightarrow>
     turns_taken J now opt path [1..<length (pools sm)] sm (Broadcast J now opt path sm)"
  unfolding Broadcast_def by (rule broadcast_fold_turns) auto

lemma Broadcast_pool:
  "stream_ok sm \<Longrightarrow> i < length (pools sm) \<Longrightarrow>
     pools (Broadcast J now opt path sm) ! i =
       (if i = 0 then pools sm ! 0 else pool_after (now i) opt path (pools sm ! i))"
  using Broadcast_turns [of sm J now opt path] by (simp add: turns_taken_def)

lemma Broadcast_socket:
  assumes "stream_ok sm" "i < length (pools sm)" "0 < i" "c \<in> set (connections (pools sm ! i))"
  shows "sockets (Broadcast J now opt path sm) c =
    deliver_option (frame_for J now opt path sm i) (sockets sm c)"
  using Broadcast_turns [OF assms(1), of J now opt path] assms(2-4)
  unfolding turns_taken_def by simp

lemma Broadcast_clock_socket:
  assumes ok: "stream_ok sm" and c: "c \<in> set (connections (pools sm ! 0))"
  shows "sockets (Broadcast J now opt path sm) c = sockets sm c"
proof -
  have "0 < length (pools sm)" using ok by (simp add: stream_ok_def)
  then have "c \<notin> set (connections (pools sm ! i))" if "i \<in> set [1..<length (pools sm)]" for i
    using stream_ok_connections_disjoint [OF ok, of 0 i] c that by auto
  then show ?thesis
    using Broadcast_turns [OF ok, of J now opt path] unfolding turns_taken_def by blast
qed

lemma Broadcast_other_socket:
  assumes "stream_ok sm" "c \<notin> set (pool_conns (pools sm))"
  shows "sockets (Broadcast J now opt path sm) c = sockets sm c"
proof -
  have "c \<notin> set (connections (pools sm ! i))" if "i \<in> set [1..<length (pools sm)]" for i
    using connections_in_pool_conns [of i "pools sm" c] assms(2) that by auto
  then show ?thesis
    using Broadcast_turns [OF assms(1), of J now opt path] unfolding turns_taken_def by blast
qed

section \<open>A subscriber and its pool\<close>

text \<open>JSON decoding of the frames the server writes, whose data is base64.\<close>

definition message_law :: "('p, 'c) wire_scheme \<Rightarrow> bool" where
  "message_law J \<longleftrightarrow>
     (\<forall>data snapshot version. json_safe data \<longrightarrow>
        unmarshal_message J (frame data snapshot version) =
          Inr \<lparr>MsgData = data, MsgVersion = FormatInt version 16, MsgSnapshot = snapshot\<rparr>)"

definition wire_laws :: "('p, 'c) wire_scheme \<Rightarrow> (string \<Rightarrow> string \<Rightarrow> bool) \<Rightarrow> bool" where
  "wire_laws J same_json \<longleftrightarrow> base64_law J \<and> message_law J \<and> patch_law J same_json"

text \<open>The document of a subscriber that has applied the frames in order.\<close>

definition replay :: "('p, 'c) wire_scheme \<Rightarrow> string list \<Rightarrow> string \<Rightarrow> string" where
  "replay J frames start = fold (\<lambda>bytes document. fst (PatchCache J bytes document)) frames start"

lemma replay_Nil [simp]: "replay J [] start = start"
  by (simp add: replay_def)

lemma replay_snoc [simp]: "replay J (frames @ [bytes]) start = fst (PatchCache J bytes (replay J frames start))"
  by (simp add: replay_def)

lemma DecodeBuffer_frame:
  assumes "wire_laws J same_json"
  shows "DecodeBuffer J (frame (Encode J data) snapshot version) =
    Inr \<lparr>MsgData = strings_Trim data newline, MsgVersion = FormatInt version 16, MsgSnapshot = snapshot\<rparr>"
  using assms by (simp add: wire_laws_def DecodeBuffer_def message_law_def base64_law_def Encode_def)

lemma PatchCache_frame_snapshot:
  assumes "wire_laws J same_json"
  shows "PatchCache J (frame (Encode J data) True version) document = (strings_Trim data newline, None)"
  by (simp add: PatchCache_snapshot [OF DecodeBuffer_frame [OF assms]])

lemma Patch_pool_received:
  assumes laws: "wire_laws J same_json" and synced: "same_json (CacheData (cache p)) document"
    and sent: "fst (Patch_pool J np fp now data p) = (modified, snapshot, version)"
  shows "\<exists>document'. PatchCache J (frame (Encode J modified) snapshot version) document = (document', None) \<and>
    same_json data document'"
proof -
  have law: "patch_law J same_json"
    using laws by (simp add: wire_laws_def)
  then have trim: "same_json data (strings_Trim data newline)"
    unfolding patch_law_def by blast
  show ?thesis
  proof (cases snapshot)
    case True
    then have "modified = data"
      using sent by (auto simp: Patch_pool_def split: sum.splits if_splits)
    with True trim show ?thesis by (simp add: PatchCache_frame_snapshot [OF laws])
  next
    case False
    then obtain patch where "CreatePatch J (CacheData (cache p)) data = Inr patch"
        "marshal_patch J patch = Inr modified"
      using sent by (auto simp: Patch_pool_def split: sum.splits if_splits)
    from PatchCache_patch [OF law this DecodeBuffer_frame [OF laws] _ _ synced] False
    obtain document' where "PatchCache J (frame (Encode J modified) snapshot version) document = (document', None)"
        "same_json document' data"
      by fastforce
    then show ?thesis using law unfolding patch_law_def by blast
  qed
qed

text \<open>
  The subscriber on connection \<open>c\<close> of pool \<open>i\<close> started from the document \<open>start\<close>: it is
  connected, and what it has made of its frames is the document in the cache of the pool.
\<close>

definition in_sync ::
  "('p, 'c) wire_scheme \<Rightarrow> (string \<Rightarrow> string \<Rightarrow> bool) \<Rightarrow> nat \<Rightarrow> Conn \<Rightarrow> string \<Rightarrow> Stream \<Rightarrow> bool" where
  "in_sync J same_json i c start sm \<longleftrightarrow>
     0 < i \<and> i < length (pools sm) \<and> c \<in> set (connections (pools sm ! i)) \<and>
     \<not> failing (sockets sm c) \<and> \<not> sock_closed (sockets sm c) \<and>
     CacheData (cache (pools sm ! i)) \<noteq> [] \<and>
     same_json (CacheData (cache (pools sm ! i))) (replay J (sent (sockets sm c)) start)"

lemma in_sync_cong:
  assumes "in_sync J same_json i c start sm" "i < length (pools sm')"
    and "cache (pools sm' ! i) = cache (pools sm ! i)"
    and "c \<in> set (connections (pools sm' ! i))" "sockets sm' c = sockets sm c"
  shows "in_sync J same_json i c start sm'"
  using assms by (simp add: in_sync_def)

lemma in_sync_turns:
  assumes laws: "wire_laws J same_json" and ok: "stream_ok sm"
    and sync: "in_sync J same_json i c start sm"
    and opt: "opt_Encode opt = Encode J" "\<forall>key. opt_Get opt key \<noteq> Inr []"
    and turns: "turns_taken J now opt path is sm sm'" "length (pools sm') = length (pools sm)"
    and range: "\<forall>j \<in> set is. j < length (pools sm)"
  shows "in_sync J same_json i c start sm'"
proof -
  let ?p = "pools sm ! i"
  have i: "0 < i" "i < length (pools sm)" "c \<in> set (connections ?p)"
      "\<not> failing (sockets sm c)" "\<not> sock_closed (sockets sm c)"
      "same_json (CacheData (cache ?p)) (replay J (sent (sockets sm c)) start)"
      "CacheData (cache ?p) \<noteq> []"
    using sync by (auto simp: in_sync_def)
  show ?thesis
  proof (cases "i \<in> set is")
    case False
    then have "\<forall>j \<in> set is. c \<notin> set (connections (pools sm ! j))"
      using stream_ok_connections_disjoint [OF ok i(2)] i(3) range by blast
    then have "sockets sm' c = sockets sm c" "pools sm' ! i = ?p"
      using turns(1) i(2) False unfolding turns_taken_def by auto
    with i turns(2) show ?thesis by (simp add: in_sync_def)
  next
    case mine: True
    have p: "pools sm' ! i = pool_after (now i) opt path ?p"
      and s: "sockets sm' c = deliver_option (frame_for J now opt path sm i) (sockets sm c)"
      using turns(1) i(2,3) mine unfolding turns_taken_def by auto
    show ?thesis
    proof (cases "Peer (PoolKey ?p) path \<and> (\<exists>data. opt_Get opt (PoolKey ?p) = Inr data)")
      case False
      then have "pool_after (now i) opt path ?p = ?p" "frame_for J now opt path sm i = None"
        by (auto simp: pool_after_def pool_frame_def split: sum.splits)
      with p s turns(2) i show ?thesis by (simp add: in_sync_def deliver_option_def)
    next
      case True
      then obtain data where data: "opt_Get opt (PoolKey ?p) = Inr data" by blast
      obtain m b v where mbv: "fst (Patch_pool J (NoPatch sm) (ForcePatch sm) (now i) data ?p) = (m, b, v)"
        using prod_cases3 by blast
      obtain document' where
        doc: "PatchCache J (frame (Encode J m) b v) (replay J (sent (sockets sm c)) start) = (document', None)"
          "same_json data document'"
        using Patch_pool_received [OF laws i(6) mbv] by blast
      have "sent (sockets sm' c) = sent (sockets sm c) @ [frame (Encode J m) b v]"
        "\<not> failing (sockets sm' c)" "\<not> sock_closed (sockets sm' c)"
        using s True data mbv i(4,5) opt(1)
        by (simp_all add: pool_frame_def deliver_option_def deliver_def)
      with p turns(2) i doc data True opt(2) show ?thesis
        by (auto simp: in_sync_def pool_after_def)
    qed
  qed
qed

lemma in_sync_Broadcast:
  assumes "wire_laws J same_json" "stream_ok sm" "in_sync J same_json i c start sm"
    and "opt_Encode opt = Encode J" "\<forall>key. opt_Get opt key \<noteq> Inr []"
  shows "in_sync J same_json i c start (Broadcast J now opt path sm)"
  using in_sync_turns [OF assms Broadcast_turns [OF assms(2)]] assms(2) by simp

text \<open>The turn of one pool.\<close>

lemma in_sync_broadcast_pool:
  assumes "wire_laws J same_json" "stream_ok sm" "in_sync J same_json i c start sm"
    and "opt_Encode opt = Encode J" "\<forall>key. opt_Get opt key \<noteq> Inr []" "j < length (pools sm)"
  shows "in_sync J same_json i c start (broadcast_pool J now opt path j sm)"
  using in_sync_turns [OF assms(1-5), of now path "[j]"] broadcast_fold_turns [OF assms(2), of "[j]" J now opt path]
    broadcast_pool_operation [OF assms(6,2), of J now opt path] assms(6)
  by simp

section \<open>Histories of calls\<close>

text \<open>The calls the server makes on the stream, whoever makes them and in whatever order.\<close>

datatype stream_call =
    CallBroadcast "nat \<Rightarrow> int64" BroadcastOpt string
  | CallNew string "error option"
  | CallClose string Conn
  | CallWrite Conn string bool int64
  | CallRefresh int64 string "string \<Rightarrow> string result"
  | CallClock string
  | CallWriteClock Conn string
  | CallLose Conn

fun run_call :: "('p, 'c) wire_scheme \<Rightarrow> stream_call \<Rightarrow> Stream \<Rightarrow> Stream" where
  "run_call J (CallBroadcast now opt path) sm = Broadcast J now opt path sm"
| "run_call J (CallNew key upgrade) sm = snd (Stream_New key upgrade sm)"
| "run_call J (CallClose key client) sm = returned sm (Stream_Close key client sm)"
| "run_call J (CallWrite client data snapshot version) sm = Stream_Write client data snapshot version sm"
| "run_call J (CallRefresh now path get) sm = snd (Refresh now path get sm)"
| "run_call J (CallClock data) sm = returned sm (BroadcastClock data sm)"
| "run_call J (CallWriteClock client data) sm = WriteClock client data sm"
| "run_call J (CallLose client) sm = lose_peer client sm"

interpretation call: stream_operation "run_call J call" for J call
proof -
  have "stream_operation (\<lambda>sm. run_call J call sm)"
    by (cases call)
      (simp_all add: broadcast.stream_operation_axioms New.stream_operation_axioms
        leaving.stream_operation_axioms Write.stream_operation_axioms
        refresh.stream_operation_axioms clock.stream_operation_axioms
        WriteClock.stream_operation_axioms losing.stream_operation_axioms)
  then show "stream_operation (run_call J call)" by simp
qed

interpretation history: stream_operation "fold (run_call J) calls" for J calls
  by (rule stream_operation_fold) (rule call.stream_operation_axioms)

text \<open>Calls that do not concern connection \<open>c\<close> itself; broadcasts send base64 of real documents.\<close>

fun spares :: "('p, 'c) wire_scheme \<Rightarrow> Conn \<Rightarrow> stream_call \<Rightarrow> bool" where
  "spares J c (CallBroadcast now opt path) \<longleftrightarrow>
     opt_Encode opt = Encode J \<and> (\<forall>key. opt_Get opt key \<noteq> Inr [])"
| "spares J c (CallClose key client) \<longleftrightarrow> client \<noteq> c"
| "spares J c (CallWrite client data snapshot version) \<longleftrightarrow> client \<noteq> c"
| "spares J c (CallWriteClock client data) \<longleftrightarrow> client \<noteq> c"
| "spares J c (CallLose client) \<longleftrightarrow> client \<noteq> c"
| "spares J c call \<longleftrightarrow> True"

lemma conn_old: "stream_ok sm \<Longrightarrow> in_sync J same_json i c start sm \<Longrightarrow> c < next_conn sm"
  using connections_in_pool_conns by (fastforce simp: in_sync_def stream_ok_def)

lemma in_sync_new:
  assumes "stream_ok sm" "in_sync J same_json i c start sm"
  shows "in_sync J same_json i c start (snd (Stream_new key sm))"
proof (rule in_sync_cong [OF assms(2)])
  have i: "i < length (pools sm)" "c \<in> set (connections (pools sm ! i))" and c: "c < next_conn sm"
    using assms(2) conn_old [OF assms] by (auto simp: in_sync_def)
  show "i < length (pools (snd (Stream_new key sm)))"
    using new.pool_key_stable [OF assms(1) i(1)] by blast
  show "cache (pools (snd (Stream_new key sm)) ! i) = cache (pools sm ! i)"
    "c \<in> set (connections (pools (snd (Stream_new key sm)) ! i))"
    "sockets (snd (Stream_new key sm)) c = sockets sm c"
    using i c
    by (cases rule: findPool_cases [of sm key];
        auto simp: Stream_new_def Let_def findPool_def nth_append nth_list_update)+
qed

lemma in_sync_Close:
  assumes "in_sync J same_json i c start sm" "client \<noteq> c"
  shows "in_sync J same_json i c start (returned sm (Stream_Close key client sm))"
proof (cases rule: findPool_cases [of sm key])
  case missing
  then show ?thesis using assms by (simp add: Stream_Close_def returned_def)
next
  case (found j)
  have "i < length (pools sm)" "c \<in> set (connections (pools sm ! i))"
    using assms by (auto simp: in_sync_def)
  with found show ?thesis
    by (intro in_sync_cong [OF assms(1)])
      (use assms(2) in \<open>auto simp: Stream_Close_found [OF found(1)] returned_def nth_list_update\<close>)
qed

lemma in_sync_setCache:
  assumes "in_sync J same_json i c start sm" "findPool sm path \<noteq> int i"
  shows "in_sync J same_json i c start (snd (Stream_setCache now path raw sm))"
proof -
  have i: "i < length (pools sm)" "c \<in> set (connections (pools sm ! i))"
    using assms(1) by (auto simp: in_sync_def)
  show ?thesis
  proof (cases rule: findPool_cases [of sm path])
    case missing
    with i show ?thesis
      by (intro in_sync_cong [OF assms(1)]) (auto simp: Stream_setCache_def nth_append)
  next
    case (found j)
    then have "j \<noteq> i" using assms(2) by auto
    with found i show ?thesis
      by (intro in_sync_cong [OF assms(1)]) (auto simp: Stream_setCache_def)
  qed
qed

lemma in_sync_Refresh:
  assumes "stream_ok sm" "in_sync J same_json i c start sm"
  shows "in_sync J same_json i c start (snd (Refresh now path get sm))"
proof -
  have nonempty: "CacheData (cache (pools sm ! i)) \<noteq> []"
    using assms(2) by (simp add: in_sync_def)
  have "in_sync J same_json i c start (snd (Stream_setCache now path raw sm))"
    if "GetCacheVersion path sm = Inl err" for err raw
    using that nonempty by (intro in_sync_setCache [OF assms(2)]) (auto simp: GetCacheVersion_def)
  then show ?thesis
    using assms(2) by (auto simp: snd_Refresh split: sum.split)
qed

lemma in_sync_clock:
  assumes "stream_ok sm" "in_sync J same_json i c start sm"
  shows "in_sync J same_json i c start (returned sm (BroadcastClock data sm))"
proof -
  have i: "0 < i" "i < length (pools sm)" "c \<in> set (connections (pools sm ! i))"
    using assms by (auto simp: in_sync_def)
  have "0 < length (pools sm)" using i(2) by (rule le_less_trans [OF le0])
  then have "c \<notin> set (connections (pools sm ! 0))"
    using stream_ok_connections_disjoint [OF assms(1), of 0 i] i by auto
  with i show ?thesis
    by (intro in_sync_cong [OF assms(2)])
      (simp_all add: BroadcastClock_deliver [OF assms(1)] returned_def)
qed

lemma in_sync_call:
  assumes "wire_laws J same_json" "stream_ok sm" "in_sync J same_json i c start sm" "spares J c call"
  shows "in_sync J same_json i c start (run_call J call sm)"
proof (cases call)
  case (CallBroadcast now opt path)
  with assms show ?thesis by (simp add: in_sync_Broadcast)
next
  case (CallNew key upgrade)
  with assms show ?thesis by (simp add: snd_Stream_New in_sync_new)
next
  case (CallWrite client data snapshot version)
  with assms(4) show ?thesis
    by (intro in_sync_cong [OF assms(3)])
      (use assms(3) in \<open>auto simp: Stream_Write_def write_message_deliver in_sync_def\<close>)
next
  case (CallWriteClock client data)
  with assms(4) show ?thesis
    by (intro in_sync_cong [OF assms(3)])
      (use assms(3) in \<open>auto simp: WriteClock_def write_message_deliver in_sync_def\<close>)
next
  case (CallLose client)
  with assms(4) show ?thesis
    by (intro in_sync_cong [OF assms(3)])
      (use assms(3) in \<open>auto simp: lose_peer_def in_sync_def\<close>)
qed (use assms in \<open>simp_all add: in_sync_Close in_sync_Refresh in_sync_clock\<close>)

lemma in_sync_history:
  "wire_laws J same_json \<Longrightarrow> stream_ok sm \<Longrightarrow> in_sync J same_json i c start sm \<Longrightarrow>
     \<forall>call \<in> set calls. spares J c call \<Longrightarrow>
     in_sync J same_json i c start (fold (run_call J) calls sm)"
proof (induction calls arbitrary: sm)
  case (Cons call calls)
  have "stream_ok (run_call J call sm)" by (rule call.keeps_ok [OF Cons.prems(2)])
  moreover have "in_sync J same_json i c start (run_call J call sm)"
    using Cons.prems by (intro in_sync_call) auto
  ultimately show ?case using Cons.IH [of "run_call J call sm"] Cons.prems by simp
qed simp

end
