(* ===== verification/Base64.thy ===== *)
theory Base64
  imports Prelude
begin

text \<open>
  Go's standard \<^verbatim>\<open>encoding/base64\<close>, \<^verbatim>\<open>StdEncoding\<close>, which \<^verbatim>\<open>src/io\<close> uses
  to encode what it stores. Three bytes become four characters of the alphabet; the last group is
  padded. Decoding undoes encoding.
\<close>

definition b64_alphabet :: string where
  "b64_alphabet = ''ABCDEFGHIJKLMNOPQRSTUVWXYZabcdefghijklmnopqrstuvwxyz0123456789+/''"

definition b64_char :: "nat \<Rightarrow> char" where
  "b64_char n = b64_alphabet ! n"

abbreviation byte_nat :: "char \<Rightarrow> nat" where "byte_nat c \<equiv> of_char c"

abbreviation padding :: char where "padding \<equiv> CHR ''=''"

fun EncodeToString :: "string \<Rightarrow> string" where
  "EncodeToString [] = []"
| "EncodeToString [a] =
     [b64_char (byte_nat a div 4), b64_char (byte_nat a mod 4 * 16), padding, padding]"
| "EncodeToString [a, b] =
     [b64_char (byte_nat a div 4), b64_char (byte_nat a mod 4 * 16 + byte_nat b div 16),
      b64_char (byte_nat b mod 16 * 4), padding]"
| "EncodeToString (a # b # c # src) =
     b64_char (byte_nat a div 4) # b64_char (byte_nat a mod 4 * 16 + byte_nat b div 16) #
     b64_char (byte_nat b mod 16 * 4 + byte_nat c div 64) # b64_char (byte_nat c mod 64) #
     EncodeToString src"

fun position :: "char \<Rightarrow> string \<Rightarrow> nat option" where
  "position c [] = None"
| "position c (d # ds) = (if c = d then Some 0 else map_option Suc (position c ds))"

definition b64_val :: "char \<Rightarrow> nat option" where
  "b64_val c = position c b64_alphabet"

text \<open>Decoding of unbroken text; any other character, or a wrong padding, is an error.\<close>

fun DecodeString :: "string \<Rightarrow> string option" where
  "DecodeString [] = Some []"
| "DecodeString (w # x # y # z # src) =
     (case (b64_val w, b64_val x) of
        (Some p, Some q) \<Rightarrow>
          if y = padding then
            (if z = padding \<and> src = [] then Some [char_of (p * 4 + q div 16)] else None)
          else
            (case b64_val y of
               None \<Rightarrow> None
             | Some r \<Rightarrow>
                 if z = padding then
                   (if src = [] then Some [char_of (p * 4 + q div 16), char_of (q mod 16 * 16 + r div 4)]
                    else None)
                 else
                   (case (b64_val z, DecodeString src) of
                      (Some s, Some rest) \<Rightarrow>
                        Some (char_of (p * 4 + q div 16) # char_of (q mod 16 * 16 + r div 4) #
                              char_of (r mod 4 * 64 + s) # rest)
                    | _ \<Rightarrow> None))
      | _ \<Rightarrow> None)"
| "DecodeString _ = None"

lemma b64_table:
  "list_all (\<lambda>n. b64_val (b64_char n) = Some n \<and> b64_char n \<noteq> padding) [0..<64]"
  by code_simp

lemma b64_val_char [simp]: "n < 64 \<Longrightarrow> b64_val (b64_char n) = Some n"
  and b64_char_padding [simp]: "n < 64 \<Longrightarrow> b64_char n \<noteq> padding"
  using b64_table by (auto simp: list_all_iff)

lemma byte_nat_bound: "byte_nat c < 256"
  using range_nat_of_char by auto

text \<open>The arithmetic of regrouping eight bit values into six bit ones, and back.\<close>

lemma regroup:
  fixes a b c :: nat
  assumes "a < 256" "b < 256" "c < 256"
  shows "a div 4 < 64" "a mod 4 * 16 + b div 16 < 64" "b mod 16 * 4 + c div 64 < 64" "c mod 64 < 64"
    and "a div 4 * 4 + (a mod 4 * 16 + b div 16) div 16 = a"
    and "(a mod 4 * 16 + b div 16) mod 16 * 16 + (b mod 16 * 4 + c div 64) div 4 = b"
    and "(b mod 16 * 4 + c div 64) mod 4 * 64 + c mod 64 = c"
proof -
  have small: "b div 16 < 16" "c div 64 < 4" "a mod 4 < 4" "b mod 16 < 16" using assms by auto
  show "a div 4 < 64" "c mod 64 < 64" using assms by auto
  show "a mod 4 * 16 + b div 16 < 64" "b mod 16 * 4 + c div 64 < 64"
    using small by linarith+
  have "(a mod 4 * 16 + b div 16) div 16 = a mod 4" "(a mod 4 * 16 + b div 16) mod 16 = b div 16"
    "(b mod 16 * 4 + c div 64) div 4 = b mod 16" "(b mod 16 * 4 + c div 64) mod 4 = c div 64"
    using small by simp_all
  then show "a div 4 * 4 + (a mod 4 * 16 + b div 16) div 16 = a"
    "(a mod 4 * 16 + b div 16) mod 16 * 16 + (b mod 16 * 4 + c div 64) div 4 = b"
    "(b mod 16 * 4 + c div 64) mod 4 * 64 + c mod 64 = c"
    by simp_all
qed

lemma decode_group:
  "p < 64 \<Longrightarrow> q < 64 \<Longrightarrow> r < 64 \<Longrightarrow> s < 64 \<Longrightarrow>
     DecodeString (b64_char p # b64_char q # b64_char r # b64_char s # src) =
       map_option (\<lambda>rest. char_of (p * 4 + q div 16) # char_of (q mod 16 * 16 + r div 4) #
         char_of (r mod 4 * 64 + s) # rest) (DecodeString src)"
  by (simp split: option.split)

lemma decode_group_two:
  "p < 64 \<Longrightarrow> q < 64 \<Longrightarrow> r < 64 \<Longrightarrow>
     DecodeString [b64_char p, b64_char q, b64_char r, padding] =
       Some [char_of (p * 4 + q div 16), char_of (q mod 16 * 16 + r div 4)]"
  by simp

lemma decode_group_one:
  "p < 64 \<Longrightarrow> q < 64 \<Longrightarrow>
     DecodeString [b64_char p, b64_char q, padding, padding] = Some [char_of (p * 4 + q div 16)]"
  by simp

lemma DecodeString_EncodeToString: "DecodeString (EncodeToString s) = Some s"
proof (induction s rule: EncodeToString.induct)
  case (2 a)
  note r = regroup [of "byte_nat a" 0 0, OF byte_nat_bound]
  have "byte_nat a div 4 * 4 + byte_nat a mod 4 * 16 div 16 = byte_nat a" using r(5) by simp
  then show ?case
    using r(1,2) unfolding EncodeToString.simps by (subst decode_group_one) (simp_all del: mult_div_mod_eq)
next
  case (3 a b)
  note r = regroup [of "byte_nat a" "byte_nat b" 0, OF byte_nat_bound byte_nat_bound, simplified div_0 add_0_right]
  show ?case
    unfolding EncodeToString.simps
    by (subst decode_group_two) (use r in \<open>simp_all only: zero_less_numeral char_of_char\<close>)
next
  case (4 a b c src)
  note r = regroup [of "byte_nat a" "byte_nat b" "byte_nat c", OF byte_nat_bound byte_nat_bound byte_nat_bound]
  show ?case
    unfolding EncodeToString.simps decode_group [OF r(1-4)] r(5-7) 4 by simp
qed simp

lemma length_EncodeToString: "length (EncodeToString s) = 4 * ((length s + 2) div 3)"
proof (induction s rule: EncodeToString.induct)
  case (4 a b c src)
  then show ?case by simp presburger
qed auto

lemma length_b64_alphabet: "length b64_alphabet = 64"
  by (simp add: b64_alphabet_def)

lemma b64_char_set: "n < 64 \<Longrightarrow> b64_char n \<in> set b64_alphabet"
  by (simp add: b64_char_def length_b64_alphabet)

lemma EncodeToString_set: "set (EncodeToString s) \<subseteq> insert padding (set b64_alphabet)"
proof (induction s rule: EncodeToString.induct)
  case (2 a)
  then show ?case
    using regroup(1,2) [of "byte_nat a" 0 0] byte_nat_bound [of a] b64_char_set by simp
next
  case (3 a b)
  then show ?case
    using regroup(1-3) [of "byte_nat a" "byte_nat b" 0] byte_nat_bound b64_char_set by simp
next
  case (4 a b c src)
  then show ?case
    using regroup(1-4) [of "byte_nat a" "byte_nat b" "byte_nat c"] byte_nat_bound b64_char_set by simp
qed simp

end
