(* ===== verification/RefCodec.thy ===== *)
theory RefCodec
  imports Subscription Base64
begin

text \<open>
  A concrete codec: JSON text for the objects, lists and messages the program exchanges, the
  standard base64, and patches that replace the whole document when it changed. It meets every law the
  development assumes of the packages outside the repository (\<open>object_law\<close>, \<open>objects_law\<close>,
  \<open>base64_law\<close>, \<open>message_law\<close>, \<open>patch_law\<close>), so the laws can hold together, and it
  lets the properties be evaluated on concrete inputs.
\<close>

abbreviation quote :: char where "quote \<equiv> CHR 0x22"

section \<open>Objects\<close>

lemma strings_Trim_hd_last:
  "strings_Trim s c = [] \<or> (hd (strings_Trim s c) \<noteq> c \<and> last (strings_Trim s c) \<noteq> c)"
proof -
  let ?P = "\<lambda>x. x = c"
  define t where "t = dropWhile ?P s"
  define u where "u = dropWhile ?P (rev t)"
  have "u = [] \<or> hd u \<noteq> c" unfolding u_def using hd_dropWhile [of ?P "rev t"] by blast
  moreover have "u = [] \<or> last u \<noteq> c"
  proof (cases "u = []")
    case False
    then have "last u = last (rev t)"
      unfolding u_def by (metis dropWhile_eq_drop last_drop linorder_not_le drop_eq_Nil)
    moreover have "t \<noteq> []" using False by (auto simp: u_def)
    ultimately show ?thesis
      using hd_dropWhile [of ?P s] by (simp add: last_rev t_def)
  qed simp
  ultimately show ?thesis by (auto simp: strings_Trim_def t_def u_def hd_rev last_rev)
qed

lemma strings_Trim_idem [simp]: "strings_Trim (strings_Trim s c) c = strings_Trim s c"
  by (rule strings_Trim_id [OF strings_Trim_hd_last])

definition object_text :: "Object \<Rightarrow> string" where
  \<open>object_text obj =
     ''{"created":'' @ FormatInt (Created obj) 10 @ '',"updated":'' @ FormatInt (Updated obj) 10 @
     '',"index":"'' @ Index obj @ ''","data":"'' @ Data obj @ ''"}''\<close>

fun more_objects_text :: "Object list \<Rightarrow> string" where
  "more_objects_text [] = ''''"
| "more_objects_text (obj # objs) = '','' @ object_text obj @ more_objects_text objs"

fun objects_text :: "Object list \<Rightarrow> string" where
  "objects_text [] = ''[]''"
| "objects_text (obj # objs) = ''['' @ object_text obj @ more_objects_text objs @ '']''"

definition read_number :: "string \<Rightarrow> int64 option" where
  "read_number s =
     (case ParseInt (filter (\<lambda>c. c \<notin> {CHR '' '', CHR '':'', CHR '',''}) s) 10 of
        Inl e \<Rightarrow> None | Inr n \<Rightarrow> Some n)"

text \<open>Reading the pieces between the quotes, thirteen for an object.\<close>

fun read_pieces :: "string list \<Rightarrow> Object list option" where
  "read_pieces (a # k1 # c # k2 # u # k3 # b1 # i # b2 # k4 # b3 # d # rest) =
     (if k1 = ''created'' \<and> k2 = ''updated'' \<and> k3 = ''index'' \<and> k4 = ''data'' then
        (case (read_number c, read_number u) of
           (Some created, Some updated) \<Rightarrow>
             (let obj = \<lparr>Created = created, Updated = updated, Index = i, Data = d\<rparr>
              in if length rest \<le> 1 then Some [obj]
                 else (case read_pieces rest of None \<Rightarrow> None | Some objs \<Rightarrow> Some (obj # objs)))
         | _ \<Rightarrow> None)
      else None)"
| "read_pieces _ = None"

definition json_error :: error where
  "json_error = Error ''invalid character''"

text \<open>White space around a text is skipped, and members that are missing are zero.\<close>

definition ref_unmarshal_object :: "string \<Rightarrow> Object result" where
  "ref_unmarshal_object s0 =
     (let s = strings_Trim s0 newline
      in case read_pieces (strings_Split s quote) of
           Some [obj] \<Rightarrow> (if hd s = CHR ''{'' then Inr obj else Inl json_error)
         | _ \<Rightarrow>
             (case strings_Split s quote of
                [a, k, b, i, c] \<Rightarrow>
                  if a = ''{'' \<and> k = ''index'' then Inr \<lparr>Created = 0, Updated = 0, Index = i, Data = ''''\<rparr>
                  else Inl json_error
              | _ \<Rightarrow> Inl json_error))"

definition ref_unmarshal_objects :: "string \<Rightarrow> Object list result" where
  "ref_unmarshal_objects s0 =
     (let s = strings_Trim s0 newline
      in if s = ''[]'' then Inr []
         else
           (case read_pieces (strings_Split s quote) of
              Some objs \<Rightarrow> (if hd s = CHR ''['' then Inr objs else Inl json_error)
            | None \<Rightarrow> Inl json_error))"

lemma FormatInt_no_quote: "quote \<notin> set (FormatInt i 10)" "quote \<notin> set (FormatInt i 16)"
  using FormatInt_chars [of 10 quote i] FormatInt_chars [of 16 quote i]
  by (auto simp: is_alnum_def Let_def)

lemma read_number_FormatInt:
  "set before \<union> set after \<subseteq> {CHR '' '', CHR '':'', CHR '',''} \<Longrightarrow>
     read_number (before @ FormatInt i 10 @ after) = Some i"
proof -
  assume s: "set before \<union> set after \<subseteq> {CHR '' '', CHR '':'', CHR '',''}"
  let ?P = "\<lambda>c. c \<notin> {CHR '' '', CHR '':'', CHR '',''}"
  have "?P c" if "c \<in> set (FormatInt i 10)" for c
    using FormatInt_chars [OF _ _ that] by (auto simp: is_alnum_def Let_def)
  then have "filter ?P (FormatInt i 10) = FormatInt i 10" by (simp add: filter_id_conv)
  moreover have "filter ?P before = []" "filter ?P after = []"
    using s by (auto simp: filter_empty_conv)
  ultimately have "filter ?P (before @ FormatInt i 10 @ after) = FormatInt i 10" by simp
  then show ?thesis unfolding read_number_def by (simp add: ParseInt_FormatInt)
qed

lemma split_object_text:
  assumes "quote \<notin> set before" "safe_object obj"
  shows "strings_Split (before @ object_text obj @ after) quote =
    (before @ ''{'') # ''created'' # ('':'' @ FormatInt (Created obj) 10 @ '','') # ''updated'' #
    ('':'' @ FormatInt (Updated obj) 10 @ '','') # ''index'' # '':'' # Index obj # '','' # ''data'' # '':'' #
    Data obj # strings_Split (''}'' @ after) quote"
proof -
  have no: "quote \<notin> set (Index obj)" "quote \<notin> set (Data obj)"
    using assms(2) json_safe_no_quote by (auto simp: safe_object_def)
  have sep: "strings_Split (s @ quote # t) quote = s # strings_Split t quote" if "quote \<notin> set s" for s t
    using that by (rule strings_Split_sep)
  have whole: "before @ object_text obj @ after =
      (before @ ''{'') @ quote # ''created'' @ quote # ('':'' @ FormatInt (Created obj) 10 @ '','') @
      quote # ''updated'' @ quote # ('':'' @ FormatInt (Updated obj) 10 @ '','') @ quote # ''index'' @
      quote # '':'' @ quote # Index obj @ quote # '','' @ quote # ''data'' @ quote # '':'' @
      quote # Data obj @ quote # (''}'' @ after)"
    by (simp add: object_text_def)
  show ?thesis
    unfolding whole using assms(1) no FormatInt_no_quote
    by (simp add: sep del: append_Cons append_assoc append_Nil)
qed

lemma read_pieces_object:
  assumes "quote \<notin> set before" "safe_object obj"
  shows "read_pieces (strings_Split (before @ object_text obj @ after) quote) =
    (if length (strings_Split (''}'' @ after) quote) \<le> 1 then Some [obj]
     else (case read_pieces (strings_Split (''}'' @ after) quote) of
             None \<Rightarrow> None | Some objs \<Rightarrow> Some (obj # objs)))"
proof -
  have n: "read_number ('':'' @ FormatInt i 10 @ '','') = Some i" for i
    by (rule read_number_FormatInt) simp
  show ?thesis
    unfolding split_object_text [OF assms] by (simp add: n [simplified] Let_def split: option.split)
qed

lemma read_pieces_objects:
  "quote \<notin> set before \<Longrightarrow> safe_object obj \<Longrightarrow> list_all safe_object objs \<Longrightarrow> quote \<notin> set after \<Longrightarrow>
     read_pieces (strings_Split (before @ object_text obj @ more_objects_text objs @ after) quote) =
       Some (obj # objs)"
proof (induction objs arbitrary: before obj)
  case Nil
  then show ?case
    by (subst read_pieces_object) (simp_all add: strings_Split_no_sep)
next
  case (Cons obj2 objs)
  have "read_pieces (strings_Split ((''},'') @ object_text obj2 @ more_objects_text objs @ after) quote) =
      Some (obj2 # objs)"
    using Cons.prems by (intro Cons.IH) auto
  moreover have "1 < length (strings_Split ((''},'') @ object_text obj2 @ more_objects_text objs @ after) quote)"
    by (simp add: length_strings_Split object_text_def)
  ultimately show ?case
    using Cons.prems by (subst read_pieces_object) simp_all
qed

lemma strings_Trim_object_text [simp]:
  "strings_Trim (object_text obj) newline = object_text obj"
  "strings_Trim (object_text obj @ [newline]) newline = object_text obj"
proof -
  have "dropWhile (\<lambda>x. x = newline) (object_text obj @ [newline]) = object_text obj @ [newline]"
    "dropWhile (\<lambda>x. x = newline) (object_text obj) = object_text obj"
    by (simp_all add: object_text_def)
  moreover have "dropWhile (\<lambda>x. x = newline) (rev (object_text obj)) = rev (object_text obj)"
    by (simp add: object_text_def)
  ultimately show "strings_Trim (object_text obj) newline = object_text obj"
    "strings_Trim (object_text obj @ [newline]) newline = object_text obj"
    by (simp_all add: strings_Trim_def)
qed

lemma ref_unmarshal_object_plain:
  assumes "safe_object obj"
  shows "ref_unmarshal_object (object_text obj) = Inr obj"
proof -
  have "read_pieces (strings_Split ([] @ object_text obj @ []) quote) = Some [obj]"
    using assms by (subst read_pieces_object) (simp_all add: strings_Split_no_sep)
  moreover have "hd (object_text obj) = CHR ''{''" by (simp add: object_text_def)
  ultimately show ?thesis by (simp add: ref_unmarshal_object_def)
qed

lemma ref_unmarshal_object_Trim: "ref_unmarshal_object (strings_Trim s newline) = ref_unmarshal_object s"
  "ref_unmarshal_objects (strings_Trim s newline) = ref_unmarshal_objects s"
  by (simp_all add: ref_unmarshal_object_def ref_unmarshal_objects_def)

lemma ref_unmarshal_object_text:
  assumes "safe_object obj"
  shows "ref_unmarshal_object (object_text obj @ [newline]) = Inr obj"
  using ref_unmarshal_object_plain [OF assms] ref_unmarshal_object_Trim(1) [of "object_text obj @ [newline]"] by simp

lemma ref_unmarshal_objects_text:
  assumes "list_all safe_object objs"
  shows "ref_unmarshal_objects (objects_text objs) = Inr objs"
proof (cases objs)
  case (Cons obj rest)
  have trim: "strings_Trim (objects_text objs) newline = objects_text objs"
    by (rule strings_Trim_id) (simp add: Cons)
  have "read_pieces (strings_Split (''['' @ object_text obj @ more_objects_text rest @ '']'') quote) = Some objs"
    unfolding Cons using assms Cons by (intro read_pieces_objects) auto
  moreover have "objects_text objs \<noteq> ''[]''"
    by (simp add: Cons object_text_def)
  ultimately show ?thesis by (simp add: ref_unmarshal_objects_def trim Let_def) (simp add: Cons)
qed (simp add: ref_unmarshal_objects_def strings_Trim_id)

text \<open>The keys of the statistics, as \<^verbatim>\<open>{"keys":["a","b"]}\<close>.\<close>

fun more_keys_text :: "string list \<Rightarrow> string" where
  "more_keys_text [] = ''''"
| "more_keys_text (k # ks) = '','' @ [quote] @ k @ [quote] @ more_keys_text ks"

definition keys_text :: "string list \<Rightarrow> string" where
  "keys_text keys = ''{'' @ [quote] @ ''keys'' @ [quote] @ '':['' @ tl (more_keys_text keys) @ '']}''"

section \<open>Messages\<close>

text \<open>A frame of the server, or the body of a publish request.\<close>

definition ref_unmarshal_message :: "string \<Rightarrow> Message result" where
  "ref_unmarshal_message s =
     (case strings_Split s quote of
        [a, k1, b, k2, c, v, d, k3, e, data, f] \<Rightarrow>
          if k1 = ''snapshot'' \<and> k2 = ''version'' \<and> k3 = ''data'' then
            Inr \<lparr>MsgData = data, MsgVersion = v, MsgSnapshot = (b = '': true,'')\<rparr>
          else Inl json_error
      | [a, k1, b, data, c] \<Rightarrow>
          if k1 = ''data'' then Inr \<lparr>MsgData = data, MsgVersion = '''', MsgSnapshot = False\<rparr>
          else Inl json_error
      | _ \<Rightarrow> Inl json_error)"

lemma ref_unmarshal_message_frame:
  assumes "json_safe data"
  shows "ref_unmarshal_message (frame data snapshot version) =
    Inr \<lparr>MsgData = data, MsgVersion = FormatInt version 16, MsgSnapshot = snapshot\<rparr>"
proof -
  have sep: "strings_Split (s @ quote # t) quote = s # strings_Split t quote" if "quote \<notin> set s" for s t
    using that by (rule strings_Split_sep)
  have whole: "frame data snapshot version =
      ''{'' @ quote # ''snapshot'' @ quote # ('': '' @ FormatBool snapshot @ '','') @ quote # ''version'' @
      quote # '': '' @ quote # FormatInt version 16 @ quote # '','' @ quote # ''data'' @ quote # '': '' @
      quote # data @ quote # ''}''"
    by (simp add: frame_def)
  have "quote \<notin> set (FormatBool snapshot)" by (simp add: FormatBool_def)
  then have "strings_Split (frame data snapshot version) quote =
      [''{'', ''snapshot'', '': '' @ FormatBool snapshot @ '','', ''version'', '': '', FormatInt version 16, '','',
       ''data'', '': '', data, ''}'']"
    unfolding whole using json_safe_no_quote [OF assms] FormatInt_no_quote
    by (simp add: sep strings_Split_no_sep del: append_Cons append_assoc append_Nil strings_Split.simps)
  then show ?thesis by (simp add: ref_unmarshal_message_def FormatBool_def)
qed

section \<open>Patches\<close>

definition replace_before :: string where
  \<open>replace_before = ''[{"op":"replace","path":"","value":''\<close>

definition ref_marshal_patch :: "string option \<Rightarrow> string" where
  "ref_marshal_patch p =
     (case p of None \<Rightarrow> ''[]'' | Some b \<Rightarrow> replace_before @ b @ ''}]'')"

definition ref_decode_patch :: "string \<Rightarrow> string option option result" where
  "ref_decode_patch s =
     (if s = ''[]'' then Inr (Some None)
      else if prefix replace_before s then
        Inr (Some (Some (butlast (butlast (drop (length replace_before) s)))))
      else Inl json_error)"

definition trimmed_equal :: "string \<Rightarrow> string \<Rightarrow> bool" where
  "trimmed_equal a b \<longleftrightarrow> strings_Trim a newline = strings_Trim b newline"

section \<open>The codec\<close>

definition ref_wire :: "string option wire" where
  "ref_wire =
     \<lparr>encoder_object = (\<lambda>obj. Inr (object_text obj @ [newline])),
      unmarshal_object = ref_unmarshal_object,
      decoder_object = ref_unmarshal_object,
      marshal_objects = (\<lambda>objs. Inr (objects_text objs)),
      unmarshal_objects = ref_unmarshal_objects,
      decoder_objects = ref_unmarshal_objects,
      marshal_stats = (\<lambda>keys. Inr (keys_text keys)),
      base64_encode = EncodeToString,
      base64_decode = (\<lambda>s. case DecodeString s of None \<Rightarrow> Inl (Error ''illegal base64 data'') | Some t \<Rightarrow> Inr t),
      unmarshal_message = ref_unmarshal_message,
      decoder_message = ref_unmarshal_message,
      CreatePatch = (\<lambda>a b. Inr (if trimmed_equal a b then None else Some (strings_Trim b newline))),
      marshal_patch = (\<lambda>p. Inr (ref_marshal_patch p)),
      DecodePatch = ref_decode_patch,
      patch_Apply = (\<lambda>p a. Inr (case p of None \<Rightarrow> Some a | Some b \<Rightarrow> Some b))\<rparr>"

lemma ref_object_law: "object_law ref_wire"
  by (simp add: object_law_def ref_wire_def ref_unmarshal_object_text)

lemma objects_text_not_Nil: "objects_text objs \<noteq> []"
  by (cases objs) auto

lemma ref_objects_law: "objects_law ref_wire"
  by (simp add: objects_law_def ref_wire_def ref_unmarshal_objects_text objects_text_not_Nil)

lemma alphabet_safe: "list_all json_safe_char (padding # b64_alphabet)"
  by (simp add: b64_alphabet_def json_safe_char_def)

lemma ref_base64_law: "base64_law ref_wire"
proof -
  have "json_safe (EncodeToString s)" for s
    using EncodeToString_set [of s] alphabet_safe by (auto simp: json_safe_def list_all_iff)
  then show ?thesis
    by (simp add: base64_law_def ref_wire_def DecodeString_EncodeToString)
qed

lemma ref_message_law: "message_law ref_wire"
  by (simp add: message_law_def ref_wire_def ref_unmarshal_message_frame)

lemma marshal_patch_trim: "strings_Trim (ref_marshal_patch p) newline = ref_marshal_patch p"
  by (rule strings_Trim_id) (simp add: ref_marshal_patch_def replace_before_def split: option.split)

lemma ref_decode_marshal: "ref_decode_patch (ref_marshal_patch p) = Inr (Some p)"
  by (simp add: ref_decode_patch_def ref_marshal_patch_def replace_before_def butlast_append split: option.split)

lemma ref_patch_law: "patch_law ref_wire trimmed_equal"
  unfolding patch_law_def
  by (auto simp: ref_wire_def trimmed_equal_def marshal_patch_trim ref_decode_marshal)
    (auto simp: ref_marshal_patch_def replace_before_def)

lemma ref_wire_laws: "wire_laws ref_wire trimmed_equal"
  by (simp add: wire_laws_def ref_base64_law ref_message_law ref_patch_law)

end
