(* ===== verification/Server.thy ===== *)
theory Server
  imports Filters MemoryQueries Subscription
begin

text \<open>
  \<^verbatim>\<open>src/katamari.go\<close> and \<^verbatim>\<open>src/clock.go\<close>: the server, its settings and
  their defaults, its life cycle, the data it serves (\<open>fetch\<close>, \<open>getFilteredData\<close>), the
  workers that turn storage events into broadcasts, and the clock.

  A nil function or slice of the settings is \<open>None\<close> or the empty list, and a zero duration is 0
  (durations are nanoseconds). \<^verbatim>\<open>log.Fatal\<close> ends the process. The listener, the HTTP server
  and the router are outside the repository: what \<^verbatim>\<open>net.Listen\<close> returns is an argument. Console
  output is left out. A started goroutine whose work is one call is put in \<open>spawned\<close> until it runs.
\<close>

record request =
  req_key :: string
  req_body :: string
  req_websocket :: bool
  req_v :: string
  req_upgrade :: "error option"
  req_token :: string

datatype callback = NoCallback | UserCallback nat

datatype goroutine =
    WriteInitial Conn string bool int64
  | WriteTime Conn string

record Server =
  app_Stream :: Stream
  stream_OnSubscribe :: "(string \<Rightarrow> error option) option"
  stream_OnUnsubscribe :: "callback option"
  app_filters :: filters
  app_Storage :: MemoryStorage
  app_Static :: bool
  Pivot :: string
  NoBroadcastKeys :: "string list"
  Audit :: "(request \<Rightarrow> bool) option"
  Workers :: int
  app_ForcePatch :: bool
  app_NoPatch :: bool
  app_OnSubscribe :: "(string \<Rightarrow> error option) option"
  app_OnUnsubscribe :: "callback option"
  OnClose :: "callback option"
  Deadline :: int
  AllowedOrigins :: "string list"
  AllowedMethods :: "string list"
  AllowedHeaders :: "string list"
  ExposedHeaders :: "string list"
  Address :: string
  closing :: int64
  active :: int64
  Tick :: int
  ReadTimeout :: int
  WriteTimeout :: int
  ReadHeaderTimeout :: int
  IdleTimeout :: int
  routed :: bool
  serving :: bool
  watching :: nat
  ticking :: nat
  closed_with :: "callback list"
  spawned :: "goroutine list"
  notified :: "(Notify \<times> string) list"

datatype 'a process = Runs 'a | Fatal string

text \<open>The zero value of the server and of its stream, \<^verbatim>\<open>Server{}\<close>.\<close>

definition zero_Stream :: Stream where
  "zero_Stream =
     \<lparr>OnSubscribe = (\<lambda>key. None), ForcePatch = False, NoPatch = False, pools = [],
      sockets = (\<lambda>c. open_socket), next_conn = 0, unsubscribed = [], callbacks = 0\<rparr>"

definition zero_Server :: Server where
  "zero_Server =
     \<lparr>app_Stream = zero_Stream, stream_OnSubscribe = None, stream_OnUnsubscribe = None,
      app_filters = \<lparr>Write_filters = [], Read_filters = [], Delete_filters = [], After_filters = []\<rparr>,
      app_Storage = empty_MemoryStorage, app_Static = False, Pivot = '''', NoBroadcastKeys = [],
      Audit = None, Workers = 0, app_ForcePatch = False, app_NoPatch = False,
      app_OnSubscribe = None, app_OnUnsubscribe = None, OnClose = None, Deadline = 0,
      AllowedOrigins = [], AllowedMethods = [], AllowedHeaders = [], ExposedHeaders = [],
      Address = '''', closing = 0, active = 0, Tick = 0, ReadTimeout = 0, WriteTimeout = 0,
      ReadHeaderTimeout = 0, IdleTimeout = 0, routed = False, serving = False, watching = 0,
      ticking = 0, closed_with = [], spawned = [], notified = []\<rparr>"

section \<open>Defaults\<close>

definition default_int :: "int \<Rightarrow> int \<Rightarrow> int" where
  "default_int value d = (if value = 0 then d else value)"

definition default_list :: "'a list \<Rightarrow> 'a list \<Rightarrow> 'a list" where
  "default_list value d = (if length value = 0 then d else value)"

definition default_fn :: "'a option \<Rightarrow> 'a \<Rightarrow> 'a option" where
  "default_fn value d = (if value = None then Some d else value)"

text \<open>
  \<^verbatim>\<open>defaults\<close>, in the order of the source; the stream's own callbacks default to the server's,
  which have been defaulted before.
\<close>

definition defaults_timing :: "Server \<Rightarrow> Server" where
  "defaults_timing app =
     app\<lparr>Deadline := default_int (Deadline app) (10 * second),
         Tick := default_int (Tick app) second,
         ReadTimeout := default_int (ReadTimeout app) (60 * second),
         WriteTimeout := default_int (WriteTimeout app) (60 * second),
         ReadHeaderTimeout := default_int (ReadHeaderTimeout app) (10 * second),
         IdleTimeout := default_int (IdleTimeout app) (10 * second),
         Workers := default_int (Workers app) 6\<rparr>"

definition defaults_cors :: "Server \<Rightarrow> Server" where
  "defaults_cors app =
     app\<lparr>AllowedOrigins := default_list (AllowedOrigins app) [''*''],
         AllowedMethods := default_list (AllowedMethods app) [''GET'', ''POST'', ''DELETE'', ''PUT''],
         AllowedHeaders := default_list (AllowedHeaders app) [''Authorization'', ''Content-Type'']\<rparr>"

definition defaults_callbacks :: "Server \<Rightarrow> Server" where
  "defaults_callbacks app0 =
     (let app1 = app0\<lparr>OnClose := default_fn (OnClose app0) NoCallback\<rparr>;
          app2 = app1\<lparr>Audit := default_fn (Audit app1) (\<lambda>r. True)\<rparr>;
          app3 = app2\<lparr>app_OnSubscribe := default_fn (app_OnSubscribe app2) (\<lambda>key. None)\<rparr>;
          app4 = app3\<lparr>stream_OnSubscribe :=
            default_fn (stream_OnSubscribe app3) (the (app_OnSubscribe app3))\<rparr>;
          app5 = app4\<lparr>app_OnUnsubscribe := default_fn (app_OnUnsubscribe app4) NoCallback\<rparr>;
          app6 = app5\<lparr>stream_OnUnsubscribe :=
            default_fn (stream_OnUnsubscribe app5) (the (app_OnUnsubscribe app5))\<rparr>
      in app6)"

definition defaults_stream :: "Server \<Rightarrow> Server" where
  "defaults_stream app =
     app\<lparr>app_Stream := InitClock ((app_Stream app)
       \<lparr>OnSubscribe := the (stream_OnSubscribe app),
        ForcePatch := app_ForcePatch app, NoPatch := app_NoPatch app\<rparr>)\<rparr>"

definition defaults :: "Server \<Rightarrow> Server" where
  "defaults app = defaults_stream (defaults_callbacks (defaults_cors (defaults_timing app)))"

section \<open>Life cycle\<close>

definition Server_Active :: "Server \<Rightarrow> bool" where
  "Server_Active app \<longleftrightarrow> active app = 1 \<and> closing app = 0"

text \<open>\<^verbatim>\<open>waitListen\<close> up to the moment it serves; \<open>listen\<close> is the outcome of \<^verbatim>\<open>net.Listen\<close>.\<close>

definition waitListen :: "(string \<Rightarrow> string result) \<Rightarrow> Server \<Rightarrow> Server process" where
  "waitListen listen app0 =
     (let app = app0\<lparr>app_Storage :=
        MemoryStorage_Start \<lparr>OptNoBroadcastKeys = NoBroadcastKeys app0\<rparr> (app_Storage app0)\<rparr>
      in case listen (Address app) of
           Inl err \<Rightarrow> Fatal (''failed to start tcp, '' @ error_msg err)
         | Inr addr \<Rightarrow> Runs (app\<lparr>serving := True, Address := addr, active := 1\<rparr>))"

definition waitStart :: "Server \<Rightarrow> Server process" where
  "waitStart app =
     (if active app = 0 \<or> MemoryStorage_Active (app_Storage app) \<noteq> Returns True
      then Fatal ''server start failed''
      else Runs (app\<lparr>watching := watching app + nat (Workers app)\<rparr>))"

text \<open>What \<^verbatim>\<open>waitListen\<close> does when \<^verbatim>\<open>Serve\<close> returns, as it does after a shutdown.\<close>

definition Serve_returns :: "error \<Rightarrow> Server \<Rightarrow> Server process" where
  "Serve_returns err app =
     (if closing app \<noteq> 1 then Fatal (error_msg err) else Runs (app\<lparr>serving := False\<rparr>))"

definition Server_Start :: "(string \<Rightarrow> string result) \<Rightarrow> string \<Rightarrow> Server \<Rightarrow> Server process" where
  "Server_Start listen address app0 =
     (let app1 = app0\<lparr>Address := address\<rparr>
      in if active app1 = 1 then Runs app1
         else
           (let app2 = (defaults (app1\<lparr>active := 0, closing := 0\<rparr>))\<lparr>routed := True\<rparr>
            in case waitListen listen app2 of
                 Fatal m \<Rightarrow> Fatal m
               | Runs app3 \<Rightarrow>
                   (case waitStart app3 of
                      Fatal m \<Rightarrow> Fatal m
                    | Runs app4 \<Rightarrow> Runs (app4\<lparr>ticking := Suc (ticking app4)\<rparr>))))"

definition Server_Close :: "Server \<Rightarrow> Server outcome" where
  "Server_Close app0 =
     (if closing app0 \<noteq> 1 then
        (let app = app0\<lparr>closing := 1, active := 0\<rparr>
         in case MemoryStorage_Close (app_Storage app) of
              Returns db \<Rightarrow>
                (case OnClose app of
                   None \<Rightarrow> Panics NilDereference
                 | Some f \<Rightarrow>
                     Returns (app\<lparr>app_Storage := db, closed_with := closed_with app @ [f], serving := False\<rparr>))
            | Panics p \<Rightarrow> Panics p
            | Blocks \<Rightarrow> Blocks)
      else Returns app0)"

text \<open>\<^verbatim>\<open>WaitClose\<close> waits for a signal of the system and closes the server.\<close>

definition WaitClose :: "bool \<Rightarrow> Server \<Rightarrow> Server outcome" where
  "WaitClose signalled app = (if signalled then Server_Close app else Blocks)"

section \<open>The data the server serves\<close>

definition getFilteredData :: "'c codec_scheme \<Rightarrow> Server \<Rightarrow> string \<Rightarrow> string result" where
  "getFilteredData J app key =
     (let raw0 = (case MemoryStorage_Get J (app_Storage app) key of Inl err \<Rightarrow> [] | Inr data \<Rightarrow> data);
          raw = (if length raw0 = 0 then EmptyObject else raw0)
      in case router_check (Read_filters (app_filters app)) key raw (app_Static app) of
           Inl err \<Rightarrow> Inl err
         | Inr filteredData \<Rightarrow> Inr filteredData)"

definition fetch :: "'c codec_scheme \<Rightarrow> int64 \<Rightarrow> string \<Rightarrow> Server \<Rightarrow> Cache result \<times> Server" where
  "fetch J now key app =
     (case router_checkStatic (Read_filters (app_filters app)) key (app_Static app) of
        Some err \<Rightarrow> (Inl err, app)
      | None \<Rightarrow>
          (case Refresh now key (getFilteredData J app) (app_Stream app) of
             (result, sm) \<Rightarrow> (result, app\<lparr>app_Stream := sm\<rparr>)))"

section \<open>The workers\<close>

definition broadcast_opt :: "'c codec_scheme \<Rightarrow> Server \<Rightarrow> BroadcastOpt" where
  "broadcast_opt J app = \<lparr>opt_Get = getFilteredData J app, opt_Encode = Encode J, opt_Callback = False\<rparr>"

definition watch_event ::
  "('p, 'c) wire_scheme \<Rightarrow> (nat \<Rightarrow> int64) \<Rightarrow> StorageEvent \<Rightarrow> Server \<Rightarrow> Server" where
  "watch_event J now ev app =
     (if EvKey ev \<noteq> '''' then
        app\<lparr>app_Stream := Broadcast J now (broadcast_opt J app) (EvKey ev) (app_Stream app)\<rparr>
      else app)"

text \<open>
  One turn of the loop of \<^verbatim>\<open>watch\<close> in some worker: it receives the oldest event, or the zero
  event of a closed channel, and stops when the storage is not active. With nothing to receive
  there is no turn.
\<close>

definition watch_step :: "('p, 'c) wire_scheme \<Rightarrow> (nat \<Rightarrow> int64) \<Rightarrow> Server \<Rightarrow> Server option" where
  "watch_step J now app =
     (if watching app = 0 then None
      else
        (case watcher (app_Storage app) of
           Some [] \<Rightarrow> None
         | Some (ev # evs) \<Rightarrow>
             (let app1 = watch_event J now ev
                    (app\<lparr>app_Storage := (app_Storage app)\<lparr>watcher := Some evs\<rparr>\<rparr>)
              in if MemoryStorage_Active (app_Storage app1) = Returns True then Some app1
                 else Some (app1\<lparr>watching := watching app1 - 1\<rparr>))
         | None \<Rightarrow>
             (let app1 = watch_event J now \<lparr>EvKey = '''', EvOperation = ''''\<rparr> app
              in if MemoryStorage_Active (app_Storage app1) = Returns True then Some app1
                 else Some (app1\<lparr>watching := watching app1 - 1\<rparr>))))"

section \<open>The clock\<close>

definition Time :: "int64 \<Rightarrow> string" where
  "Time now = FormatInt now 10"

definition sendTime :: "int64 \<Rightarrow> Server \<Rightarrow> Server outcome" where
  "sendTime now app =
     bind_outcome (BroadcastClock (Time now) (app_Stream app)) (\<lambda>sm. Returns (app\<lparr>app_Stream := sm\<rparr>))"

text \<open>One tick of the ticker.\<close>

definition tick :: "int64 \<Rightarrow> Server \<Rightarrow> Server outcome" where
  "tick now app =
     (if Server_Active app then sendTime now app else Returns (app\<lparr>ticking := ticking app - 1\<rparr>))"

section \<open>Spawned calls\<close>

fun run_goroutine :: "goroutine \<Rightarrow> Server \<Rightarrow> Server" where
  "run_goroutine (WriteInitial client data snapshot version) app =
     app\<lparr>app_Stream := Stream_Write client data snapshot version (app_Stream app)\<rparr>"
| "run_goroutine (WriteTime client data) app =
     app\<lparr>app_Stream := WriteClock client data (app_Stream app)\<rparr>"


text \<open>The scheduler runs the spawned call at some index.\<close>

definition run_spawned :: "nat \<Rightarrow> Server \<Rightarrow> Server option" where
  "run_spawned i app =
     (if i < length (spawned app) then
        Some (run_goroutine (spawned app ! i)
          (app\<lparr>spawned := take i (spawned app) @ drop (Suc i) (spawned app)\<rparr>))
      else None)"

end
