(* ===== verification/Rest.thy ===== *)
theory Rest
  imports Server
begin

text \<open>
  \<^verbatim>\<open>src/rest.go\<close>, \<^verbatim>\<open>src/ws.go\<close> and the clock handler of \<^verbatim>\<open>src/clock.go\<close>: the
  HTTP handlers. A handler takes the request and the server and gives the response and the new server.
  A response is written once: a \<open>Reply\<close> has its status, content type and body; after an upgrade the
  connection is a websocket and later writes to the response are dropped; \<open>UpgradeRefused\<close> is the
  reply of \<^verbatim>\<open>gorilla/websocket\<close> to a failed handshake. A handler that reads from a websocket
  until it closes is split in two: its return here starts the reading, and \<open>hangup\<close> ends it. The
  body is what the handler writes, whether or not the status allows the peer to see it, and the
  deadline of \<^verbatim>\<open>http.TimeoutHandler\<close> does not pass.
\<close>

datatype response =
    Reply nat "string option" string
  | Upgraded Conn
  | UpgradeRefused

abbreviation "StatusOK \<equiv> 200 :: nat"
abbreviation "StatusNoContent \<equiv> 204 :: nat"
abbreviation "StatusBadRequest \<equiv> 400 :: nat"
abbreviation "StatusUnauthorized \<equiv> 401 :: nat"
abbreviation "StatusNotFound \<equiv> 404 :: nat"
abbreviation "StatusInternalServerError \<equiv> 500 :: nat"

text \<open>
  The routes are installed by \<^verbatim>\<open>Start\<close> after \<^verbatim>\<open>defaults\<close>, which replaces a nil audit
  by one that accepts every request; a nil audit is read the same way here.
\<close>

definition audit_ok :: "Server \<Rightarrow> request \<Rightarrow> bool" where
  "audit_ok app r = (case Audit app of None \<Rightarrow> True | Some audit \<Rightarrow> audit r)"

definition unauthorized :: response where
  "unauthorized = Reply StatusUnauthorized None ''katamari: this request is not authorized''"

definition key_not_valid :: response where
  "key_not_valid = Reply StatusBadRequest None ''katamari: pathKeyError key is not valid''"

section \<open>Websockets\<close>

text \<open>\<^verbatim>\<open>ws\<close>: the error it returns, what has been written to the response, and the server.\<close>

definition Server_ws ::
  "'c codec_scheme \<Rightarrow> int64 \<Rightarrow> request \<Rightarrow> Server \<Rightarrow> error option \<times> response option \<times> Server"
where
  "Server_ws J now r app0 =
     (let key = req_key r;
          version = req_v r
      in case router_checkStatic (Read_filters (app_filters app0)) key (app_Static app0) of
           Some err \<Rightarrow> (Some err, None, app0)
         | None \<Rightarrow>
             (case Stream_New key (req_upgrade r) (app_Stream app0) of
                (Inl err, sm) \<Rightarrow>
                  (Some err, if OnSubscribe (app_Stream app0) key = None then Some UpgradeRefused else None,
                   app0\<lparr>app_Stream := sm\<rparr>)
              | (Inr client, sm) \<Rightarrow>
                  (case fetch J now key (app0\<lparr>app_Stream := sm\<rparr>) of
                     (Inl err, app) \<Rightarrow> (Some err, Some (Upgraded client), app)
                   | (Inr entry, app) \<Rightarrow>
                       (None, Some (Upgraded client),
                        if version \<noteq> FormatInt (Version entry) 16
                        then app\<lparr>spawned := spawned app @
                          [WriteInitial client (Encode J (CacheData entry)) True (Version entry)]\<rparr>
                        else app))))"

definition Server_clock :: "int64 \<Rightarrow> request \<Rightarrow> Server \<Rightarrow> response \<times> Server" where
  "Server_clock now r app =
     (if \<not> audit_ok app r then (unauthorized, app)
      else
        (case Stream_New '''' (req_upgrade r) (app_Stream app) of
           (Inl err, sm) \<Rightarrow>
             (if OnSubscribe (app_Stream app) '''' = None then UpgradeRefused else Reply StatusOK None '''',
              app\<lparr>app_Stream := sm\<rparr>)
         | (Inr client, sm) \<Rightarrow>
             (Upgraded client,
              app\<lparr>app_Stream := sm, spawned := spawned app @ [WriteTime client (Time now)]\<rparr>)))"

text \<open>The end of \<^verbatim>\<open>Read\<close>: the peer is gone, and the stream closes the connection.\<close>

definition hangup :: "string \<Rightarrow> Conn \<Rightarrow> Server \<Rightarrow> Server outcome" where
  "hangup key client app =
     bind_outcome (Stream_Close key client (app_Stream app)) (\<lambda>sm. Returns (app\<lparr>app_Stream := sm\<rparr>))"

section \<open>The handlers\<close>

definition getStats ::
  "(string \<Rightarrow> string) \<Rightarrow> 'c codec_scheme \<Rightarrow> int64 \<Rightarrow> request \<Rightarrow> Server \<Rightarrow> response \<times> Server" where
  "getStats unicode_lower J now r app =
     (if req_websocket r then Server_clock now r app
      else if \<not> audit_ok app r then (unauthorized, app)
      else
        (case MemoryStorage_Keys unicode_lower J (app_Storage app) of
           Inl err \<Rightarrow> (Reply StatusInternalServerError None (error_msg err), app)
         | Inr stats \<Rightarrow> (Reply StatusOK (Some ''application/json'') stats, app)))"

text \<open>The key test of \<^verbatim>\<open>publish\<close>: valid, and at most one star, at the end.\<close>

definition publishable :: "string \<Rightarrow> bool" where
  "publishable vkey =
     (let count = strings_Count vkey star; place = strings_Index vkey star
      in \<not> (\<not> IsValid vkey \<or> 1 < count \<or> (count = 1 \<and> place \<noteq> int (length vkey) - 1)))"

text \<open>\<^verbatim>\<open>Set\<close> of the default storage never returns an error, so the branch for one is not there.\<close>

definition publish ::
  "('p, 'c) wire_scheme \<Rightarrow> int64 \<Rightarrow> int64 \<Rightarrow> request \<Rightarrow> Server \<Rightarrow> (response \<times> Server) outcome"
where
  "publish J build_now set_now r app =
     (let vkey = req_key r;
          decoded = DecodeReader J (req_body r)
      in if \<not> publishable vkey then Returns (key_not_valid, app)
         else if \<not> audit_ok app r then Returns (unauthorized, app)
         else
           (case decoded of
              Inl err \<Rightarrow> Returns (Reply StatusBadRequest None (error_msg err), app)
            | Inr event \<Rightarrow>
                (let key = Build build_now vkey
                 in case router_check (Write_filters (app_filters app)) key (MsgData event) (app_Static app) of
                      Inl err \<Rightarrow> Returns (Reply StatusBadRequest None (error_msg err), app)
                    | Inr data \<Rightarrow>
                        bind_outcome (MemoryStorage_Set J set_now (app_Storage app) key data)
                          (\<lambda>(index, db).
                             Returns
                               (Reply StatusOK (Some ''application/json'')
                                  (''{'' @ [CHR 0x22] @ ''index'' @ [CHR 0x22] @ '': '' @ [CHR 0x22] @ index @
                                   [CHR 0x22] @ ''}''),
                                app\<lparr>app_Storage := db,
                                    notified := notified app @ watchers_check (After_filters (app_filters app)) key\<rparr>)))))"

definition read ::
  "'c codec_scheme \<Rightarrow> int64 \<Rightarrow> request \<Rightarrow> Server \<Rightarrow> response \<times> Server" where
  "read J now r app =
     (let key = req_key r
      in if \<not> IsValid key then (key_not_valid, app)
         else if \<not> audit_ok app r then (unauthorized, app)
         else if req_websocket r then
           (case Server_ws J now r app of
              (err, written, app1) \<Rightarrow>
                (case written of
                   Some answer \<Rightarrow> (answer, app1)
                 | None \<Rightarrow> (Reply (if err = None then StatusOK else StatusBadRequest) None '''', app1)))
         else
           (case fetch J now key app of
              (Inl err, app1) \<Rightarrow> (Reply StatusBadRequest None (error_msg err), app1)
            | (Inr entry, app1) \<Rightarrow>
                if CacheData entry = EmptyObject
                then (Reply StatusNotFound None ''katamari: empty key'', app1)
                else (Reply StatusOK (Some ''application/json'') (CacheData entry), app1)))"

definition unpublish :: "request \<Rightarrow> Server \<Rightarrow> (response \<times> Server) outcome" where
  "unpublish r app =
     (let key = req_key r
      in if \<not> IsValid key then Returns (key_not_valid, app)
         else if \<not> audit_ok app r then Returns (unauthorized, app)
         else
           (case hooks_check (Delete_filters (app_filters app)) key (app_Static app) of
              Some err \<Rightarrow> Returns (Reply StatusBadRequest None (error_msg err), app)
            | None \<Rightarrow>
                bind_outcome (MemoryStorage_Del (app_Storage app) key)
                  (\<lambda>(err, db).
                     Returns
                       (case err of
                          Some e \<Rightarrow>
                            (if error_msg e = ''leveldb: not found'' \<or> error_msg e = ''katamari: not found''
                             then Reply StatusNotFound None (error_msg e)
                             else Reply StatusInternalServerError None (error_msg e),
                             app\<lparr>app_Storage := db\<rparr>)
                        | None \<Rightarrow>
                            (Reply StatusNoContent None (''unpublish '' @ key), app\<lparr>app_Storage := db\<rparr>)))))"

end
