(* ===== verification/ServerFacts.thy ===== *)
theory ServerFacts
  imports Rest
begin

text \<open>
  What the server's operations do on each of their branches: the defaults, the life cycle, the
  reads through the filters, and the handlers.
\<close>

section \<open>Defaults\<close>

lemma default_int_idem [simp]: "default_int (default_int v d) d = default_int v d"
  by (simp add: default_int_def)

lemma default_list_idem [simp]: "default_list (default_list v d) d = default_list v d"
  by (simp add: default_list_def)

lemma default_fn_Some [simp]: "default_fn (Some f) d = Some f"
  by (simp add: default_fn_def)

lemma default_fn_set: "\<exists>f. default_fn v d = Some f"
  by (auto simp: default_fn_def)

lemma InitClock_idem [simp]: "InitClock (InitClock sm) = InitClock sm"
  by (simp add: InitClock_def)

lemma InitClock_pools: "pools sm \<noteq> [] \<Longrightarrow> InitClock sm = sm"
  by (simp add: InitClock_def)

lemma InitClock_ok:
  "pools sm = [] \<or> stream_ok sm \<Longrightarrow> stream_ok (InitClock sm)"
  by (auto simp: InitClock_def stream_ok_def pool_conns_def)

text \<open>What \<^verbatim>\<open>defaults\<close> leaves in the fields later code reads.\<close>

lemma defaults_fields:
  "Audit (defaults app) = default_fn (Audit app) (\<lambda>r. True)"
  "OnClose (defaults app) = default_fn (OnClose app) NoCallback"
  "Workers (defaults app) = default_int (Workers app) 6"
  "app_Storage (defaults app) = app_Storage app"
  "app_filters (defaults app) = app_filters app"
  "app_Static (defaults app) = app_Static app"
  "NoBroadcastKeys (defaults app) = NoBroadcastKeys app"
  "Address (defaults app) = Address app"
  "active (defaults app) = active app"
  "closing (defaults app) = closing app"
  "watching (defaults app) = watching app"
  "ticking (defaults app) = ticking app"
  "spawned (defaults app) = spawned app"
  "NoPatch (app_Stream (defaults app)) = app_NoPatch app"
  "ForcePatch (app_Stream (defaults app)) = app_ForcePatch app"
  by (simp_all add: defaults_def defaults_timing_def defaults_cors_def defaults_callbacks_def
      defaults_stream_def Let_def InitClock_def)

lemma defaults_stream_ok:
  assumes "pools (app_Stream app) = [] \<or> stream_ok (app_Stream app)"
  shows "stream_ok (app_Stream (defaults app))"
proof -
  have "pools (app_Stream app\<lparr>OnSubscribe := f, ForcePatch := b, NoPatch := c\<rparr>) = [] \<or>
      stream_ok (app_Stream app\<lparr>OnSubscribe := f, ForcePatch := b, NoPatch := c\<rparr>)" for f b c
    using assms by (auto simp: stream_ok_def)
  then show ?thesis
    by (simp add: defaults_def defaults_timing_def defaults_cors_def defaults_callbacks_def
        defaults_stream_def Let_def InitClock_ok)
qed

lemma defaults_idem_lemma: "defaults (defaults app) = defaults app"
proof -
  obtain s where s: "default_fn (app_OnSubscribe app) (\<lambda>key. None) = Some s" using default_fn_set by metis
  obtain u where u: "default_fn (app_OnUnsubscribe app) NoCallback = Some u" using default_fn_set by metis
  obtain ss where ss: "default_fn (stream_OnSubscribe app) s = Some ss" using default_fn_set by metis
  obtain su where su: "default_fn (stream_OnUnsubscribe app) u = Some su" using default_fn_set by metis
  obtain c where c: "default_fn (OnClose app) NoCallback = Some c" using default_fn_set by metis
  obtain a where a: "default_fn (Audit app) (\<lambda>r. True) = Some a" using default_fn_set by metis
  show ?thesis
    by (simp add: defaults_def defaults_timing_def defaults_cors_def defaults_callbacks_def
        defaults_stream_def Let_def s u ss su c a InitClock_def)
qed

section \<open>Life cycle\<close>

definition server_ok :: "'c codec_scheme \<Rightarrow> Server \<Rightarrow> bool" where
  "server_ok J app \<longleftrightarrow>
     object_law J \<and> objects_law J \<and>
     (pools (app_Stream app) = [] \<or> stream_ok (app_Stream app)) \<and> mem_ok J (mem (app_Storage app))"

definition server_up :: "'c codec_scheme \<Rightarrow> Server \<Rightarrow> bool" where
  "server_up J app \<longleftrightarrow>
     stream_ok (app_Stream app) \<and> storage_ready J (app_Storage app) \<and> Server_Active app"

lemma Start_up:
  assumes ok: "server_ok J app" and idle: "active app \<noteq> 1" and listen: "listen address = Inr bound"
  shows "\<exists>app'. Server_Start listen address app = Runs app' \<and> server_up J app' \<and>
    Address app' = bound \<and> watching app' = watching app + nat (default_int (Workers app) 6) \<and>
    mem (app_Storage app') = mem (app_Storage app) \<and> app_filters app' = app_filters app \<and>
    app_Static app' = app_Static app \<and> Audit app' = default_fn (Audit app) (\<lambda>r. True) \<and>
    noBroadcastKeys (app_Storage app') = NoBroadcastKeys app \<and>
    OnClose app' = default_fn (OnClose app) NoCallback"
proof -
  let ?app1 = "(app\<lparr>Address := address, active := 0, closing := 0\<rparr>)"
  let ?app2 = "(defaults ?app1)\<lparr>routed := True\<rparr>"
  let ?db = "MemoryStorage_Start \<lparr>OptNoBroadcastKeys = NoBroadcastKeys app\<rparr> (app_Storage app)"
  have st: "started ?db" by (rule Start_started)
  then have act: "MemoryStorage_Active ?db = Returns True"
    by (auto simp: started_def MemoryStorage_Active_def)
  have nb: "noBroadcastKeys ?db = NoBroadcastKeys app"
    by (simp add: MemoryStorage_Start_def Let_def)
  have sm: "stream_ok (app_Stream ?app2)"
    using ok defaults_stream_ok [of ?app1] by (simp add: server_ok_def)
  have wl: "waitListen listen ?app2 =
      Runs (?app2\<lparr>app_Storage := ?db, serving := True, Address := bound, active := 1\<rparr>)"
    using listen by (simp add: waitListen_def Let_def defaults_fields)
  have ready: "storage_ready J ?db"
    using ok st by (simp add: storage_ready_def server_ok_def Start_frame)
  have run: "Server_Start listen address app =
      Runs (?app2\<lparr>app_Storage := ?db, serving := True, Address := bound, active := 1,
        watching := watching app + nat (default_int (Workers app) 6), ticking := Suc (ticking app)\<rparr>)"
    using idle act by (simp add: Server_Start_def Let_def wl waitStart_def defaults_fields)
  show ?thesis
    unfolding run using sm ready nb
    by (simp add: server_up_def Server_Active_def defaults_fields Start_frame)
qed

lemma Start_active: "active app = 1 \<Longrightarrow> Server_Start listen address app = Runs (app\<lparr>Address := address\<rparr>)"
  by (simp add: Server_Start_def)

lemma Close_up:
  assumes "server_up J app" "OnClose app = Some f"
  shows "\<exists>app'. Server_Close app = Returns app' \<and> \<not> Server_Active app' \<and> closing app' = 1 \<and>
    closed_with app' = closed_with app @ [f] \<and> mem (app_Storage app') = mem (app_Storage app) \<and>
    MemoryStorage_Active (app_Storage app') = Returns False \<and> watcher (app_Storage app') = None \<and>
    app_Stream app' = app_Stream app \<and> watching app' = watching app"
proof -
  have "started (app_Storage app)" "closing app \<noteq> 1"
    using assms(1) by (auto simp: server_up_def storage_ready_def Server_Active_def)
  with Close_started obtain db where "MemoryStorage_Close (app_Storage app) = Returns db"
      "mem db = mem (app_Storage app)" "MemoryStorage_Active db = Returns False" "watcher db = None"
    by blast
  with assms(2) \<open>closing app \<noteq> 1\<close> show ?thesis
    by (simp add: Server_Close_def Server_Active_def)
qed

lemma Close_again: "closing app = 1 \<Longrightarrow> Server_Close app = Returns app"
  by (simp add: Server_Close_def)

section \<open>Reading through the filters\<close>

text \<open>The bytes behind a key, before the read filters: what the storage has, or the empty object.\<close>

definition raw_data :: "'c codec_scheme \<Rightarrow> MemoryStorage \<Rightarrow> string \<Rightarrow> string" where
  "raw_data J db key =
     (case MemoryStorage_Get J db key of
        Inl err \<Rightarrow> EmptyObject
      | Inr data \<Rightarrow> if data = [] then EmptyObject else data)"

lemma getFilteredData_raw:
  "getFilteredData J app key =
     router_check (Read_filters (app_filters app)) key (raw_data J (app_Storage app) key) (app_Static app)"
  by (auto simp: getFilteredData_def raw_data_def Let_def split: sum.splits)

lemma EmptyObject_not_Nil [simp]: "EmptyObject \<noteq> []"
  by (simp add: EmptyObject_def)

lemma raw_data_not_Nil [simp]: "raw_data J db key \<noteq> []"
  by (auto simp: raw_data_def split: sum.splits)

lemma getFilteredData_cong:
  assumes "raw_data J (app_Storage app') key = raw_data J (app_Storage app) key"
    "app_filters app' = app_filters app" "app_Static app' = app_Static app"
  shows "getFilteredData J app' key = getFilteredData J app key"
  using assms by (simp add: getFilteredData_raw)

definition document_of :: "string \<Rightarrow> string" where
  "document_of raw = (if raw = [] then EmptyObject else raw)"

lemma document_of_not_Nil [simp]: "document_of raw \<noteq> []"
  by (simp add: document_of_def)

lemma broadcast_opt_get [simp]: "opt_Get (broadcast_opt J app) = getFilteredData J app"
  and broadcast_opt_encode [simp]: "opt_Encode (broadcast_opt J app) = Encode J"
  by (simp_all add: broadcast_opt_def)

text \<open>\<^verbatim>\<open>fetch\<close> answers with the current data, whatever the cache holds.\<close>

lemma fetch_static:
  "router_checkStatic (Read_filters (app_filters app)) key (app_Static app) = Some err \<Longrightarrow>
     fetch J now key app = (Inl err, app)"
  by (simp add: fetch_def)

lemma Refresh_data:
  "fst (Refresh now path get sm) =
     (case get path of
        Inl err \<Rightarrow> Inl err
      | Inr raw \<Rightarrow> Inr \<lparr>Version = (case GetCacheVersion path sm of Inl err \<Rightarrow> now | Inr v \<Rightarrow> v),
                       CacheData = document_of raw\<rparr>)"
  by (simp add: Refresh_def Let_def document_of_def Stream_setCache_def split: sum.split)

lemma fetch_data:
  assumes "router_checkStatic (Read_filters (app_filters app)) key (app_Static app) = None"
  shows "fetch J now key app =
    ((case getFilteredData J app key of
        Inl err \<Rightarrow> Inl err
      | Inr raw \<Rightarrow> Inr \<lparr>Version = (case GetCacheVersion key (app_Stream app) of Inl err \<Rightarrow> now | Inr v \<Rightarrow> v),
                       CacheData = document_of raw\<rparr>),
     app\<lparr>app_Stream := snd (Refresh now key (getFilteredData J app) (app_Stream app))\<rparr>)"
  using assms Refresh_data [of now key "getFilteredData J app" "app_Stream app"]
  by (cases "Refresh now key (getFilteredData J app) (app_Stream app)") (simp add: fetch_def)

section \<open>Publishing\<close>

text \<open>What a publish request that passes every guard does.\<close>

definition index_body :: "string \<Rightarrow> string" where
  "index_body index =
     ''{'' @ [CHR 0x22] @ ''index'' @ [CHR 0x22] @ '': '' @ [CHR 0x22] @ index @ [CHR 0x22] @ ''}''"

lemma publishable_iff:
  "publishable key \<longleftrightarrow>
     IsValid key \<and> (star \<in> set key \<longrightarrow> (\<exists>p. key = p @ [star] \<and> star \<notin> set p))"
proof (cases "star \<in> set key")
  case False
  then show ?thesis by (simp add: publishable_def Let_def strings_Count_zero [THEN iffD2])
next
  case True
  then obtain a b where ab: "key = a @ star # b" "star \<notin> set a"
    using split_list_first by metis
  have count: "strings_Count key star = Suc (strings_Count b star)"
    using ab by simp
  have index: "strings_Index key star = int (length a)"
    using ab by (simp add: strings_Index_append)
  have len: "int (length key) - 1 = int (length a) + int (length b)"
    using ab by simp
  have "(1 < Suc (strings_Count b star) \<or> (Suc (strings_Count b star) = 1 \<and>
      int (length a) \<noteq> int (length a) + int (length b))) \<longleftrightarrow> b \<noteq> []"
    by (cases "strings_Count b star") auto
  then have "publishable key \<longleftrightarrow> IsValid key \<and> b = []"
    unfolding publishable_def Let_def count index len by blast
  moreover have "(\<exists>p. key = p @ [star] \<and> star \<notin> set p) \<longleftrightarrow> b = []"
  proof
    assume "\<exists>p. key = p @ [star] \<and> star \<notin> set p"
    then obtain p where "a @ star # b = p @ star # []" "star \<notin> set p" using ab by auto
    then show "b = []" using first_separator_unique [OF ab(2)] by blast
  qed (use ab in auto)
  ultimately show ?thesis using True by simp
qed

lemma publish_stores:
  assumes ready: "storage_ready J (app_Storage app)"
    and guards: "publishable (req_key r)" "audit_ok app r" "DecodeReader J (req_body r) = Inr event"
    and written: "router_check (Write_filters (app_filters app)) (Build build_now (req_key r))
      (MsgData event) (app_Static app) = Inr data"
    and safe: "storable (Build build_now (req_key r)) data"
  shows "\<exists>db. publish J build_now set_now r app =
      Returns (Reply StatusOK (Some ''application/json'')
          (index_body (LastIndex (Build build_now (req_key r)))),
        app\<lparr>app_Storage := db,
          notified := notified app @ watchers_check (After_filters (app_filters app)) (Build build_now (req_key r))\<rparr>) \<and>
    MemoryStorage_Set J set_now (app_Storage app) (Build build_now (req_key r)) data =
      Returns (LastIndex (Build build_now (req_key r)), db) \<and>
    storage_ready J db \<and>
    mem_contents J db = spec_op (OpSet set_now (Build build_now (req_key r)) data) (mem_contents J (app_Storage app)) \<and>
    mem_muted db = mem_muted (app_Storage app) \<and>
    mem_pending db = mem_pending (app_Storage app) @
      spec_event (mem_muted (app_Storage app)) (OpSet set_now (Build build_now (req_key r)) data)
        (mem_contents J (app_Storage app))"
proof -
  obtain db where db: "MemoryStorage_Set J set_now (app_Storage app) (Build build_now (req_key r)) data =
      Returns (LastIndex (Build build_now (req_key r)), db)"
      "storage_ready J db"
      "mem_contents J db = spec_op (OpSet set_now (Build build_now (req_key r)) data) (mem_contents J (app_Storage app))"
      "mem_muted db = mem_muted (app_Storage app)"
      "mem_pending db = mem_pending (app_Storage app) @
        spec_event (mem_muted (app_Storage app)) (OpSet set_now (Build build_now (req_key r)) data)
        (mem_contents J (app_Storage app))"
    using memory.set_spec [OF ready safe, of set_now] by blast
  have "publish J build_now set_now r app =
      Returns (Reply StatusOK (Some ''application/json'')
          (index_body (LastIndex (Build build_now (req_key r)))),
        app\<lparr>app_Storage := db,
          notified := notified app @ watchers_check (After_filters (app_filters app)) (Build build_now (req_key r))\<rparr>)"
    using guards written by (simp add: publish_def Let_def db(1) index_body_def)
  with db show ?thesis by blast
qed

text \<open>The three refusals, in the order of the source, and the refusal of the write filter.\<close>

lemma publish_refused:
  "\<not> publishable (req_key r) \<Longrightarrow> publish J b n r app = Returns (key_not_valid, app)"
  "publishable (req_key r) \<Longrightarrow> \<not> audit_ok app r \<Longrightarrow> publish J b n r app = Returns (unauthorized, app)"
  "publishable (req_key r) \<Longrightarrow> audit_ok app r \<Longrightarrow> DecodeReader J (req_body r) = Inl err \<Longrightarrow>
     publish J b n r app = Returns (Reply StatusBadRequest None (error_msg err), app)"
  "publishable (req_key r) \<Longrightarrow> audit_ok app r \<Longrightarrow> DecodeReader J (req_body r) = Inr event \<Longrightarrow>
     router_check (Write_filters (app_filters app)) (Build b (req_key r)) (MsgData event) (app_Static app) = Inl err \<Longrightarrow>
     publish J b n r app = Returns (Reply StatusBadRequest None (error_msg err), app)"
  by (simp_all add: publish_def Let_def)

section \<open>Deleting\<close>

lemma unpublish_refused:
  "\<not> IsValid (req_key r) \<Longrightarrow> unpublish r app = Returns (key_not_valid, app)"
  "IsValid (req_key r) \<Longrightarrow> \<not> audit_ok app r \<Longrightarrow> unpublish r app = Returns (unauthorized, app)"
  "IsValid (req_key r) \<Longrightarrow> audit_ok app r \<Longrightarrow>
     hooks_check (Delete_filters (app_filters app)) (req_key r) (app_Static app) = Some err \<Longrightarrow>
     unpublish r app = Returns (Reply StatusBadRequest None (error_msg err), app)"
  by (simp_all add: unpublish_def Let_def)

lemma unpublish_deletes:
  assumes ready: "storage_ready J (app_Storage app)"
    and guards: "IsValid (req_key r)" "audit_ok app r"
      "hooks_check (Delete_filters (app_filters app)) (req_key r) (app_Static app) = None"
  shows "\<exists>db. unpublish r app =
      Returns
        (if star \<notin> set (req_key r) \<and> mem_contents J (app_Storage app) (req_key r) = None
         then Reply StatusNotFound None ''katamari: not found''
         else Reply StatusNoContent None (''unpublish '' @ req_key r),
         app\<lparr>app_Storage := db\<rparr>) \<and>
    (\<exists>err. MemoryStorage_Del (app_Storage app) (req_key r) = Returns (err, db)) \<and>
    storage_ready J db \<and>
    mem_contents J db = spec_op (OpDel (req_key r)) (mem_contents J (app_Storage app)) \<and>
    mem_muted db = mem_muted (app_Storage app) \<and>
    mem_pending db = mem_pending (app_Storage app) @
      spec_event (mem_muted (app_Storage app)) (OpDel (req_key r)) (mem_contents J (app_Storage app))"
proof -
  obtain db where db: "MemoryStorage_Del (app_Storage app) (req_key r) =
        Returns (if star \<notin> set (req_key r) \<and> mem_contents J (app_Storage app) (req_key r) = None
          then Some not_found else None, db)"
      "storage_ready J db"
      "mem_contents J db = spec_op (OpDel (req_key r)) (mem_contents J (app_Storage app))"
      "mem_muted db = mem_muted (app_Storage app)"
      "mem_pending db = mem_pending (app_Storage app) @
        spec_event (mem_muted (app_Storage app)) (OpDel (req_key r)) (mem_contents J (app_Storage app))"
    using memory.del_spec [OF ready, of "req_key r"] by blast
  have "unpublish r app =
      Returns
        (if star \<notin> set (req_key r) \<and> mem_contents J (app_Storage app) (req_key r) = None
         then Reply StatusNotFound None ''katamari: not found''
         else Reply StatusNoContent None (''unpublish '' @ req_key r),
         app\<lparr>app_Storage := db\<rparr>)"
    using guards by (simp add: unpublish_def Let_def db(1) not_found_def)
  with db show ?thesis by blast
qed

section \<open>Reading\<close>

lemma read_refused:
  "\<not> IsValid (req_key r) \<Longrightarrow> read J now r app = (key_not_valid, app)"
  "IsValid (req_key r) \<Longrightarrow> \<not> audit_ok app r \<Longrightarrow> read J now r app = (unauthorized, app)"
  by (simp_all add: read_def Let_def)

lemma read_answers:
  assumes "IsValid (req_key r)" "audit_ok app r" "\<not> req_websocket r"
    and "router_checkStatic (Read_filters (app_filters app)) (req_key r) (app_Static app) = None"
    and "getFilteredData J app (req_key r) = Inr raw"
  shows "fst (read J now r app) =
    (if document_of raw = EmptyObject then Reply StatusNotFound None ''katamari: empty key''
     else Reply StatusOK (Some ''application/json'') (document_of raw))"
  using assms by (simp add: read_def Let_def fetch_data)

end
