(* ===== verification/System.thy ===== *)
theory System
  imports ServerFacts
begin

text \<open>
  The running server as a step relation: requests, worker turns, clock ticks, spawned calls and
  lost connections, in any order. Each step is one atomic handler. The invariants are proved by rule
  induction: the server stays up, and a pool's cache is the current data of its key unless an event
  that concerns it is still waiting (\<open>fresh\<close>). With the subscribers of \<open>Subscription\<close> this
  gives convergence: once no event waits, a connected subscriber has the current document.
\<close>

section \<open>Steps\<close>

datatype server_label =
    Publish int64 int64 request
  | Unpublish request
  | Read int64 request
  | Stats int64 request
  | Work "nat \<Rightarrow> int64"
  | Tick_clock int64
  | Run nat
  | Hangup string Conn
  | Lose Conn

inductive server_step ::
  "(string \<Rightarrow> string) \<Rightarrow> ('p, 'c) wire_scheme \<Rightarrow> server_label \<Rightarrow> Server \<Rightarrow> Server \<Rightarrow> bool"
  for ul J
where
  step_publish: "publish J b n r app = Returns (resp, app') \<Longrightarrow> server_step ul J (Publish b n r) app app'"
| step_unpublish: "unpublish r app = Returns (resp, app') \<Longrightarrow> server_step ul J (Unpublish r) app app'"
| step_read: "read J now r app = (resp, app') \<Longrightarrow> server_step ul J (Read now r) app app'"
| step_stats: "getStats ul J now r app = (resp, app') \<Longrightarrow> server_step ul J (Stats now r) app app'"
| step_work: "watch_step J nows app = Some app' \<Longrightarrow> server_step ul J (Work nows) app app'"
| step_tick: "tick now app = Returns app' \<Longrightarrow> server_step ul J (Tick_clock now) app app'"
| step_run: "run_spawned i app = Some app' \<Longrightarrow> server_step ul J (Run i) app app'"
| step_hangup: "hangup key client app = Returns app' \<Longrightarrow> server_step ul J (Hangup key client) app app'"
| step_lose:
    "app' = app\<lparr>app_Stream := lose_peer client (app_Stream app)\<rparr> \<Longrightarrow>
     server_step ul J (Lose client) app app'"

inductive_simps server_step_simps:
  "server_step ul J (Publish b n r) app app'"
  "server_step ul J (Unpublish r) app app'"
  "server_step ul J (Read now r) app app'"
  "server_step ul J (Stats now r) app app'"
  "server_step ul J (Work nows) app app'"
  "server_step ul J (Tick_clock now) app app'"
  "server_step ul J (Run i) app app'"
  "server_step ul J (Hangup key client) app app'"
  "server_step ul J (Lose client) app app'"

text \<open>Histories whose every step meets a condition of the environment.\<close>

inductive reaches ::
  "(string \<Rightarrow> string) \<Rightarrow> ('p, 'c) wire_scheme \<Rightarrow> (server_label \<Rightarrow> Server \<Rightarrow> bool) \<Rightarrow> Server \<Rightarrow> Server \<Rightarrow> bool"
  for ul J env
where
  reaches_refl: "reaches ul J env app app"
| reaches_step:
    "reaches ul J env app app1 \<Longrightarrow> env l app1 \<Longrightarrow> server_step ul J l app1 app2 \<Longrightarrow> reaches ul J env app app2"

lemma reaches_invariant:
  assumes "reaches ul J env app app'" "I app"
    and "\<And>l a b. I a \<Longrightarrow> env l a \<Longrightarrow> server_step ul J l a b \<Longrightarrow> I b"
  shows "I app'"
  using assms by (induction rule: reaches.induct) blast+

text \<open>Histories compose.\<close>

lemma reaches_trans:
  assumes "reaches ul J env a b" "reaches ul J env b c"
  shows "reaches ul J env a c"
  using assms(2,1) by (induction rule: reaches.induct) (auto intro: reaches.intros)

text \<open>
  What the environment has to keep to: stored data are texts JSON writes unescaped (base64 is),
  and a deleted pattern concerns no stored key of a pool that does not get the event.
\<close>

definition crosses :: "string \<Rightarrow> string \<Rightarrow> MemoryStorage \<Rightarrow> bool" where
  "crosses pool_key deleted db \<longleftrightarrow>
     \<not> Peer pool_key deleted \<and>
     list_ex (\<lambda>kv. Match deleted (fst kv) \<and> Match pool_key (fst kv)) (mem db)"

fun benign :: "('p, 'c) wire_scheme \<Rightarrow> server_label \<Rightarrow> Server \<Rightarrow> bool" where
  "benign J (Publish b n r) app \<longleftrightarrow>
     (case DecodeReader J (req_body r) of
        Inl err \<Rightarrow> True
      | Inr event \<Rightarrow>
          (case router_check (Write_filters (app_filters app)) (Build b (req_key r)) (MsgData event) (app_Static app) of
             Inl err \<Rightarrow> True
           | Inr data \<Rightarrow> json_safe data))"
| "benign J (Unpublish r) app \<longleftrightarrow>
     list_all (\<lambda>p. \<not> crosses (PoolKey p) (req_key r) (app_Storage app)) (tl (pools (app_Stream app)))"
| "benign J l app \<longleftrightarrow> True"

section \<open>What a step does to the storage and to the stream\<close>

text \<open>What a pool shows depends on the entries its key matches only.\<close>

abbreviation seen_by :: "string \<Rightarrow> (string \<times> string) list \<Rightarrow> (string \<times> string) list" where
  "seen_by key m \<equiv> filter (\<lambda>kv. Match key (fst kv)) m"

lemma Get_visit_seen_by: "Get_visit decode key m = Get_visit decode key (seen_by key m)"
  by (induction m) (auto split: sum.splits)

lemma map_of_seen_by: "map_of m key = map_of (seen_by key m) key"
  by (induction m) auto

lemma Get_cong:
  "seen_by key (mem db') = seen_by key (mem db) \<Longrightarrow> MemoryStorage_Get J db' key = MemoryStorage_Get J db key"
  using Get_visit_seen_by [of "DecodeRaw J" key "mem db"] Get_visit_seen_by [of "DecodeRaw J" key "mem db'"]
    map_of_seen_by [of "mem db" key] map_of_seen_by [of "mem db'" key]
  by (simp add: MemoryStorage_Get_def)

lemma raw_data_cong:
  "seen_by key (mem db') = seen_by key (mem db) \<Longrightarrow> raw_data J db' key = raw_data J db key"
  using Get_cong [of key db' db J] by (simp add: raw_data_def)

lemma seen_by_update: "\<not> Match key path \<Longrightarrow> seen_by key (AList.update path v m) = seen_by key m"
  by (induction m) auto

lemma seen_by_delete: "\<not> Match key path \<Longrightarrow> seen_by key (AList.delete path m) = seen_by key m"
  by (induction m) (auto simp: AList.delete_eq)

lemma seen_by_fold_delete:
  "\<forall>kv \<in> set kvs. P (fst kv) \<longrightarrow> \<not> Match key (fst kv) \<Longrightarrow>
     seen_by key (fold (\<lambda>kv m. if P (fst kv) then AList.delete (fst kv) m else m) kvs m) = seen_by key m"
  by (induction kvs arbitrary: m) (auto simp: seen_by_delete)

text \<open>The outcomes of the handlers, as far as the state is concerned.\<close>

lemma publish_cases:
  assumes "publish J b n r app = Returns (resp, app')"
  obtains (refused) "app' = app"
  | (stored) event data index db where "publishable (req_key r)" "DecodeReader J (req_body r) = Inr event"
      "router_check (Write_filters (app_filters app)) (Build b (req_key r)) (MsgData event) (app_Static app) = Inr data"
      "MemoryStorage_Set J n (app_Storage app) (Build b (req_key r)) data = Returns (index, db)"
      "app' = app\<lparr>app_Storage := db,
        notified := notified app @ watchers_check (After_filters (app_filters app)) (Build b (req_key r))\<rparr>"
proof (cases "publishable (req_key r) \<and> audit_ok app r")
  case False
  then show ?thesis using refused assms
    by (cases "publishable (req_key r)") (auto simp: publish_refused(1,2))
next
  case True
  note guards = True [THEN conjunct1] True [THEN conjunct2]
  show ?thesis
  proof (cases "DecodeReader J (req_body r)")
    case (Inl err)
    then show ?thesis using refused assms by (simp add: publish_refused(3) [OF guards])
  next
    case (Inr event)
    let ?check = "router_check (Write_filters (app_filters app)) (Build b (req_key r)) (MsgData event) (app_Static app)"
    show ?thesis
    proof (cases ?check)
      case (Inl err)
      then show ?thesis using refused assms by (simp add: publish_refused(4) [OF guards Inr])
    next
      case data: (Inr data)
      obtain index db where set: "MemoryStorage_Set J n (app_Storage app) (Build b (req_key r)) data = Returns (index, db)"
        using assms guards Inr data
        by (cases "MemoryStorage_Set J n (app_Storage app) (Build b (req_key r)) data")
          (auto simp: publish_def Let_def)
      show ?thesis
        using assms guards Inr data set by (intro stored [OF guards(1) Inr data set]) (simp add: publish_def Let_def)
    qed
  qed
qed

lemma unpublish_cases:
  assumes "unpublish r app = Returns (resp, app')"
  obtains (refused) "app' = app"
  | (deleted) err db where "IsValid (req_key r)"
      "MemoryStorage_Del (app_Storage app) (req_key r) = Returns (err, db)"
      "app' = app\<lparr>app_Storage := db\<rparr>"
proof (cases "IsValid (req_key r) \<and> audit_ok app r")
  case False
  then show ?thesis using refused assms
    by (cases "IsValid (req_key r)") (auto simp: unpublish_refused(1,2))
next
  case True
  note guards = True [THEN conjunct1] True [THEN conjunct2]
  show ?thesis
  proof (cases "hooks_check (Delete_filters (app_filters app)) (req_key r) (app_Static app)")
    case (Some err)
    then show ?thesis using refused assms by (simp add: unpublish_refused(3) [OF guards])
  next
    case None
    obtain err db where del: "MemoryStorage_Del (app_Storage app) (req_key r) = Returns (err, db)"
      using assms guards None
      by (cases "MemoryStorage_Del (app_Storage app) (req_key r)") (auto simp: unpublish_def Let_def)
    then have "app' = app\<lparr>app_Storage := db\<rparr>"
      using assms guards None by (cases err) (simp_all add: unpublish_def Let_def)
    then show ?thesis by (rule deleted [OF guards(1) del])
  qed
qed

text \<open>The calls a step makes on the stream.\<close>

fun read_calls :: "'c codec_scheme \<Rightarrow> int64 \<Rightarrow> request \<Rightarrow> Server \<Rightarrow> stream_call list" where
  "read_calls J now r app =
     (let refresh =
            (if router_checkStatic (Read_filters (app_filters app)) (req_key r) (app_Static app) = None
             then [CallRefresh now (req_key r) (getFilteredData J app)] else [])
      in if \<not> IsValid (req_key r) \<or> \<not> audit_ok app r then []
         else if \<not> req_websocket r then refresh
         else if refresh = [] then []
         else if OnSubscribe (app_Stream app) (req_key r) = None \<and> req_upgrade r = None
         then CallNew (req_key r) (req_upgrade r) # refresh else [])"

lemma fetch_server:
  "snd (fetch J now key app) =
     (if router_checkStatic (Read_filters (app_filters app)) key (app_Static app) = None
      then app\<lparr>app_Stream := snd (Refresh now key (getFilteredData J app) (app_Stream app))\<rparr> else app)"
  by (auto simp: fetch_data fetch_static)

lemma getFilteredData_frame [simp]:
  "getFilteredData J (app\<lparr>app_Stream := sm\<rparr>) = getFilteredData J app"
  by (simp add: getFilteredData_def fun_eq_iff)

lemma Server_ws_server:
  assumes static: "router_checkStatic (Read_filters (app_filters app)) (req_key r) (app_Static app) = None"
    and new: "Stream_New (req_key r) (req_upgrade r) (app_Stream app) = (Inr client, sm)"
    and ws: "Server_ws J now r app = (err, written, app')"
  shows "\<exists>sp. app' = app\<lparr>app_Stream := snd (Refresh now (req_key r) (getFilteredData J app) sm), spawned := sp\<rparr>"
proof -
  obtain result app2 where f: "fetch J now (req_key r) (app\<lparr>app_Stream := sm\<rparr>) = (result, app2)" by force
  then have app2: "app2 = app\<lparr>app_Stream := snd (Refresh now (req_key r) (getFilteredData J app) sm)\<rparr>"
    using fetch_server [of J now "req_key r" "app\<lparr>app_Stream := sm\<rparr>"] static by simp
  then have "app' = app2 \<or> (\<exists>x. app' = app2\<lparr>spawned := spawned app @ [x]\<rparr>)"
    using ws static new f by (auto simp: Server_ws_def Let_def split: sum.splits if_splits)
  then show ?thesis
  proof (elim disjE exE)
    assume "app' = app2"
    then show ?thesis by (intro exI [of _ "spawned app"]) (simp add: app2)
  next
    fix x
    assume "app' = app2\<lparr>spawned := spawned app @ [x]\<rparr>"
    then show ?thesis by (intro exI [of _ "spawned app @ [x]"]) (simp add: app2)
  qed
qed

lemma read_server:
  assumes "read J now r app = (resp, app')"
  shows "\<exists>sp. app' = app\<lparr>app_Stream := fold (run_call J) (read_calls J now r app) (app_Stream app), spawned := sp\<rparr>"
proof -
  let ?static = "router_checkStatic (Read_filters (app_filters app)) (req_key r) (app_Static app)"
  have same: "\<exists>sp. app = app\<lparr>app_Stream := app_Stream app, spawned := sp\<rparr>"
    by (intro exI [of _ "spawned app"]) simp
  show ?thesis
  proof (cases "IsValid (req_key r) \<and> audit_ok app r")
    case False
    then have "app' = app" "read_calls J now r app = []"
      using assms by (cases "IsValid (req_key r)"; simp add: read_refused)+
    with same show ?thesis by simp
  next
    case True
    show ?thesis
    proof (cases "req_websocket r")
      case False
      obtain result app1 where f: "fetch J now (req_key r) app = (result, app1)" by force
      then have "app' = snd (fetch J now (req_key r) app)"
        using assms True False by (cases result) (simp_all add: read_def Let_def split: if_splits)
      with True False show ?thesis
        by (intro exI [of _ "spawned app"]) (simp add: fetch_server)
    next
      case ws: True
      obtain err written where w: "Server_ws J now r app = (err, written, app')"
        using assms True ws by (auto simp: read_def Let_def split: prod.splits option.splits)
      show ?thesis
      proof (cases ?static)
        case (Some e)
        with w have "app' = app" by (simp add: Server_ws_def Let_def)
        with True ws Some same show ?thesis by simp
      next
        case None
        show ?thesis
        proof (cases "OnSubscribe (app_Stream app) (req_key r) = None \<and> req_upgrade r = None")
          case False
          then obtain e where "Stream_New (req_key r) (req_upgrade r) (app_Stream app) = (Inl e, app_Stream app)"
            by (cases "OnSubscribe (app_Stream app) (req_key r)") (auto simp: Stream_New_def)
          with w None have "app' = app" by (simp add: Server_ws_def Let_def)
          moreover have "read_calls J now r app = []"
            using True ws None False by simp
          ultimately show ?thesis using same by simp
        next
          case opened: True
          obtain client sm where "Stream_New (req_key r) (req_upgrade r) (app_Stream app) = (Inr client, sm)"
            using opened by (cases "Stream_new (req_key r) (app_Stream app)") (simp add: Stream_New_def)
          with Server_ws_server [OF None this w] True ws None opened show ?thesis by simp
        qed
      qed
    qed
  qed
qed

lemma Server_clock_server:
  assumes "Server_clock now r app = (resp, app')"
  shows "\<exists>sp. app' = app\<lparr>app_Stream :=
      (if audit_ok app r then snd (Stream_New '''' (req_upgrade r) (app_Stream app)) else app_Stream app),
    spawned := sp\<rparr>"
proof (cases "audit_ok app r")
  case False
  with assms show ?thesis by (intro exI [of _ "spawned app"]) (simp add: Server_clock_def)
next
  case True
  obtain result sm where n: "Stream_New '''' (req_upgrade r) (app_Stream app) = (result, sm)" by force
  show ?thesis
  proof (cases result)
    case (Inl err)
    with n assms True have "app' = app\<lparr>app_Stream := sm\<rparr>" by (simp add: Server_clock_def)
    with n True show ?thesis by (intro exI [of _ "spawned app"]) simp
  next
    case (Inr client)
    with n assms True show ?thesis
      by (intro exI [of _ "spawned app @ [WriteTime client (Time now)]"]) (simp add: Server_clock_def)
  qed
qed

lemma stats_server:
  assumes "getStats ul J now r app = (resp, app')"
  shows "\<exists>sp. app' = app\<lparr>app_Stream := fold (run_call J)
      (if req_websocket r \<and> audit_ok app r then [CallNew '''' (req_upgrade r)] else []) (app_Stream app),
    spawned := sp\<rparr>"
proof (cases "req_websocket r")
  case True
  with assms have "Server_clock now r app = (resp, app')" by (simp add: getStats_def)
  from Server_clock_server [OF this] True show ?thesis by (cases "audit_ok app r") simp_all
next
  case False
  then have "app' = app"
    using assms by (cases "MemoryStorage_Keys ul J (app_Storage app)"; cases "audit_ok app r") (simp_all add: getStats_def)
  with False show ?thesis by (intro exI [of _ "spawned app"]) simp
qed

text \<open>The calls of the goroutines, of a worker's turn and of the other steps.\<close>

fun goroutine_call :: "goroutine \<Rightarrow> stream_call" where
  "goroutine_call (WriteInitial client data snapshot version) = CallWrite client data snapshot version"
| "goroutine_call (WriteTime client data) = CallWriteClock client data"

lemma run_goroutine_call:
  "run_goroutine g app = app\<lparr>app_Stream := run_call J (goroutine_call g) (app_Stream app)\<rparr>"
  by (cases g) simp_all

fun step_calls :: "('p, 'c) wire_scheme \<Rightarrow> server_label \<Rightarrow> Server \<Rightarrow> stream_call list" where
  "step_calls J (Publish b n r) app = []"
| "step_calls J (Unpublish r) app = []"
| "step_calls J (Read now r) app = read_calls J now r app"
| "step_calls J (Stats now r) app = (if req_websocket r \<and> audit_ok app r then [CallNew '''' (req_upgrade r)] else [])"
| "step_calls J (Work nows) app =
     (case watcher (app_Storage app) of
        Some (ev # evs) \<Rightarrow>
          if EvKey ev \<noteq> '''' then [CallBroadcast nows (broadcast_opt J app) (EvKey ev)] else []
      | _ \<Rightarrow> [])"
| "step_calls J (Tick_clock now) app = (if Server_Active app then [CallClock (Time now)] else [])"
| "step_calls J (Run i) app = [goroutine_call (spawned app ! i)]"
| "step_calls J (Hangup key client) app = [CallClose key client]"
| "step_calls J (Lose client) app = [CallLose client]"

definition same_settings :: "Server \<Rightarrow> Server \<Rightarrow> bool" where
  "same_settings app app' \<longleftrightarrow>
     app_filters app' = app_filters app \<and> app_Static app' = app_Static app \<and>
     Audit app' = Audit app \<and> OnClose app' = OnClose app \<and>
     active app' = active app \<and> closing app' = closing app \<and>
     noBroadcastKeys (app_Storage app') = noBroadcastKeys (app_Storage app)"

text \<open>One turn of a worker, with an event or without.\<close>

lemma watch_step_cases:
  assumes "watch_step J nows app = Some app'" "started (app_Storage app)"
  obtains ev evs where "watcher (app_Storage app) = Some (ev # evs)"
    "app' = app\<lparr>app_Storage := (app_Storage app)\<lparr>watcher := Some evs\<rparr>,
      app_Stream := (if EvKey ev \<noteq> '''' then Broadcast J nows (broadcast_opt J app) (EvKey ev) (app_Stream app)
        else app_Stream app)\<rparr>"
proof -
  obtain ch where ch: "watcher (app_Storage app) = Some ch"
    using assms(2) by (auto simp: started_def)
  with assms(1) obtain ev evs where ev: "ch = ev # evs"
    by (cases ch) (auto simp: watch_step_def split: if_splits)
  let ?app = "app\<lparr>app_Storage := (app_Storage app)\<lparr>watcher := Some evs\<rparr>\<rparr>"
  have "getFilteredData J ?app = getFilteredData J app"
    by (simp add: getFilteredData_def MemoryStorage_Get_def fun_eq_iff)
  then have opt: "broadcast_opt J ?app = broadcast_opt J app" by (simp add: broadcast_opt_def)
  have act: "MemoryStorage_Active (app_Storage (watch_event J nows ev ?app)) = Returns True"
    using assms(2) by (auto simp: watch_event_def started_def MemoryStorage_Active_def)
  have "app' = watch_event J nows ev ?app"
    using assms(1) ch ev act by (simp add: watch_step_def Let_def split: if_splits)
  then show ?thesis using that ch ev opt by (simp add: watch_event_def)
qed

lemma step_stream:
  assumes "server_step ul J l app app'" "server_up J app"
  shows "app_Stream app' = fold (run_call J) (step_calls J l app) (app_Stream app)"
proof -
  have st: "started (app_Storage app)" and ok: "stream_ok (app_Stream app)"
    using assms(2) by (auto simp: server_up_def storage_ready_def)
  show ?thesis
    using assms(1)
  proof cases
    case (step_publish b n r resp)
    from step_publish(2) show ?thesis by (rule publish_cases) (simp_all add: step_publish)
  next
    case (step_unpublish r resp)
    from step_unpublish(2) show ?thesis by (rule unpublish_cases) (simp_all add: step_unpublish)
  next
    case (step_read now r resp)
    from read_server [OF step_read(2)] show ?thesis by (auto simp: step_read(1))
  next
    case (step_stats now r resp)
    from stats_server [OF step_stats(2)] show ?thesis by (auto simp: step_stats(1))
  next
    case (step_work nows)
    from step_work(2) st show ?thesis by (rule watch_step_cases) (simp add: step_work(1))
  next
    case (step_tick now)
    then show ?thesis
      by (auto simp: tick_def sendTime_def bind_outcome_eq_Returns returned_def split: if_splits)
  next
    case (step_run i)
    then show ?thesis
      by (auto simp: run_spawned_def run_goroutine_call [of _ _ J] split: if_splits)
  next
    case (step_hangup key client)
    then show ?thesis by (auto simp: hangup_def bind_outcome_eq_Returns returned_def)
  next
    case (step_lose client)
    then show ?thesis by simp
  qed
qed

section \<open>The server stays up\<close>

lemma json_safe_Replace1: "json_safe s \<Longrightarrow> json_safe new \<Longrightarrow> json_safe (strings_Replace1 s old new)"
proof (induction s)
  case (Cons x s)
  have "json_safe (drop n (x # s))" for n
    using Cons.prems(1) by (metis append_take_drop_id json_safe_append)
  with Cons show ?case by auto
qed simp

lemma json_safe_FormatInt: "json_safe (FormatInt t 16)"
proof -
  have "json_safe_char c" if "c \<in> set (FormatInt t 16)" for c
    using FormatInt_chars [OF _ _ that] by (auto simp: json_safe_char_def is_alnum_def Let_def)
  then show ?thesis by (simp add: json_safe_def list_all_iff)
qed

lemma json_safe_IsValid: "IsValid key \<Longrightarrow> json_safe key"
proof -
  assume "IsValid key"
  then have "json_safe_char c" if "c \<in> set key" for c
    using IsValid_chars [OF _ that] by (auto simp: json_safe_char_def is_alnum_def Let_def)
  then show ?thesis by (simp add: json_safe_def list_all_iff)
qed

lemma json_safe_Build: "IsValid key \<Longrightarrow> json_safe (Build now key)"
  by (simp add: Build_def Let_def json_safe_IsValid json_safe_Replace1 json_safe_FormatInt json_safe_char_def)

lemma Replace1_not_Nil: "new \<noteq> [] \<Longrightarrow> s \<noteq> [] \<Longrightarrow> strings_Replace1 s old new \<noteq> []"
  by (cases s) auto

lemma Build_not_Nil: "IsValid key \<Longrightarrow> Build now key \<noteq> []"
  using Replace1_not_Nil [of "slash # FormatInt now 16" key] by (cases key) (auto simp: Build_def Let_def)

lemma step_storage:
  assumes "server_step ul J l app app'" "server_up J app" "benign J l app"
  shows "storage_ready J (app_Storage app') \<and> same_settings app app'"
proof -
  have ready: "storage_ready J (app_Storage app)" and st: "started (app_Storage app)"
    using assms(2) by (auto simp: server_up_def storage_ready_def)
  show ?thesis
    using assms(1)
  proof cases
    case (step_publish b n r resp)
    from step_publish(2) show ?thesis
    proof (cases rule: publish_cases)
      case refused
      with ready show ?thesis by (simp add: same_settings_def)
    next
      case (stored event data index db)
      then have "json_safe data" using assms(3) by (simp add: step_publish(1))
      then have "storable (Build b (req_key r)) data"
        using stored(1) by (simp add: storable_def publishable_iff json_safe_Build)
      with memory.set_spec [OF ready this, of n] stored show ?thesis
        by (auto simp: same_settings_def Set_noBroadcastKeys)
    qed
  next
    case (step_unpublish r resp)
    from step_unpublish(2) show ?thesis
    proof (cases rule: unpublish_cases)
      case refused
      with ready show ?thesis by (simp add: same_settings_def)
    next
      case (deleted err db)
      with memory.del_spec [OF ready, of "req_key r"] show ?thesis
        by (auto simp: same_settings_def Del_noBroadcastKeys)
    qed
  next
    case (step_read now r resp)
    from read_server [OF step_read(2)] ready show ?thesis by (auto simp: same_settings_def)
  next
    case (step_stats now r resp)
    from stats_server [OF step_stats(2)] ready show ?thesis by (auto simp: same_settings_def)
  next
    case (step_work nows)
    from step_work(2) st show ?thesis
      by (rule watch_step_cases) (use ready in \<open>auto simp: same_settings_def storage_ready_def started_def\<close>)
  next
    case (step_tick now)
    with ready assms(2) show ?thesis
      by (auto simp: tick_def sendTime_def bind_outcome_eq_Returns same_settings_def server_up_def)
  next
    case (step_run i)
    with ready show ?thesis
      by (auto simp: run_spawned_def run_goroutine_call [of _ _ J] same_settings_def split: if_splits)
  next
    case (step_hangup key client)
    with ready show ?thesis by (auto simp: hangup_def bind_outcome_eq_Returns same_settings_def)
  next
    case (step_lose client)
    with ready show ?thesis by (simp add: same_settings_def)
  qed
qed

lemma step_up:
  assumes "server_step ul J l app app'" "server_up J app" "benign J l app"
  shows "server_up J app'"
proof -
  have "stream_ok (app_Stream app')"
    using step_stream [OF assms(1,2)] history.keeps_ok [of "app_Stream app" J "step_calls J l app"] assms(2)
    by (simp add: server_up_def)
  with step_storage [OF assms] assms(2) show ?thesis
    by (simp add: server_up_def same_settings_def Server_Active_def)
qed

lemma same_settings_trans: "same_settings a b \<Longrightarrow> same_settings b c \<Longrightarrow> same_settings a c"
  by (simp add: same_settings_def)

lemma reaches_up:
  assumes "reaches ul J (benign J) app app'" "server_up J app"
  shows "server_up J app' \<and> same_settings app app'"
proof -
  have "same_settings app app" by (simp add: same_settings_def)
  with assms show ?thesis
    by (intro reaches_invariant [OF assms(1), where I = "\<lambda>a. server_up J a \<and> same_settings app a"])
      (auto intro: step_up same_settings_trans dest: step_storage)
qed

section \<open>Caches are fresh or an event waits\<close>

text \<open>The keys and caches of the pools, the clock's left out.\<close>

definition entries :: "Stream \<Rightarrow> (string \<times> Cache) list" where
  "entries sm = tl (map (\<lambda>p. (PoolKey p, cache p)) (pools sm))"

definition quiet :: "MemoryStorage \<Rightarrow> string \<Rightarrow> bool" where
  "quiet db key \<longleftrightarrow> (\<forall>k. Peer key k \<longrightarrow> \<not> mem_muted db k)"

definition concerned :: "StorageEvent list \<Rightarrow> string \<Rightarrow> bool" where
  "concerned evs key \<longleftrightarrow> list_ex (\<lambda>ev. EvKey ev \<noteq> '''' \<and> Peer key (EvKey ev)) evs"

definition current :: "'c codec_scheme \<Rightarrow> Server \<Rightarrow> string \<Rightarrow> Cache \<Rightarrow> bool" where
  "current J app key c \<longleftrightarrow>
     CacheData c = [] \<or>
     (case getFilteredData J app key of Inl err \<Rightarrow> True | Inr raw \<Rightarrow> CacheData c = document_of raw)"

definition fresh :: "'c codec_scheme \<Rightarrow> Server \<Rightarrow> bool" where
  "fresh J app \<longleftrightarrow>
     (\<forall>(key, c) \<in> set (entries (app_Stream app)).
        quiet (app_Storage app) key \<longrightarrow>
        concerned (mem_pending (app_Storage app)) key \<or> current J app key c)"

lemma set_tl_update: "set (tl (xs[i := y])) \<subseteq> insert y (set (tl xs))"
proof (cases i)
  case 0
  then show ?thesis by (cases xs) auto
next
  case (Suc j)
  then show ?thesis using set_update_subset_insert [of "tl xs" j y] by (cases xs) simp_all
qed

lemma entries_update:
  "set (tl (map (\<lambda>p. (PoolKey p, cache p)) (ps[i := p]))) \<subseteq>
     insert (PoolKey p, cache p) (set (tl (map (\<lambda>p. (PoolKey p, cache p)) ps)))"
  by (simp add: map_update set_tl_update)

lemma entries_append:
  "set (tl (map (\<lambda>p. (PoolKey p, cache p)) (ps @ [p]))) \<subseteq>
     insert (PoolKey p, cache p) (set (tl (map (\<lambda>p. (PoolKey p, cache p)) ps)))"
  by (cases ps) auto

lemma entries_same_pool:
  "i < length ps \<Longrightarrow> PoolKey p = PoolKey (ps ! i) \<Longrightarrow> cache p = cache (ps ! i) \<Longrightarrow>
     map (\<lambda>p. (PoolKey p, cache p)) (ps[i := p]) = map (\<lambda>p. (PoolKey p, cache p)) ps"
  by (simp add: map_update) (metis (no_types, lifting) length_map list_update_id nth_map)

lemma entries_New:
  "set (entries (snd (Stream_New key upgrade sm))) \<subseteq> insert (key, zero_Cache) (set (entries sm))"
proof (cases rule: findPool_cases [of sm key])
  case missing
  then show ?thesis
    using entries_append [of "pools sm" "\<lparr>PoolKey = key, cache = zero_Cache, connections = [next_conn sm]\<rparr>"]
    by (auto simp: snd_Stream_New Stream_new_def Let_def findPool_def entries_def)
next
  case (found i)
  then show ?thesis
    by (auto simp: snd_Stream_New Stream_new_def Let_def findPool_def entries_def entries_same_pool)
qed

lemma entries_Close:
  "entries (returned sm (Stream_Close key client sm)) = entries sm"
proof (cases rule: findPool_cases [of sm key])
  case missing
  then show ?thesis by (simp add: Stream_Close_def returned_def)
next
  case (found i)
  then show ?thesis
    by (simp add: Stream_Close_found returned_def entries_def entries_same_pool)
qed

lemma entries_Refresh:
  "set (entries (snd (Refresh now key get sm))) \<subseteq>
     set (entries sm) \<union> {(key, c) | c. \<exists>raw. get key = Inr raw \<and> CacheData c = document_of raw}"
proof (cases "get key")
  case (Inl err)
  then show ?thesis by (simp add: snd_Refresh)
next
  case (Inr raw)
  have "set (entries (snd (Stream_setCache now key d sm))) \<subseteq>
      insert (key, \<lparr>Version = now, CacheData = d\<rparr>) (set (entries sm))" for d
  proof (cases rule: findPool_cases [of sm key])
    case missing
    then show ?thesis
      using entries_append [of "pools sm" "\<lparr>PoolKey = key, cache = \<lparr>Version = now, CacheData = d\<rparr>, connections = []\<rparr>"]
      by (simp add: Stream_setCache_def entries_def)
  next
    case (found i)
    then show ?thesis
      using entries_update [of "pools sm" i "setCache_pool now d (pools sm ! i)"]
      by (simp add: Stream_setCache_def entries_def)
  qed
  from this [of "document_of raw"] Inr show ?thesis
    by (auto simp: snd_Refresh document_of_def split: sum.split)
qed

lemma entries_Broadcast:
  assumes ok: "stream_ok sm" and e: "(key, c) \<in> set (entries (Broadcast J now opt path sm))"
  shows "\<exists>c0. (key, c0) \<in> set (entries sm) \<and>
    (if Peer key path then (case opt_Get opt key of Inl err \<Rightarrow> c = c0 | Inr data \<Rightarrow> CacheData c = data)
     else c = c0)"
proof -
  let ?sm = "Broadcast J now opt path sm"
  obtain i where i: "i < length (pools sm) - 1" "(key, c) = entries ?sm ! i"
    using e ok by (auto simp: in_set_conv_nth entries_def)
  then have "Suc i < length (pools sm)" by simp
  then have p: "pools ?sm ! Suc i = pool_after (now (Suc i)) opt path (pools sm ! Suc i)"
    using Broadcast_pool [OF ok, of "Suc i" J now opt path] by simp
  have "(key, c) = (PoolKey (pools ?sm ! Suc i), cache (pools ?sm ! Suc i))"
    using i ok by (simp add: entries_def nth_tl)
  moreover have "(PoolKey (pools sm ! Suc i), cache (pools sm ! Suc i)) \<in> set (entries sm)"
    using i(1) by (auto simp: in_set_conv_nth entries_def nth_tl intro!: exI [of _ i])
  ultimately show ?thesis
    unfolding p by (intro exI [of _ "cache (pools sm ! Suc i)"]) (auto simp: pool_after_def split: sum.splits)
qed

lemma entries_pools: "pools sm' = pools sm \<Longrightarrow> entries sm' = entries sm"
  by (simp add: entries_def)

lemma concerned_append [simp]: "concerned (evs @ evs') key \<longleftrightarrow> concerned evs key \<or> concerned evs' key"
  by (simp add: concerned_def)

lemma concerned_Cons [simp]:
  "concerned (ev # evs) key \<longleftrightarrow> EvKey ev \<noteq> '''' \<and> Peer key (EvKey ev) \<or> concerned evs key"
  by (simp add: concerned_def)

lemma concerned_Nil [simp]: "\<not> concerned [] key"
  by (simp add: concerned_def)

lemma current_cong:
  "seen_by key (mem (app_Storage app')) = seen_by key (mem (app_Storage app)) \<Longrightarrow>
     same_settings app app' \<Longrightarrow> current J app' key c \<longleftrightarrow> current J app key c"
  using getFilteredData_cong [OF raw_data_cong, of key app' app J]
  by (simp add: current_def same_settings_def)

lemma current_empty [simp]: "CacheData c = [] \<Longrightarrow> current J app key c"
  by (simp add: current_def)

lemma quiet_cong: "same_settings app app' \<Longrightarrow> quiet (app_Storage app') key = quiet (app_Storage app) key"
  by (simp add: quiet_def same_settings_def mem_muted_def)

text \<open>A change of the storage, the stream untouched.\<close>

lemma fresh_stored:
  assumes fresh: "fresh J app" and settings: "same_settings app app'"
    and stream: "app_Stream app' = app_Stream app"
    and pending: "mem_pending (app_Storage app') = mem_pending (app_Storage app) @ evs"
    and change: "\<And>key c. (key, c) \<in> set (entries (app_Stream app)) \<Longrightarrow> quiet (app_Storage app) key \<Longrightarrow>
      concerned evs key \<or> seen_by key (mem (app_Storage app')) = seen_by key (mem (app_Storage app))"
  shows "fresh J app'"
  unfolding fresh_def
proof clarify
  fix key c
  assume e: "(key, c) \<in> set (entries (app_Stream app'))" and q: "quiet (app_Storage app') key"
    and no: "\<not> current J app' key c"
  have e0: "(key, c) \<in> set (entries (app_Stream app))" and q0: "quiet (app_Storage app) key"
    using e q stream settings by (simp_all add: quiet_cong)
  have "concerned (mem_pending (app_Storage app)) key \<or> current J app key c"
    using fresh e0 q0 unfolding fresh_def by blast
  moreover have "concerned evs key \<or> (current J app' key c \<longleftrightarrow> current J app key c)"
    using change [OF e0 q0] current_cong [OF _ settings, of key J c] by blast
  ultimately show "concerned (mem_pending (app_Storage app')) key"
    using no by (auto simp: pending)
qed

text \<open>A change of the stream that only adds current or empty caches, the storage untouched.\<close>

lemma fresh_streamed:
  assumes fresh: "fresh J app" and settings: "same_settings app app'"
    and store: "app_Storage app' = app_Storage app"
    and entries: "\<And>key c. (key, c) \<in> set (entries (app_Stream app')) \<Longrightarrow>
      (key, c) \<in> set (entries (app_Stream app)) \<or> current J app key c"
  shows "fresh J app'"
  unfolding fresh_def
proof clarify
  fix key c
  assume e: "(key, c) \<in> set (entries (app_Stream app'))" and q: "quiet (app_Storage app') key"
    and no: "\<not> current J app' key c"
  have "current J app' key c \<longleftrightarrow> current J app key c"
    using current_cong [OF _ settings, of key J c] store by simp
  with entries [OF e] fresh q no show "concerned (mem_pending (app_Storage app')) key"
    unfolding fresh_def by (auto simp: store)
qed

lemma fresh_publish:
  assumes "publish J b n r app = Returns (resp, app')" "server_up J app" "benign J (Publish b n r) app"
    and fresh: "fresh J app" and settings: "same_settings app app'"
  shows "fresh J app'"
  using assms(1)
proof (cases rule: publish_cases)
  case refused
  with fresh show ?thesis by simp
next
  case (stored event data index db)
  let ?k = "Build b (req_key r)"
  have ready: "storage_ready J (app_Storage app)" using assms(2) by (simp add: server_up_def)
  have valid: "IsValid (req_key r)" using stored(1) by (simp add: publishable_iff)
  have "storable ?k data"
    using stored assms(3) valid by (simp add: storable_def json_safe_Build)
  with memory.set_spec [OF ready this, of n] stored(4,5)
  have pending: "mem_pending (app_Storage app') = mem_pending (app_Storage app) @
      (if mem_muted (app_Storage app) ?k then [] else [\<lparr>EvKey = ?k, EvOperation = ''set''\<rparr>])"
    by auto
  obtain v where m: "mem (app_Storage app') = AList.update ?k v (mem (app_Storage app))"
    using Set_mem [OF stored(4)] stored(5) by auto
  show ?thesis
  proof (rule fresh_stored [OF fresh settings _ pending])
    fix key c
    assume q: "quiet (app_Storage app) key"
    show "concerned (if mem_muted (app_Storage app) ?k then [] else [\<lparr>EvKey = ?k, EvOperation = ''set''\<rparr>]) key \<or>
        seen_by key (mem (app_Storage app')) = seen_by key (mem (app_Storage app))"
    proof (cases "Peer key ?k")
      case True
      with q Build_not_Nil [OF valid] show ?thesis by (simp add: quiet_def)
    next
      case False
      then have "\<not> Match key ?k" by (simp add: Peer_def)
      then show ?thesis by (simp add: m seen_by_update)
    qed
  qed (simp add: stored(5))
qed

lemma fresh_unpublish:
  assumes "unpublish r app = Returns (resp, app')" "server_up J app" "benign J (Unpublish r) app"
    and fresh: "fresh J app" and settings: "same_settings app app'"
  shows "fresh J app'"
  using assms(1)
proof (cases rule: unpublish_cases)
  case refused
  with fresh show ?thesis by simp
next
  case (deleted err db)
  let ?k = "req_key r"
  let ?evs = "spec_event (mem_muted (app_Storage app)) (OpDel ?k) (mem_contents J (app_Storage app))"
  have ready: "storage_ready J (app_Storage app)" using assms(2) by (simp add: server_up_def)
  have pending: "mem_pending (app_Storage app') = mem_pending (app_Storage app) @ ?evs"
    using memory.del_spec [OF ready, of ?k] deleted by auto
  show ?thesis
  proof (rule fresh_stored [OF fresh settings _ pending])
    fix key c
    assume e: "(key, c) \<in> set (entries (app_Stream app))" and q: "quiet (app_Storage app) key"
    show "concerned ?evs key \<or> seen_by key (mem (app_Storage app')) = seen_by key (mem (app_Storage app))"
    proof (cases "star \<notin> set ?k \<and> map_of (mem (app_Storage app)) ?k = None")
      case True
      with deleted(2) have "db = app_Storage app" by (simp add: MemoryStorage_Del_def)
      then show ?thesis by (simp add: deleted(3))
    next
      case present: False
      show ?thesis
      proof (cases "Peer key ?k")
        case True
        have "mem_ok J (mem (app_Storage app))" using ready by (simp add: storage_ready_def)
        then have "\<not> (star \<notin> set ?k \<and> mem_contents J (app_Storage app) ?k = None)"
          using present by (auto simp: mem_contents_None)
        moreover have "?k \<noteq> []" using deleted(1) by auto
        ultimately show ?thesis using True q by (auto simp: quiet_def)
      next
        case False
        then have "\<not> Match key ?k" by (simp add: Peer_def)
        have "key \<in> PoolKey ` set (tl (pools (app_Stream app)))"
          using e by (auto simp: entries_def map_tl [symmetric])
        then have "\<not> crosses key ?k (app_Storage app)"
          using assms(3) by (auto simp: list_all_iff)
        with False have "\<forall>kv \<in> set (mem (app_Storage app)). Match ?k (fst kv) \<longrightarrow> \<not> Match key (fst kv)"
          by (auto simp: crosses_def list_ex_iff)
        with Del_mem [OF deleted(2)] \<open>\<not> Match key ?k\<close> show ?thesis
          by (auto simp: deleted(3) seen_by_delete seen_by_fold_delete)
      qed
    qed
  qed (simp add: deleted(3))
qed

lemma fresh_work:
  assumes step: "watch_step J nows app = Some app'" and up: "server_up J app"
    and fresh: "fresh J app" and settings: "same_settings app app'"
  shows "fresh J app'"
proof -
  have st: "started (app_Storage app)" and ok: "stream_ok (app_Stream app)"
    using up by (auto simp: server_up_def storage_ready_def)
  from step st obtain ev evs where w: "watcher (app_Storage app) = Some (ev # evs)"
    and app': "app' = app\<lparr>app_Storage := (app_Storage app)\<lparr>watcher := Some evs\<rparr>,
      app_Stream := (if EvKey ev \<noteq> '''' then Broadcast J nows (broadcast_opt J app) (EvKey ev) (app_Stream app)
        else app_Stream app)\<rparr>"
    by (rule watch_step_cases)
  have pending: "mem_pending (app_Storage app) = ev # mem_pending (app_Storage app')"
    by (simp add: mem_pending_def w app')
  have cur: "current J app' key c \<longleftrightarrow> current J app key c" for key c
    using current_cong [OF _ settings, of key J c] by (simp add: app')
  show ?thesis
    unfolding fresh_def
  proof clarify
    fix key c
    assume e: "(key, c) \<in> set (entries (app_Stream app'))" and q: "quiet (app_Storage app') key"
      and no: "\<not> current J app' key c"
    have q0: "quiet (app_Storage app) key" using q settings by (simp add: quiet_cong)
    show "concerned (mem_pending (app_Storage app')) key"
    proof (cases "EvKey ev = ''''")
      case True
      with e have "(key, c) \<in> set (entries (app_Stream app))" by (simp add: app')
      with fresh q0 no True show ?thesis unfolding fresh_def by (auto simp: pending cur)
    next
      case False
      with e have "(key, c) \<in> set (entries (Broadcast J nows (broadcast_opt J app) (EvKey ev) (app_Stream app)))"
        by (simp add: app')
      from entries_Broadcast [OF ok this] obtain c0 where c0: "(key, c0) \<in> set (entries (app_Stream app))"
        and c: "if Peer key (EvKey ev)
          then (case getFilteredData J app key of Inl err \<Rightarrow> c = c0 | Inr data \<Rightarrow> CacheData c = data)
          else c = c0"
        unfolding broadcast_opt_get by blast
      show ?thesis
      proof (cases "Peer key (EvKey ev)")
        case True
        moreover have "\<not> current J app key c" using no by (simp add: cur)
        ultimately have False
          using c by (auto simp: current_def document_of_def split: sum.splits)
        then show ?thesis ..
      next
        case apart: False
        with c c0 fresh q0 no show ?thesis unfolding fresh_def by (auto simp: pending cur)
      qed
    qed
  qed
qed

lemma fresh_read:
  fixes J :: "('p, 'c) wire_scheme"
  assumes step: "read J now r app = (resp, app')"
    and fresh: "fresh J app" and settings: "same_settings app app'"
  shows "fresh J app'"
proof (rule fresh_streamed [OF fresh settings])
  obtain sp where app': "app' = app\<lparr>app_Stream := fold (run_call J) (read_calls J now r app) (app_Stream app), spawned := sp\<rparr>"
    using read_server [OF step] by blast
  then show "app_Storage app' = app_Storage app" by simp
  fix key c
  assume e: "(key, c) \<in> set (entries (app_Stream app'))"
  have zero: "CacheData zero_Cache = []" by (simp add: zero_Cache_def)
  have new: "(key, c) \<in> set (entries sm) \<or> current J app key c"
    if "(key, c) \<in> set (entries (snd (Stream_New (req_key r) up sm)))" for up sm
    using that entries_New [of "req_key r" up sm] zero by auto
  have refresh: "(key, c) \<in> set (entries sm) \<or> current J app key c"
    if "(key, c) \<in> set (entries (snd (Refresh now (req_key r) (getFilteredData J app) sm)))" for sm
  proof -
    from that entries_Refresh [of now "req_key r" "getFilteredData J app" sm]
    have "(key, c) \<in> set (entries sm) \<or>
        (key = req_key r \<and> (\<exists>raw. getFilteredData J app (req_key r) = Inr raw \<and> CacheData c = document_of raw))"
      by blast
    then show ?thesis by (auto simp: current_def)
  qed
  from e show "(key, c) \<in> set (entries (app_Stream app)) \<or> current J app key c"
    using new refresh by (auto simp: app' Let_def split: if_splits)
qed

text \<open>The stream calls that leave every cache alone.\<close>

lemma entries_write_message: "entries (write_message client bytes sm) = entries sm"
  by (rule entries_pools) (simp add: write_message_deliver)

lemma entries_fold_write:
  "entries (fold (\<lambda>client. write_message client bytes) conns sm) = entries sm"
  by (induction conns arbitrary: sm) (simp_all add: entries_write_message)

lemma entries_clock: "entries (returned sm (BroadcastClock data sm)) = entries sm"
  by (simp add: BroadcastClock_def WriteClock_def [abs_def] returned_def entries_fold_write split: list.split)

lemma entries_quiet_call:
  "(\<exists>g. call = goroutine_call g) \<or> (\<exists>key client. call = CallClose key client) \<or>
     (\<exists>data. call = CallClock data) \<or> (\<exists>client. call = CallLose client) \<Longrightarrow>
     entries (run_call J call sm) = entries sm"
proof (elim disjE exE)
  fix g
  assume "call = goroutine_call g"
  then show ?thesis by (cases g) (simp_all add: Stream_Write_def WriteClock_def entries_write_message)
next
  fix client
  assume "call = CallLose client"
  then show ?thesis by simp (rule entries_pools, simp add: lose_peer_def)
qed (simp_all add: entries_Close entries_clock)

lemma step_fresh:
  assumes step: "server_step ul J l app app'" and up: "server_up J app" and env: "benign J l app"
    and fresh: "fresh J app"
  shows "fresh J app'"
proof -
  have settings: "same_settings app app'" using step_storage [OF step up env] by simp
  note stream = step_stream [OF step up]
  have quietly: "fresh J app'"
    if "app_Storage app' = app_Storage app" "entries (app_Stream app') = entries (app_Stream app)"
    using that by (intro fresh_streamed [OF fresh settings]) simp_all
  show ?thesis
    using step
  proof cases
    case (step_publish b n r resp)
    then show ?thesis using fresh_publish up env fresh settings by blast
  next
    case (step_unpublish r resp)
    then show ?thesis using fresh_unpublish up env fresh settings by blast
  next
    case (step_read now r resp)
    then show ?thesis using fresh_read fresh settings by blast
  next
    case (step_stats now r resp)
    have store: "app_Storage app' = app_Storage app" using stats_server [OF step_stats(2)] by auto
    show ?thesis
    proof (rule fresh_streamed [OF fresh settings store])
      fix key c
      assume "(key, c) \<in> set (entries (app_Stream app'))"
      with stream show "(key, c) \<in> set (entries (app_Stream app)) \<or> current J app key c"
        using entries_New [of "''''" "req_upgrade r" "app_Stream app"]
        by (auto simp: step_stats(1) zero_Cache_def split: if_splits)
    qed
  next
    case (step_work nows)
    then show ?thesis using fresh_work up fresh settings by blast
  next
    case (step_tick now)
    have "app_Storage app' = app_Storage app"
      using step_tick by (auto simp: tick_def sendTime_def bind_outcome_eq_Returns split: if_splits)
    moreover have "entries (app_Stream app') = entries (app_Stream app)"
      using stream by (simp add: step_tick(1) entries_clock)
    ultimately show ?thesis by (rule quietly)
  next
    case (step_run i)
    have "app_Storage app' = app_Storage app"
      using step_run by (auto simp: run_spawned_def run_goroutine_call [of _ _ J] split: if_splits)
    moreover have "entries (app_Stream app') = entries (app_Stream app)"
      unfolding stream by (simp add: step_run(1) del: run_call.simps) (rule entries_quiet_call, blast)
    ultimately show ?thesis by (rule quietly)
  next
    case (step_hangup key client)
    have "app_Storage app' = app_Storage app"
      using step_hangup by (auto simp: hangup_def bind_outcome_eq_Returns)
    moreover have "entries (app_Stream app') = entries (app_Stream app)"
      using stream by (simp add: step_hangup(1) entries_Close)
    ultimately show ?thesis by (rule quietly)
  next
    case (step_lose client)
    have "entries (app_Stream app') = entries (app_Stream app)"
      using step_lose by (intro entries_pools) (simp add: lose_peer_def)
    with step_lose show ?thesis by (intro quietly) simp_all
  qed
qed

lemma reaches_fresh:
  assumes "reaches ul J (benign J) app app'" "server_up J app" "fresh J app"
  shows "server_up J app' \<and> fresh J app'"
  using assms(2,3)
  by (intro reaches_invariant [OF assms(1), where I = "\<lambda>a. server_up J a \<and> fresh J a"])
    (auto intro: step_up step_fresh)

end
