(* ===== verification/Convergence.thy ===== *)
theory Convergence
  imports System
begin

text \<open>
  From a websocket request to an up to date document: the request leaves its connection in sync with
  the pool of its key, every step that does not concern the connection keeps it in sync, and with
  fresh caches a server that has broadcast its last event leaves every such subscriber with the
  current data of its key.
\<close>

section \<open>Staying in sync\<close>

text \<open>Read filters that never answer with nothing at all.\<close>

definition solid_filters :: "Server \<Rightarrow> bool" where
  "solid_filters app \<longleftrightarrow>
     (\<forall>f \<in> set (Read_filters (app_filters app)). \<forall>path data. filter_apply f path data \<noteq> Inr [])"

lemma solid_data: "solid_filters app \<Longrightarrow> getFilteredData J app key \<noteq> Inr []"
proof (cases rule: match_index_cases [of filter_path "Read_filters (app_filters app)" key])
  case none
  then show ?thesis by (simp add: getFilteredData_raw router_check_uncovered)
next
  case (first pre f post)
  assume "solid_filters app"
  with first show ?thesis
    by (auto simp: getFilteredData_raw router_check_first solid_filters_def)
qed

text \<open>Steps that neither lose, close nor write to the connection on its own.\<close>

fun spares_step :: "Conn \<Rightarrow> server_label \<Rightarrow> Server \<Rightarrow> bool" where
  "spares_step c (Run i) app \<longleftrightarrow>
     (case spawned app ! i of WriteInitial client data snapshot version \<Rightarrow> client \<noteq> c
                            | WriteTime client data \<Rightarrow> client \<noteq> c)"
| "spares_step c (Hangup key client) app \<longleftrightarrow> client \<noteq> c"
| "spares_step c (Lose client) app \<longleftrightarrow> client \<noteq> c"
| "spares_step c l app \<longleftrightarrow> True"

definition undisturbed :: "('p, 'c) wire_scheme \<Rightarrow> Conn \<Rightarrow> server_label \<Rightarrow> Server \<Rightarrow> bool" where
  "undisturbed J c l app \<longleftrightarrow> benign J l app \<and> spares_step c l app"

lemma step_spares:
  "spares_step c l app \<Longrightarrow> solid_filters app \<Longrightarrow> call \<in> set (step_calls J l app) \<Longrightarrow> spares J c call"
  using solid_data [of app J]
  by (cases l) (auto simp: Let_def split: if_splits option.splits list.splits goroutine.splits)

lemma step_sync:
  assumes "server_step ul J l app app'" "server_up J app" "wire_laws J same_json" "solid_filters app"
    and "spares_step c l app" "in_sync J same_json i c start (app_Stream app)"
  shows "in_sync J same_json i c start (app_Stream app')"
  unfolding step_stream [OF assms(1,2)]
  using assms by (intro in_sync_history) (auto simp: server_up_def intro: step_spares)

lemma solid_cong: "same_settings app app' \<Longrightarrow> solid_filters app' = solid_filters app"
  by (simp add: same_settings_def solid_filters_def)

lemma step_pool_key:
  assumes "server_step ul J l app app'" "server_up J app" "i < length (pools (app_Stream app))"
  shows "PoolKey (pools (app_Stream app') ! i) = PoolKey (pools (app_Stream app) ! i)"
  using history.pool_key_stable [of "app_Stream app" i J "step_calls J l app"] assms
  by (simp add: step_stream [OF assms(1,2)] server_up_def)

text \<open>Everything a history keeps for one subscriber.\<close>

definition following ::
  "('p, 'c) wire_scheme \<Rightarrow> (string \<Rightarrow> string \<Rightarrow> bool) \<Rightarrow> nat \<Rightarrow> Conn \<Rightarrow> string \<Rightarrow> string \<Rightarrow> Server \<Rightarrow> bool"
where
  "following J same_json i c start key app \<longleftrightarrow>
     server_up J app \<and> fresh J app \<and> solid_filters app \<and> quiet (app_Storage app) key \<and>
     in_sync J same_json i c start (app_Stream app) \<and> PoolKey (pools (app_Stream app) ! i) = key"

lemma step_following:
  assumes step: "server_step ul J l app app'" and env: "undisturbed J c l app"
    and laws: "wire_laws J same_json" and here: "following J same_json i c start key app"
  shows "following J same_json i c start key app'"
proof -
  have up: "server_up J app" and fr: "fresh J app" and solid: "solid_filters app"
    and q: "quiet (app_Storage app) key" and sync: "in_sync J same_json i c start (app_Stream app)"
    and key: "PoolKey (pools (app_Stream app) ! i) = key"
    using here by (auto simp: following_def)
  have b: "benign J l app" and s: "spares_step c l app" using env by (auto simp: undisturbed_def)
  have settings: "same_settings app app'" using step_storage [OF step up b] by simp
  have "i < length (pools (app_Stream app))" using sync by (simp add: in_sync_def)
  then show ?thesis
    using step_up [OF step up b] step_fresh [OF step up b fr] solid_cong [OF settings] solid
      quiet_cong [OF settings] q step_sync [OF step up laws solid s sync] step_pool_key [OF step up] key
    by (simp add: following_def)
qed

lemma reaches_following:
  assumes "reaches ul J (undisturbed J c) app app'" "wire_laws J same_json"
    and "following J same_json i c start key app"
  shows "following J same_json i c start key app'"
  using assms(3)
  by (rule reaches_invariant [OF assms(1)]) (rule step_following [OF _ _ assms(2)])

lemma in_sync_entry:
  assumes "in_sync J same_json i c start sm"
  shows "(PoolKey (pools sm ! i), cache (pools sm ! i)) \<in> set (entries sm)"
proof -
  have "i - 1 < length (tl (pools sm))" "Suc (i - 1) = i"
    using assms by (auto simp: in_sync_def)
  then have "entries sm ! (i - 1) = (PoolKey (pools sm ! i), cache (pools sm ! i))"
    "i - 1 < length (entries sm)"
    by (auto simp: entries_def map_tl [symmetric] nth_tl)
  then show ?thesis by (metis nth_mem)
qed

lemma following_current:
  assumes laws: "wire_laws J same_json" and here: "following J same_json i c start key app"
    and drained: "\<not> concerned (mem_pending (app_Storage app)) key"
    and data: "getFilteredData J app key = Inr raw"
  shows "same_json raw (replay J (sent (sockets (app_Stream app) c)) start)"
proof -
  let ?p = "pools (app_Stream app) ! i"
  have sync: "in_sync J same_json i c start (app_Stream app)" and key: "PoolKey ?p = key"
    and fr: "fresh J app" and q: "quiet (app_Storage app) key" and solid: "solid_filters app"
    using here by (auto simp: following_def)
  have "current J app key (cache ?p)"
    using in_sync_entry [OF sync] fr q drained unfolding fresh_def key by blast
  then have "CacheData (cache ?p) = document_of raw"
    using sync data by (simp add: current_def in_sync_def)
  moreover have "raw \<noteq> []" using solid_data [OF solid, of J key] data by auto
  ultimately show ?thesis using sync by (simp add: in_sync_def document_of_def)
qed

section \<open>Getting in sync\<close>

text \<open>The pool of the key after \<open>Refresh\<close>, when a fresh cache was there or none.\<close>

lemma Refresh_pool:
  assumes ok: "stream_ok sm" and key: "key \<noteq> ''''" and get: "get key = Inr raw" "raw \<noteq> []"
    and pool: "findPool sm key = int i"
    and cached: "CacheData (cache (pools sm ! i)) = [] \<or> CacheData (cache (pools sm ! i)) = raw"
  shows "\<exists>version. fst (Refresh now key get sm) = Inr \<lparr>Version = version, CacheData = raw\<rparr> \<and>
    0 < i \<and> i < length (pools (snd (Refresh now key get sm))) \<and>
    CacheData (cache (pools (snd (Refresh now key get sm)) ! i)) = raw \<and>
    connections (pools (snd (Refresh now key get sm)) ! i) = connections (pools sm ! i) \<and>
    PoolKey (pools (snd (Refresh now key get sm)) ! i) = key \<and>
    sockets (snd (Refresh now key get sm)) = sockets sm"
proof -
  have i: "i < length (pools sm)" "PoolKey (pools sm ! i) = key"
    using pool by (cases rule: findPool_cases [of sm key]; simp)+
  have "i \<noteq> 0" using ok i key by (cases i) (auto simp: stream_ok_def)
  show ?thesis
  proof (cases "CacheData (cache (pools sm ! i)) = []")
    case True
    then have "GetCacheVersion key sm = Inl (Error ''stream pool cache empty'')"
      using pool by (simp add: GetCacheVersion_def)
    with get pool i \<open>i \<noteq> 0\<close> show ?thesis
      by (simp add: Refresh_data snd_Refresh Stream_setCache_def document_of_def)
  next
    case False
    then have "GetCacheVersion key sm = Inr (Version (cache (pools sm ! i)))"
      using pool by (simp add: GetCacheVersion_def)
    with get pool i \<open>i \<noteq> 0\<close> cached False show ?thesis
      by (simp add: Refresh_data snd_Refresh document_of_def)
  qed
qed

text \<open>The pool of the key after \<open>new\<close>: the connection is in it and its cache is what it was.\<close>

lemma Stream_new_pool:
  fixes key :: string and sm :: Stream
  assumes "stream_ok sm"
  defines "sm' \<equiv> snd (Stream_new key sm)"
  shows "\<exists>i. findPool sm' key = int i \<and> next_conn sm \<in> set (connections (pools sm' ! i)) \<and>
    sockets sm' (next_conn sm) = open_socket \<and>
    (CacheData (cache (pools sm' ! i)) = [] \<or>
     (i < length (pools sm) \<and> PoolKey (pools sm ! i) = key \<and> cache (pools sm' ! i) = cache (pools sm ! i)))"
proof (cases rule: findPool_cases [of sm key])
  case missing
  let ?p = "\<lparr>PoolKey = key, cache = zero_Cache, connections = [next_conn sm]\<rparr>"
  have sm': "pools sm' = pools sm @ [?p]" "sockets sm' (next_conn sm) = open_socket"
    using missing by (simp_all add: sm'_def Stream_new_def Let_def findPool_def)
  have "distinct (map PoolKey (pools sm'))"
    using new_ok [OF assms(1), of key] by (simp add: sm'_def stream_ok_def)
  then have "findPool sm' key = int (length (pools sm))"
    using findPool_from_index [of "pools sm'" "length (pools sm)"] by (simp add: findPool_def sm'(1))
  with sm' show ?thesis
    by (intro exI [of _ "length (pools sm)"]) (simp add: zero_Cache_def)
next
  case (found i)
  let ?p = "(pools sm ! i)\<lparr>connections := connections (pools sm ! i) @ [next_conn sm]\<rparr>"
  have sm': "pools sm' = (pools sm)[i := ?p]" "sockets sm' (next_conn sm) = open_socket"
    using found by (simp_all add: sm'_def Stream_new_def Let_def findPool_def)
  have "findPool sm' key = int i"
    using new.findPool_stable [OF assms(1), of key key] found by (simp add: sm'_def)
  with sm' found show ?thesis by (intro exI [of _ i]) simp
qed

text \<open>
  A websocket request that passes the guards, on a key no waiting event concerns: its connection is
  in sync as soon as the initial message, the call the handler spawns, has been written.
\<close>

lemma subscribe_following:
  assumes laws: "wire_laws J same_json" and up: "server_up J app" and fr: "fresh J app"
    and solid: "solid_filters app" and q: "quiet (app_Storage app) (req_key r)"
    and guards: "IsValid (req_key r)" "audit_ok app r" "req_websocket r" "req_upgrade r = None"
      "OnSubscribe (app_Stream app) (req_key r) = None"
      "router_checkStatic (Read_filters (app_filters app)) (req_key r) (app_Static app) = None"
    and data: "getFilteredData J app (req_key r) = Inr raw"
    and drained: "\<not> concerned (mem_pending (app_Storage app)) (req_key r)"
    and version: "req_v r = ''''"
  defines "c \<equiv> next_conn (app_Stream app)"
  shows "\<exists>app1 app2 i. read J now r app = (Upgraded c, app1) \<and>
    run_spawned (length (spawned app)) app1 = Some app2 \<and> spawned app2 = spawned app \<and>
    following J same_json i c '''' (req_key r) app2"
proof -
  let ?key = "req_key r"
  let ?sm = "app_Stream app"
  define sm1 where "sm1 = snd (Stream_new ?key ?sm)"
  let ?get = "getFilteredData J app"
  have ok: "stream_ok ?sm" using up by (simp add: server_up_def)
  have raw: "raw \<noteq> []" using solid_data [OF solid, of J ?key] data by auto
  have key: "?key \<noteq> ''''" using guards(1) by auto
  have new: "Stream_New ?key (req_upgrade r) ?sm = (Inr c, sm1)"
    using guards by (simp add: Stream_New_def Stream_new_def Let_def c_def sm1_def)
  obtain i where i: "findPool sm1 ?key = int i" "c \<in> set (connections (pools sm1 ! i))"
      "sockets sm1 c = open_socket"
      "CacheData (cache (pools sm1 ! i)) = [] \<or>
       (i < length (pools ?sm) \<and> PoolKey (pools ?sm ! i) = ?key \<and> cache (pools sm1 ! i) = cache (pools ?sm ! i))"
    using Stream_new_pool [OF ok, of ?key] unfolding c_def sm1_def by blast
  have ok1: "stream_ok sm1" unfolding sm1_def by (rule new_ok [OF ok])
  have cached: "CacheData (cache (pools sm1 ! i)) = [] \<or> CacheData (cache (pools sm1 ! i)) = raw"
  proof (rule disjE [OF i(4)])
    assume old: "i < length (pools ?sm) \<and> PoolKey (pools ?sm ! i) = ?key \<and>
      cache (pools sm1 ! i) = cache (pools ?sm ! i)"
    then have "i \<noteq> 0" using ok key by (cases i) (auto simp: stream_ok_def)
    then have "(?key, cache (pools ?sm ! i)) \<in> set (entries ?sm)"
      using old by (auto simp: in_set_conv_nth entries_def nth_tl intro!: exI [of _ "i - 1"])
    then have "current J app ?key (cache (pools ?sm ! i))"
      using fr q drained unfolding fresh_def by blast
    with old data raw show ?thesis by (auto simp: current_def document_of_def)
  qed simp
  define sm2 where "sm2 = snd (Refresh now ?key ?get sm1)"
  obtain v where refresh: "fst (Refresh now ?key ?get sm1) = Inr \<lparr>Version = v, CacheData = raw\<rparr>"
      "0 < i" "i < length (pools sm2)"
      "CacheData (cache (pools sm2 ! i)) = raw"
      "connections (pools sm2 ! i) = connections (pools sm1 ! i)"
      "PoolKey (pools sm2 ! i) = ?key"
      "sockets sm2 = sockets sm1"
    using Refresh_pool [where now = now and get = ?get, OF ok1 key data raw i(1) cached]
    unfolding sm2_def by blast
  let ?g = "WriteInitial c (Encode J raw) True v"
  let ?app1 = "app\<lparr>app_Stream := sm2, spawned := spawned app @ [?g]\<rparr>"
  let ?app2 = "app\<lparr>app_Stream := Stream_Write c (Encode J raw) True v sm2\<rparr>"
  have f: "fetch J now ?key (app\<lparr>app_Stream := sm1\<rparr>) =
      (Inr \<lparr>Version = v, CacheData = raw\<rparr>, app\<lparr>app_Stream := sm2\<rparr>)"
    using guards(6) by (simp add: fetch_def case_prod_beta refresh(1) sm2_def)
  have ws: "Server_ws J now r app = (None, Some (Upgraded c), ?app1)"
    unfolding Server_ws_def Let_def guards(6) option.case new prod.case sum.case f version
    by (simp add: FormatInt_not_Nil [THEN not_sym])
  have rd: "read J now r app = (Upgraded c, ?app1)"
    using guards ws by (simp add: read_def Let_def)
  have run: "run_spawned (length (spawned app)) ?app1 = Some ?app2"
    by (simp add: run_spawned_def)
  have s1: "server_step id J (Read now r) app ?app1"
    by (rule step_read [OF rd])
  have s2: "server_step id J (Run (length (spawned app))) ?app1 ?app2"
    by (rule step_run [OF run])
  have b: "benign J (Read now r) app" "benign J (Run (length (spawned app))) ?app1" by simp_all
  have up1: "server_up J ?app1" by (rule step_up [OF s1 up b(1)])
  have fr1: "fresh J ?app1" by (rule step_fresh [OF s1 up b(1) fr])
  have up2: "server_up J ?app2" by (rule step_up [OF s2 up1 b(2)])
  have fr2: "fresh J ?app2" by (rule step_fresh [OF s2 up1 b(2) fr1])
  have trim: "same_json raw (strings_Trim raw newline)"
    using laws unfolding wire_laws_def patch_law_def by blast
  have "sockets sm2 c = open_socket" using refresh(7) i(3) by simp
  then have w: "Stream_Write c (Encode J raw) True v sm2 =
      sm2\<lparr>sockets := (sockets sm2)(c := open_socket\<lparr>sent := [frame (Encode J raw) True v]\<rparr>)\<rparr>"
    by (simp add: Stream_Write_def write_message_def open_socket_def)
  have "fst (PatchCache J (frame (Encode J raw) True v) '''') = strings_Trim raw newline"
    by (simp add: PatchCache_frame_snapshot [OF laws])
  then have "in_sync J same_json i c '''' (app_Stream ?app2)"
    using refresh i(2) raw trim
    by (simp add: in_sync_def w replay_def open_socket_def)
  moreover have "PoolKey (pools (app_Stream ?app2) ! i) = ?key"
    using refresh(6) by (simp add: w)
  moreover have "solid_filters ?app2" using solid by (simp add: solid_filters_def)
  ultimately have "following J same_json i c '''' ?key ?app2"
    using up2 fr2 q by (simp add: following_def)
  with rd run show ?thesis by (intro exI [of _ ?app1] exI [of _ ?app2] exI [of _ i]) simp
qed

text \<open>A server that has just started has only the clock's pool, hence fresh caches.\<close>

lemma started_fresh: "length (pools (app_Stream app)) = 1 \<Longrightarrow> fresh J app"
  by (cases "pools (app_Stream app)") (simp_all add: fresh_def entries_def)

text \<open>Every request on a ready storage is answered.\<close>

lemma publish_returns:
  fixes J :: "('p, 'c) wire_scheme"
  assumes ready: "storage_ready J (app_Storage app)" and benign: "benign J (Publish b n r) app"
  shows "\<exists>answer. publish J b n r app = Returns answer"
proof (cases "publishable (req_key r) \<and> audit_ok app r")
  case False
  then show ?thesis by (cases "publishable (req_key r)") (simp_all add: publish_refused)
next
  case True
  then have guards: "publishable (req_key r)" "audit_ok app r" by auto
  show ?thesis
  proof (cases "DecodeReader J (req_body r)")
    case (Inl err)
    then show ?thesis by (simp add: publish_refused(3) [OF guards])
  next
    case (Inr event)
    show ?thesis
    proof (cases "router_check (Write_filters (app_filters app)) (Build b (req_key r)) (MsgData event) (app_Static app)")
      case (Inl err)
      then show ?thesis by (simp add: publish_refused(4) [OF guards Inr])
    next
      case data: (Inr data)
      have "IsValid (req_key r)" using guards(1) by (simp add: publishable_iff)
      then have "storable (Build b (req_key r)) data"
        using benign Inr data by (simp add: storable_def json_safe_Build)
      from publish_stores [where set_now = n, OF ready guards Inr data this] show ?thesis by blast
    qed
  qed
qed

lemma unpublish_returns:
  assumes "storage_ready J (app_Storage app)"
  shows "\<exists>answer. unpublish r app = Returns answer"
  using unpublish_deletes [OF assms, of r]
  by (cases "IsValid (req_key r)"; cases "audit_ok app r";
      cases "hooks_check (Delete_filters (app_filters app)) (req_key r) (app_Static app)")
    (auto simp: unpublish_refused)

text \<open>A worker always takes the oldest event, and taking them all takes them out of the way.\<close>

lemma watch_step_takes:
  assumes "storage_ready J (app_Storage app)" "0 < watching app" "mem_pending (app_Storage app) = ev # evs"
  shows "\<exists>app'. watch_step J nows app = Some app' \<and> mem_pending (app_Storage app') = evs \<and>
    mem (app_Storage app') = mem (app_Storage app) \<and> watching app' = watching app"
proof -
  have st: "started (app_Storage app)" using assms(1) by (simp add: storage_ready_def)
  then obtain ch where ch: "watcher (app_Storage app) = Some ch" by (auto simp: started_def)
  then have w: "watcher (app_Storage app) = Some (ev # evs)" using assms(3) by (simp add: mem_pending_def)
  let ?app = "app\<lparr>app_Storage := (app_Storage app)\<lparr>watcher := Some evs\<rparr>\<rparr>"
  have act: "MemoryStorage_Active (app_Storage (watch_event J nows ev ?app)) = Returns True"
    using st by (auto simp: watch_event_def started_def MemoryStorage_Active_def)
  have "watch_step J nows app = Some (watch_event J nows ev ?app)"
    using assms(2) w act by (simp add: watch_step_def Let_def)
  then show ?thesis by (simp add: watch_event_def mem_pending_def)
qed

lemma workers_drain:
  assumes "server_up J app" "0 < watching app"
  shows "\<exists>app'. reaches ul J (benign J) app app' \<and> mem_pending (app_Storage app') = [] \<and>
    mem (app_Storage app') = mem (app_Storage app)"
  using assms
proof (induction "mem_pending (app_Storage app)" arbitrary: app)
  case Nil
  then show ?case by (metis reaches_refl)
next
  case (Cons ev evs)
  have ready: "storage_ready J (app_Storage app)" using Cons.prems(1) by (simp add: server_up_def)
  obtain app1 where app1: "watch_step J (\<lambda>i. 0) app = Some app1" "mem_pending (app_Storage app1) = evs"
      "mem (app_Storage app1) = mem (app_Storage app)" "watching app1 = watching app"
    using watch_step_takes [OF ready Cons.prems(2) Cons.hyps(2) [symmetric]] by blast
  have step: "server_step ul J (Work (\<lambda>i. 0)) app app1" by (rule step_work [OF app1(1)])
  have up1: "server_up J app1" by (rule step_up [OF step Cons.prems(1)]) simp
  obtain app' where app': "reaches ul J (benign J) app1 app'" "mem_pending (app_Storage app') = []"
      "mem (app_Storage app') = mem (app_Storage app1)"
    using Cons.hyps(1) [of app1] up1 app1(2,4) Cons.prems(2) by auto
  have "reaches ul J (benign J) app app1" by (rule reaches_step [OF reaches_refl _ step]) simp
  with app' app1(3) show ?case by (metis reaches_trans)
qed

end
