(* ===== verification/KeyProperties.thy ===== *)
theory KeyProperties
  imports Filters
begin

text \<open>
  The properties of keys, patterns and filters, each with a concrete instance where it has a
  hypothesis.
\<close>

section \<open>Segments of a valid key\<close>

lemma sublist_Cons_segment:
  "sublist [c, d] (x # s) \<longleftrightarrow> (x = c \<and> s \<noteq> [] \<and> hd s = d) \<or> sublist [c, d] s"
  by (cases s) (auto simp: sublist_Cons_right)

lemma Split_parts:
  assumes "c \<noteq> slash" "d \<noteq> slash"
  shows "sublist [c, d] k \<longleftrightarrow> (\<exists>s \<in> set (strings_Split k slash). sublist [c, d] s)"
proof (induction k)
  case (Cons x k)
  obtain p ps where sp: "strings_Split k slash = p # ps" by (meson list.exhaust strings_Split_not_Nil)
  have hd: "k \<noteq> [] \<and> hd k = d \<longleftrightarrow> p \<noteq> [] \<and> hd p = d"
  proof (cases k)
    case Nil
    then show ?thesis using sp by simp
  next
    case k: (Cons y k')
    obtain q qs where "strings_Split k' slash = q # qs" by (meson list.exhaust strings_Split_not_Nil)
    with k sp assms(2) show ?thesis by (cases "y = slash") auto
  qed
  show ?case
  proof (cases "x = slash")
    case True
    with Cons.IH assms(1) show ?thesis by (simp add: sublist_Cons_segment)
  next
    case False
    with Cons.IH sp hd show ?thesis by (auto simp: sublist_Cons_segment)
  qed
qed simp

lemma first_segment_empty: "hd (strings_Split k slash) = [] \<longleftrightarrow> k = [] \<or> hd k = slash"
proof (cases k)
  case (Cons y k')
  obtain q qs where "strings_Split k' slash = q # qs" by (meson list.exhaust strings_Split_not_Nil)
  with Cons show ?thesis by (cases "y = slash") auto
qed simp

lemma later_segment_empty:
  "k \<noteq> [] \<Longrightarrow> [] \<in> set (tl (strings_Split k slash)) \<longleftrightarrow> last k = slash \<or> sublist ''//'' k"
proof (induction k)
  case (Cons x k)
  obtain p ps where sp: "strings_Split k slash = p # ps" by (meson list.exhaust strings_Split_not_Nil)
  show ?case
  proof (cases "k = []")
    case True
    then show ?thesis by (auto simp: sublist_Cons_segment)
  next
    case False
    then have IH: "[] \<in> set ps \<longleftrightarrow> last k = slash \<or> sublist ''//'' k"
      using Cons.IH sp by simp
    have "p = [] \<longleftrightarrow> hd k = slash"
      using first_segment_empty [of k] sp False by simp
    with IH sp False show ?thesis
      by (cases "x = slash") (auto simp: sublist_Cons_segment)
  qed
qed simp

lemma empty_segment:
  "k \<noteq> [] \<Longrightarrow>
     [] \<in> set (strings_Split k slash) \<longleftrightarrow> hd k = slash \<or> last k = slash \<or> sublist ''//'' k"
  using first_segment_empty [of k] later_segment_empty [of k] strings_Split_not_Nil [of k slash]
  by (cases "strings_Split k slash") auto

lemma segment_chars:
  "list_all path_char k \<longleftrightarrow> (\<forall>s \<in> set (strings_Split k slash). list_all glob_char s)"
proof (induction k)
  case (Cons x k)
  obtain p ps where sp: "strings_Split k slash = p # ps" by (meson list.exhaust strings_Split_not_Nil)
  have "\<not> glob_char slash" by (simp add: glob_char_def is_alnum_def)
  with Cons sp show ?case by (cases "x = slash") (auto simp: path_char_def)
qed simp

lemma segment_length: "[] \<notin> set (strings_Split k slash) \<Longrightarrow> k \<noteq> []"
  by auto


lemma IsValid_segmentwise:
  "IsValid key \<longleftrightarrow>
     (\<forall>s \<in> set (strings_Split key slash). s \<noteq> [] \<and> list_all glob_char s \<and> \<not> sublist ''**'' s) \<and>
     length key \<noteq> 2"
proof (cases "key = []")
  case False
  have "sublist ''**'' key \<longleftrightarrow> (\<exists>s \<in> set (strings_Split key slash). sublist ''**'' s)"
    by (rule Split_parts) simp_all
  with False segment_chars [of key] empty_segment [of key] show ?thesis
    by (auto simp: IsValid_iff)
qed (simp add: IsValid_iff)

lemma valid_Build_list:
  assumes valid: "IsValid (p @ ''/*'')" and p: "star \<notin> set p" and now: "0 \<le> sint now"
  shows "IsValid (p @ slash # FormatInt now 16)"
proof -
  have pne: "p \<noteq> []" "hd p \<noteq> slash" using valid by (auto simp: IsValid_iff hd_append split: if_splits)
  have seg: "strings_Split (q @ slash # w) slash = strings_Split q slash @ [w]" if "slash \<notin> set w" for q w
  proof (induction q)
    case (Cons c q)
    then show ?case by (cases "strings_Split q slash") auto
  qed (use that in \<open>simp add: strings_Split_no_sep\<close>)
  have alnum: "list_all is_alnum (FormatInt now 16)"
    by (rule FormatInt_nonneg_alnum) (use now in simp_all)
  then have chars: "list_all glob_char (FormatInt now 16)"
    by (auto simp: list_all_iff glob_char_def)
  have "star \<notin> set (FormatInt now 16)" by (rule FormatInt_no_slash_star) simp
  then have nostar: "\<not> sublist ''**'' (FormatInt now 16)"
    using set_mono_sublist by fastforce
  have noslash: "slash \<notin> set (FormatInt now 16)" by (rule FormatInt_no_slash_star) simp
  have "\<forall>s \<in> set (strings_Split p slash). s \<noteq> [] \<and> list_all glob_char s \<and> \<not> sublist ''**'' s"
    using valid seg [of "''*''" p] by (simp add: IsValid_segmentwise)
  moreover have "FormatInt now 16 \<noteq> []" by simp
  ultimately have "\<forall>s \<in> set (strings_Split (p @ slash # FormatInt now 16) slash).
      s \<noteq> [] \<and> list_all glob_char s \<and> \<not> sublist ''**'' s"
    using chars nostar by (simp add: seg [OF noslash])
  moreover have "length (p @ slash # FormatInt now 16) \<noteq> 2"
    using pne by (cases p; cases "FormatInt now 16") auto
  ultimately show ?thesis unfolding IsValid_segmentwise by blast
qed

section \<open>Properties\<close>

text \<open>
  A key is valid exactly when it is a sequence of non-empty segments of letters, digits and
  stars, none with two stars in a row, and is not two characters long: the expression of
  \<^verbatim>\<open>GlobRegex\<close> accepts one character or at least three.
\<close>

theorem valid_key_segments:
  "IsValid key \<longleftrightarrow>
     list_all (\<lambda>s. s \<noteq> [] \<and> list_all glob_char s \<and> \<not> sublist ''**'' s) (strings_Split key slash) \<and>
     length key \<noteq> 2"
  unfolding IsValid_segmentwise list_all_iff [of _ "strings_Split key slash"] ..

text \<open>
  C11: a valid pattern covers exactly the keys with as many segments, each covered by the segment
  in its place: a star stands for any characters of its own segment.
\<close>

theorem pattern_covers_segmentwise:
  assumes "IsValid pattern"
  shows "Match pattern key \<longleftrightarrow>
    pattern = key \<or>
    (star \<in> set pattern \<and> list_all2 globs (strings_Split pattern slash) (strings_Split key slash))"
  using Match_segments [OF IsValid_plain [OF assms]] .

theorem pattern_covers_segmentwise_witness:
  "IsValid ''game/*/x'' \<and> \<not> Match ''game/*/x'' ''game/box''"
proof -
  have v: "IsValid ''game/*/x''" by code_simp
  show ?thesis using pattern_covers_segmentwise [OF v, of "''game/box''"] v by simp
qed

text \<open>
  C10: the backtracking matcher of Go's \<^verbatim>\<open>path/filepath\<close>, which \<open>Match\<close> calls, decides the
  meaning of a pattern: for patterns of ordinary characters and stars it never fails, and answers
  yes exactly when the stars can be replaced by slash free text to give the key. With this the answer
  of \<open>Match\<close> on such a pattern is that meaning.
\<close>

theorem matcher_decides_globs:
  assumes "plain_pattern pattern"
  shows "filepath_Match pattern key = Inr (globs pattern key) \<and>
    (Match pattern key \<longleftrightarrow> pattern = key \<or> (star \<in> set pattern \<and> globs pattern key))"
  using filepath_Match_plain [OF assms] Match_plain [OF assms] by simp

theorem matcher_decides_globs_witness:
  "filepath_Match ''a*b*c'' ''axbyc'' = Inr True"
proof -
  have plain: "plain_pattern ''a*b*c''" by code_simp
  have "filepath_Match ''a*b*c'' ''axbyc'' = Inr True" by code_simp
  with matcher_decides_globs [OF plain, of "''axbyc''"] show ?thesis by simp
qed

text \<open>
  C16: publishing to a list makes a fresh element: for a valid list pattern and a time that is not
  negative, \<open>Build\<close> gives a valid key without a star that the pattern covers, whose last segment
  decodes to the time, and another time gives another key.
\<close>

theorem built_key_is_fresh_element:
  assumes "IsValid (p @ ''/*'')" "star \<notin> set p" "0 \<le> sint now"
  shows "IsValid (Build now (p @ ''/*'')) \<and> star \<notin> set (Build now (p @ ''/*'')) \<and>
    Match (p @ ''/*'') (Build now (p @ ''/*'')) \<and> Decode (LastIndex (Build now (p @ ''/*''))) = now \<and>
    (\<forall>later. later \<noteq> now \<longrightarrow> Build later (p @ ''/*'') \<noteq> Build now (p @ ''/*''))"
proof -
  have "plain_pattern p" using IsValid_plain [OF assms(1)] by simp
  then show ?thesis
    using assms valid_Build_list [OF assms] Match_Build_list [OF assms(2)]
    by (simp add: Build_list LastIndex_append FormatInt_no_slash_star FormatInt_inject)
qed

theorem built_key_is_fresh_element_witness:
  "IsValid ''box/2a'' \<and> Match ''box/*'' ''box/2a''"
proof -
  have v: "IsValid (''box'' @ ''/*'')" by code_simp
  have p: "star \<notin> set ''box''" by simp
  have now: "0 \<le> sint (42 :: int64)" by simp
  have built: "Build 42 (''box'' @ ''/*'') = ''box/2a''" by code_simp
  show ?thesis using built_key_is_fresh_element [OF v p now] unfolding built by simp
qed

section \<open>Filters\<close>

lemma find_first:
  "\<forall>g \<in> set pre. \<not> P g \<Longrightarrow> P f \<Longrightarrow> find P (pre @ f # post) = Some f"
  by (induction pre) auto

lemma find_none: "\<forall>g \<in> set r. \<not> P g \<Longrightarrow> find P r = None"
  by (simp add: find_None_iff)

lemma match_index_find:
  "(match_index path_of r path = -1 \<and> find (covers path_of path) r = None) \<or>
   (\<exists>f. match_index path_of r path \<noteq> -1 \<and> find (covers path_of path) r = Some f \<and>
      r ! nat (match_index path_of r path) = f)"
proof (cases rule: match_index_cases [of path_of r path])
  case none
  then show ?thesis by (simp add: find_none)
next
  case (first pre f post)
  then show ?thesis using find_first [of pre "covers path_of path" f post] by simp
qed

lemma router_check_find:
  "router_check r path data static =
     (case find (covers filter_path path) r of
        None \<Rightarrow> if static then Inl (static_error path) else Inr data
      | Some f \<Rightarrow> filter_apply f path data)"
  using match_index_find [of filter_path r path] by (auto simp: router_check_def Let_def)

lemma router_checkStatic_find:
  "router_checkStatic r path static =
     (if static \<and> find (covers filter_path path) r = None then Some (static_error path) else None)"
  using match_index_find [of filter_path r path] by (auto simp: router_checkStatic_def Let_def)

lemma hooks_check_find:
  "hooks_check h path static =
     (case find (covers hook_path path) h of
        None \<Rightarrow> if static then Some (static_error path) else None
      | Some f \<Rightarrow> hook_apply f path)"
  using match_index_find [of hook_path h path] by (auto simp: hooks_check_def Let_def)

lemma watchers_check_find:
  "watchers_check w path =
     (case find (covers watch_path path) w of None \<Rightarrow> [] | Some f \<Rightarrow> [(watch_apply f, path)])"
  using match_index_find [of watch_path w path] by (auto simp: watchers_check_def Let_def)

lemmas checks_find = router_check_find router_checkStatic_find hooks_check_find watchers_check_find

lemma find_snoc:
  "find P (r @ [f]) = (case find P r of None \<Rightarrow> if P f then Some f else None | Some g \<Rightarrow> Some g)"
  by (induction r) auto

text \<open>
  Each of the four tables is decided by the first entry that covers the path, in the order of
  registration. Without one, a static server refuses and another lets the data through; a watcher
  is notified at most once.
\<close>

theorem first_route_decides:
  "router_check r path data static =
     (case find (covers filter_path path) r of
        None \<Rightarrow> if static then Inl (static_error path) else Inr data
      | Some f \<Rightarrow> filter_apply f path data) \<and>
   router_checkStatic r path static =
     (if static \<and> find (covers filter_path path) r = None then Some (static_error path) else None) \<and>
   hooks_check h path static =
     (case find (covers hook_path path) h of
        None \<Rightarrow> if static then Some (static_error path) else None
      | Some f \<Rightarrow> hook_apply f path) \<and>
   watchers_check w path =
     (case find (covers watch_path path) w of None \<Rightarrow> [] | Some f \<Rightarrow> [(watch_apply f, path)])"
  by (intro conjI checks_find)

text \<open>
  \<open>OpenFilter\<close> opens a route of a static server for reading, writing and deleting: a path it
  covers is never refused as undefined, its data passes unchanged unless an earlier filter covers
  it, and paths it does not cover are treated as before.
\<close>

theorem open_filter_opens:
  assumes "covers id path name"
  shows "router_checkStatic (Read_filters (OpenFilter name fs)) path True = None \<and>
    router_checkStatic (Write_filters (OpenFilter name fs)) path True = None \<and>
    (find (covers filter_path path) (Read_filters fs) = None \<longrightarrow>
       router_check (Read_filters (OpenFilter name fs)) path data static = Inr data) \<and>
    (find (covers filter_path path) (Write_filters fs) = None \<longrightarrow>
       router_check (Write_filters (OpenFilter name fs)) path data static = Inr data) \<and>
    (find (covers hook_path path) (Delete_filters fs) = None \<longrightarrow>
       hooks_check (Delete_filters (OpenFilter name fs)) path static = None) \<and>
    (\<forall>other. \<not> covers id other name \<longrightarrow>
       router_check (Read_filters (OpenFilter name fs)) other data static =
         router_check (Read_filters fs) other data static \<and>
       router_check (Write_filters (OpenFilter name fs)) other data static =
         router_check (Write_filters fs) other data static \<and>
       hooks_check (Delete_filters (OpenFilter name fs)) other static =
         hooks_check (Delete_filters fs) other static)"
  using assms
  by (auto simp: checks_find OpenFilter_def DeleteFilter_def ReadFilter_def WriteFilter_def find_snoc
      covers_def NoopFilter_def NoopHook_def split: option.splits)

theorem open_filter_opens_witness:
  "router_check (Read_filters (OpenFilter ''game/*''
     \<lparr>Write_filters = [], Read_filters = [], Delete_filters = [], After_filters = []\<rparr>)) ''game/x'' ''d'' True = Inr ''d''"
proof -
  have c: "covers id ''game/x'' ''game/*''" by code_simp
  show ?thesis
    using open_filter_opens [OF c,
      of "\<lparr>Write_filters = [], Read_filters = [], Delete_filters = [], After_filters = []\<rparr>" "''d''" True]
    by simp
qed

end
