(* ===== verification/StorageProperties.thy ===== *)
theory StorageProperties
  imports MemoryQueries RefCodec
begin

text \<open>
  The properties of the default storage and of the objects it holds. The instances use the
  concrete codec \<open>ref_wire\<close>, which meets the laws assumed of the packages outside the repository.
\<close>

section \<open>A concrete storage\<close>

definition fresh_storage :: MemoryStorage where
  "fresh_storage = MemoryStorage_Start \<lparr>OptNoBroadcastKeys = []\<rparr> empty_MemoryStorage"

lemma fresh_storage_ready: "storage_ready ref_wire fresh_storage"
  using Start_started [of "\<lparr>OptNoBroadcastKeys = []\<rparr>" empty_MemoryStorage]
  by (simp add: fresh_storage_def storage_ready_def ref_object_law ref_objects_law Start_frame
      empty_MemoryStorage_def mem_ok_def)

lemma fresh_storage_mem [simp]: "mem fresh_storage = []"
  by (simp add: fresh_storage_def Start_frame empty_MemoryStorage_def)

lemma fresh_storage_contents [simp]: "mem_contents J fresh_storage = Map.empty"
  by (simp add: mem_contents_def fun_eq_iff)

lemma fresh_storage_events [simp]: "mem_pending fresh_storage = []" "\<not> mem_muted fresh_storage k"
  by (simp_all add: fresh_storage_def MemoryStorage_Start_def empty_MemoryStorage_def mem_pending_def
      mem_muted_def Let_def)

lemma storable_example: "storable ''box'' ''e30=''" "storable ''box/1'' ''e30=''"
  by (simp_all add: storable_def json_safe_def json_safe_char_def)

section \<open>Properties\<close>

text \<open>
  C3: \<^verbatim>\<open>MemoryStorage\<close> is a map from keys to objects. Any sequence of writes and deletes on a
  started storage returns, leaves in it exactly what the same operations do to a map (a write stamps a new
  key with its creation and an old one with its update, a delete removes a key, or every key a pattern
  covers), and sends on the watch channel one event for each operation, in order, except for muted keys and
  for deletes of a missing key.
\<close>

theorem storage_history_refines_map:
  assumes "storage_ready J db" "list_all op_storable ops"
  shows "\<exists>db'. run_ops (MemoryStorage_Set J) MemoryStorage_Del ops db = Returns db' \<and> storage_ready J db' \<and>
    mem_contents J db' = fold spec_op ops (mem_contents J db) \<and> mem_muted db' = mem_muted db \<and>
    mem_pending db' = mem_pending db @ spec_events (mem_muted db) ops (mem_contents J db)"
  using assms by (rule memory.run_ops_refines)

theorem storage_history_refines_map_witness:
  "\<exists>db. run_ops (MemoryStorage_Set ref_wire) MemoryStorage_Del
      [OpSet 5 ''box'' ''e30='', OpSet 9 ''box'' ''e30='', OpDel ''ball''] fresh_storage = Returns db \<and>
    mem_contents ref_wire db = [''box'' \<mapsto> \<lparr>Created = 5, Updated = 9, Index = ''box'', Data = ''e30=''\<rparr>] \<and>
    map EvOperation (mem_pending db) = [''set'', ''set'']"
proof -
  have ops: "list_all op_storable [OpSet 5 ''box'' ''e30='', OpSet 9 ''box'' ''e30='', OpDel ''ball'']"
    using storable_example by simp
  have "LastIndex ''box'' = ''box''" by code_simp
  with storage_history_refines_map [OF fresh_storage_ready ops] show ?thesis
    by (auto simp: stamp_object_def fun_upd_idem)
qed

lemma Set_other_key:
  "MemoryStorage_Set J now db path data = Returns (index, db') \<Longrightarrow> other \<noteq> path \<Longrightarrow> star \<notin> set other \<Longrightarrow>
     MemoryStorage_Get J db' other = MemoryStorage_Get J db other"
  using Set_mem [of J now db path data index db'] by (auto simp: MemoryStorage_Get_def update_conv')

text \<open>
  A key without a star that has been written reads back as an object with the data, the last
  segment as index, the time of its first write as creation and, from the second write on, the time of the
  write as update; no other key reads differently.
\<close>

theorem write_then_read:
  assumes "storage_ready J db" "storable path data" "star \<notin> set path"
  shows "\<exists>db' s. MemoryStorage_Set J now db path data = Returns (LastIndex path, db') \<and> storage_ready J db' \<and>
    MemoryStorage_Get J db' path = Inr s \<and>
    DecodeRaw J s = Inr \<lparr>Created = (case mem_contents J db path of None \<Rightarrow> now | Some old \<Rightarrow> Created old),
      Updated = (case mem_contents J db path of None \<Rightarrow> 0 | Some old \<Rightarrow> now),
      Index = LastIndex path, Data = data\<rparr> \<and>
    (\<forall>other. other \<noteq> path \<longrightarrow> star \<notin> set other \<longrightarrow>
       MemoryStorage_Get J db' other = MemoryStorage_Get J db other)"
  using memory.get_after_set [OF assms, of now] Set_other_key unfolding stamp_object_def by blast

theorem write_then_read_witness:
  "\<exists>db s. MemoryStorage_Set ref_wire 7 fresh_storage ''box'' ''e30='' = Returns (''box'', db) \<and>
    MemoryStorage_Get ref_wire db ''box'' = Inr s \<and>
    DecodeRaw ref_wire s = Inr \<lparr>Created = 7, Updated = 0, Index = ''box'', Data = ''e30=''\<rparr>"
proof -
  have star: "star \<notin> set ''box''" by simp
  have "LastIndex ''box'' = ''box''" by code_simp
  with write_then_read [OF fresh_storage_ready storable_example(1) star, of 7] show ?thesis by auto
qed

text \<open>
  A delete of a key answers "not found" exactly when the key was missing; after it the key is
  not found, by a read or by a second delete. A delete of a pattern always succeeds and leaves nothing for
  the pattern to cover.
\<close>

theorem delete_forgets:
  assumes "storage_ready J db"
  shows "(star \<notin> set path \<longrightarrow>
      (\<exists>db'. MemoryStorage_Del db path =
           Returns (if mem_contents J db path = None then Some not_found else None, db') \<and>
         MemoryStorage_Get J db' path = Inl not_found \<and>
         (\<exists>db''. MemoryStorage_Del db' path = Returns (Some not_found, db'')))) \<and>
    (star \<in> set path \<longrightarrow>
      (\<exists>db' s. MemoryStorage_Del db path = Returns (None, db') \<and>
         MemoryStorage_Get J db' path = Inr s \<and> unmarshal_objects J s = Inr []))"
proof (intro conjI impI)
  assume star: "star \<notin> set path"
  obtain db' where "MemoryStorage_Del db path =
      Returns (if mem_contents J db path = None then Some not_found else None, db')"
    using memory.del_spec [OF assms, of path] star by auto
  moreover obtain r db1 where "MemoryStorage_Del db path = Returns (r, db1)"
      "MemoryStorage_Get J db1 path = Inl not_found" "\<exists>db''. MemoryStorage_Del db1 path = Returns (Some not_found, db'')"
    using memory.get_after_del [OF assms star] by blast
  ultimately show "\<exists>db'. MemoryStorage_Del db path =
        Returns (if mem_contents J db path = None then Some not_found else None, db') \<and>
      MemoryStorage_Get J db' path = Inl not_found \<and> (\<exists>db''. MemoryStorage_Del db' path = Returns (Some not_found, db''))"
    by auto
next
  assume "star \<in> set path"
  with memory.pattern_empty_after_del [OF assms] show "\<exists>db' s. MemoryStorage_Del db path = Returns (None, db') \<and>
      MemoryStorage_Get J db' path = Inr s \<and> unmarshal_objects J s = Inr []"
    by blast
qed

theorem delete_forgets_witness:
  "\<exists>db. MemoryStorage_Del fresh_storage ''box'' = Returns (Some not_found, db) \<and>
    MemoryStorage_Get ref_wire db ''box'' = Inl not_found"
  using delete_forgets [OF fresh_storage_ready, of "''box''"] by auto

text \<open>
  C25: reading a pattern gives every stored object whose key the pattern covers, once, the most
  recently touched first.
\<close>

theorem pattern_read_newest_first:
  assumes "storage_ready J db" "star \<in> set pattern"
  shows "\<exists>s objs. MemoryStorage_Get J db pattern = Inr s \<and> unmarshal_objects J s = Inr objs \<and>
    mset objs = image_mset (\<lambda>k. the (mem_contents J db k))
      (mset_set {k \<in> dom (mem_contents J db). Match pattern k}) \<and>
    sorted_wrt (\<lambda>x y. max (sint (Updated y)) (sint (Created y)) \<le> max (sint (Updated x)) (sint (Created x))) objs"
proof -
  obtain s objs where "MemoryStorage_Get J db pattern = Inr s" "unmarshal_objects J s = Inr objs"
      "sorted_wrt (\<lambda>x y. \<not> object_less y x) objs"
      "mset objs = image_mset (\<lambda>k. the (mem_contents J db k))
        (mset_set {k \<in> dom (mem_contents J db). Match pattern k})"
    using memory.get_pattern [OF assms] by blast
  then show ?thesis
    by (intro exI [of _ s] exI [of _ objs])
      (auto elim!: sorted_wrt_mono_rel [rotated] simp: object_less_def sint_max_int64 not_less)
qed

lemma stored_example:
  "\<exists>db. MemoryStorage_Set ref_wire 7 fresh_storage ''box/1'' ''e30='' = Returns (''1'', db) \<and> storage_ready ref_wire db \<and>
    mem_contents ref_wire db = [''box/1'' \<mapsto> \<lparr>Created = 7, Updated = 0, Index = ''1'', Data = ''e30=''\<rparr>]"
proof -
  have "LastIndex ''box/1'' = ''1''" by code_simp
  with memory.set_spec [OF fresh_storage_ready storable_example(2), of 7] show ?thesis
    by (auto simp: stamp_object_def)
qed

theorem pattern_read_newest_first_witness:
  "\<exists>db s. MemoryStorage_Set ref_wire 7 fresh_storage ''box/1'' ''e30='' = Returns (''1'', db) \<and>
    MemoryStorage_Get ref_wire db ''box/*'' = Inr s \<and>
    unmarshal_objects ref_wire s = Inr [\<lparr>Created = 7, Updated = 0, Index = ''1'', Data = ''e30=''\<rparr>]"
proof -
  obtain db where db: "MemoryStorage_Set ref_wire 7 fresh_storage ''box/1'' ''e30='' = Returns (''1'', db)"
      "storage_ready ref_wire db"
      "mem_contents ref_wire db = [''box/1'' \<mapsto> \<lparr>Created = 7, Updated = 0, Index = ''1'', Data = ''e30=''\<rparr>]"
    using stored_example by blast
  have star: "star \<in> set ''box/*''" by simp
  have "Match ''box/*'' ''box/1''" by code_simp
  then have "{k \<in> dom (mem_contents ref_wire db). Match ''box/*'' k} = {''box/1''}"
    by (auto simp: db(3))
  with pattern_read_newest_first [OF db(2) star] db(1) show ?thesis
    by (auto simp: db(3))
qed

text \<open>
  \<open>KeysRange\<close> on every branch: without a star the pattern is refused, an inverted range is
  refused, and otherwise the keys returned are those the pattern covers whose last segment decodes to a time
  within the bounds, both included.
\<close>

theorem keys_range_exact:
  "MemoryStorage_KeysRange db path from_time to_time =
     (if star \<notin> set path then Inl (Error ''katamari: invalid pattern'')
      else if sint to_time < sint from_time then Inl (Error ''katamari: invalid range'')
      else Inr (filter (\<lambda>k. Match path k \<and> sint from_time \<le> sint (Decode (LastIndex k)) \<and>
        sint (Decode (LastIndex k)) \<le> sint to_time) (map fst (mem db))))"
  by (simp add: MemoryStorage_KeysRange_def KeysRange_visit_filter in_range_def not_less)

text \<open>
  \<open>GetN\<close> returns as many objects as the limit allows, the most recent first, and no object
  it leaves out is more recent than one it returns; a bad pattern and a limit that is not positive are
  refused.
\<close>

theorem getn_returns_newest:
  assumes "star \<in> set path" "0 < limit"
  shows "\<exists>res omitted. MemoryStorage_GetN J db path limit = Inr res \<and>
    length res = min (nat limit) (length (Get_visit (Decode_object J) path (mem db))) \<and>
    mset (res @ omitted) = mset (Get_visit (Decode_object J) path (mem db)) \<and>
    sorted_wrt (\<lambda>x y. \<not> object_less y x) res \<and>
    (\<forall>x \<in> set res. \<forall>y \<in> set omitted. \<not> object_less y x)"
  using GetN_result [OF assms] by blast

theorem getn_returns_newest_witness:
  "\<exists>res. MemoryStorage_GetN ref_wire fresh_storage ''box/*'' 3 = Inr res \<and> length res = 0"
proof -
  have star: "star \<in> set ''box/*''" and limit: "0 < (3 :: int)" by simp_all
  from getn_returns_newest [OF star limit, of ref_wire fresh_storage] show ?thesis by auto
qed

text \<open>
  \<open>GetNRange\<close> is \<open>GetN\<close> on the entries whose key decodes to a time in the range, errors
  included; unlike \<open>KeysRange\<close> it does not refuse an inverted range, which simply holds nothing.
\<close>

theorem getnrange_is_getn_in_range:
  "MemoryStorage_GetNRange J db path limit from_time to_time =
     MemoryStorage_GetN J
       (db\<lparr>mem := filter (\<lambda>kv. sint from_time \<le> sint (Decode (LastIndex (fst kv))) \<and>
          sint (Decode (LastIndex (fst kv))) \<le> sint to_time) (mem db)\<rparr>) path limit"
  using GetNRange_eq_GetN by (simp add: in_range_def)

text \<open>
  \<open>Keys\<close> encodes every stored key once, in the order of their lower case.
\<close>

theorem keys_listed_in_lower_case_order:
  "\<exists>ks. MemoryStorage_Keys unicode_lower J db = Encode_json (marshal_stats J) ks \<and>
     mset ks = mset (map fst (mem db)) \<and>
     sorted_wrt (\<lambda>a b. strings_ToLower unicode_lower a \<le> strings_ToLower unicode_lower b) ks"
  by (rule Keys_sorted_permutation)

lemma Set_inactive:
  "MemoryStorage_Active db = Returns False \<Longrightarrow>
     \<exists>db'. MemoryStorage_Set J now db path data = Returns (LastIndex path, db') \<and> watcher db' = watcher db \<and>
       map_of (mem db') path \<noteq> None"
  by (simp add: MemoryStorage_Set_def Let_def broadcast_event_inactive MemoryStorage_Active_def
      update_conv' split: prod.split)

text \<open>
  C33: the life cycle. A started storage closes and keeps its entries; closed, it is inactive, still
  stores what is written but sends no event, closing it again panics on the nil channel, and it can be started
  again. On a storage that was never started a write of a key that is not muted panics.
\<close>

theorem storage_life_cycle:
  assumes "started db"
  shows "\<exists>db'. MemoryStorage_Close db = Returns db' \<and> mem db' = mem db \<and>
    MemoryStorage_Active db' = Returns False \<and>
    MemoryStorage_Close db' = Panics CloseOfNilChannel \<and>
    (\<exists>db''. MemoryStorage_Set J now db' path data = Returns (LastIndex path, db'') \<and> watcher db'' = None \<and>
       map_of (mem db'') path \<noteq> None) \<and>
    started (MemoryStorage_Start opt db') \<and> mem (MemoryStorage_Start opt db') = mem db \<and>
    (\<forall>raw. storage raw = None \<longrightarrow> \<not> Contains (noBroadcastKeys raw) path \<longrightarrow>
       MemoryStorage_Set J now raw path data = Panics NilDereference)"
proof -
  obtain db' where db': "MemoryStorage_Close db = Returns db'" "mem db' = mem db"
      "MemoryStorage_Active db' = Returns False" "watcher db' = None"
    using Close_started [OF assms] by blast
  have "MemoryStorage_Close db' = Panics CloseOfNilChannel"
    using db'(3,4) by (auto simp: MemoryStorage_Close_def MemoryStorage_Active_def split: option.splits)
  moreover have "MemoryStorage_Set J now raw path data = Panics NilDereference"
    if "storage raw = None" "\<not> Contains (noBroadcastKeys raw) path" for raw
    using that by (simp add: MemoryStorage_Set_def Let_def broadcast_event_def MemoryStorage_Active_def split: prod.split)
  ultimately show ?thesis
    using db' Set_inactive [OF db'(3), of J now path data] Start_started [of opt db'] Start_frame [of opt db']
    by auto
qed

theorem storage_life_cycle_witness:
  "\<exists>db. MemoryStorage_Close fresh_storage = Returns db \<and> MemoryStorage_Close db = Panics CloseOfNilChannel"
proof -
  have "started fresh_storage" by (simp add: fresh_storage_def Start_started)
  from storage_life_cycle [OF this] show ?thesis by blast
qed

text \<open>
  The order in which the \<^verbatim>\<open>sync.Map\<close> visits its entries does not matter: two states with
  the same entries have the same contents, answer a key alike, and answer a pattern with the same objects.
\<close>

theorem visiting_order_irrelevant:
  assumes "mset (mem db) = mset (mem db')" "distinct (map fst (mem db))"
  shows "mem_contents J db = mem_contents J db' \<and>
    (star \<notin> set path \<longrightarrow> MemoryStorage_Get J db path = MemoryStorage_Get J db' path) \<and>
    mset (Get_visit decode path (mem db)) = mset (Get_visit decode path (mem db')) \<and>
    mset (KeysRange_visit path from_time to_time (mem db)) = mset (KeysRange_visit path from_time to_time (mem db'))"
  using mem_contents_order [OF assms] Get_key_order [OF assms] Get_visit_order [OF assms(1)]
    filter_eq_mset [of "map fst (mem db)" "map fst (mem db')"] assms(1)
  by (auto simp: KeysRange_visit_filter)

theorem visiting_order_irrelevant_witness:
  "MemoryStorage_Get ref_wire (fresh_storage\<lparr>mem := [(''a'', ''x''), (''b'', ''y'')]\<rparr>) ''b'' =
   MemoryStorage_Get ref_wire (fresh_storage\<lparr>mem := [(''b'', ''y''), (''a'', ''x'')]\<rparr>) ''b''"
  using visiting_order_irrelevant [of "fresh_storage\<lparr>mem := [(''a'', ''x''), (''b'', ''y'')]\<rparr>"
      "fresh_storage\<lparr>mem := [(''b'', ''y''), (''a'', ''x'')]\<rparr>" ref_wire "''b''"]
  by simp

text \<open>
  \<open>Pivot\<close> stores an object with the stamps it is given, whatever was stored before, and
  tells nobody when the path is longer than eight characters and begins with \<^verbatim>\<open>history\<close>.
\<close>

theorem pivot_stores_given_stamps:
  assumes "storage_ready J db" "storable path data"
  shows "\<exists>db'. MemoryStorage_Pivot J db path data created updated = Returns (LastIndex path, db') \<and>
    storage_ready J db' \<and>
    mem_contents J db' = (mem_contents J db)
      (path \<mapsto> \<lparr>Created = created, Updated = updated, Index = LastIndex path, Data = data\<rparr>) \<and>
    mem_pending db' = mem_pending db @
      (if (8 < length path \<and> take 7 path = ''history'') \<or> mem_muted db path then []
       else [\<lparr>EvKey = path, EvOperation = ''set''\<rparr>])"
proof -
  let ?obj = "\<lparr>Created = created, Updated = updated, Index = LastIndex path, Data = data\<rparr>"
  let ?db1 = "db\<lparr>mem := AList.update path (New J ?obj) (mem db)\<rparr>"
  have law: "object_law J" using assms(1) by (simp add: storage_ready_def)
  have safe: "safe_object ?obj"
    using assms(2) by (simp add: safe_object_def storable_def json_safe_LastIndex)
  have ready1: "storage_ready J ?db1"
    using assms(1) stored_ok_New [OF law safe] by (simp add: storage_ready_def mem_ok_update)
  have cont: "mem_contents J ?db1 = (mem_contents J db)(path \<mapsto> ?obj)"
    by (rule mem_contents_update [OF DecodeRaw_New [OF law safe]])
  have st: "started ?db1" using ready1 by (simp add: storage_ready_def)
  obtain db' where db': "broadcast_event path ''set'' ?db1 = Returns db'" "started db'" "mem db' = mem ?db1"
      "mem_pending db' = mem_pending ?db1 @
         (if mem_muted ?db1 path then [] else [\<lparr>EvKey = path, EvOperation = ''set''\<rparr>])"
    using broadcast_event_started [OF st] by blast
  have "storage_ready J db'" using ready1 db' by (simp add: storage_ready_def)
  moreover have "mem_contents J db' = (mem_contents J db)(path \<mapsto> ?obj)"
    using mem_contents_cong [OF db'(3), of J] cont by simp
  ultimately show ?thesis
    using ready1 cont db' by (auto simp: MemoryStorage_Pivot_def Let_def)
qed

theorem pivot_stores_given_stamps_witness:
  "\<exists>db. MemoryStorage_Pivot ref_wire fresh_storage ''box'' ''e30='' 3 4 = Returns (''box'', db) \<and>
    mem_contents ref_wire db ''box'' = Some \<lparr>Created = 3, Updated = 4, Index = ''box'', Data = ''e30=''\<rparr>"
proof -
  have "LastIndex ''box'' = ''box''" by code_simp
  with pivot_stores_given_stamps [OF fresh_storage_ready storable_example(1), of 3 4] show ?thesis by auto
qed

section \<open>Objects and messages\<close>

text \<open>
  An object written with \<open>New\<close> reads back with its data decoded, and a list of such objects
  decodes element by element.
\<close>

theorem object_round_trip:
  assumes "object_law J" "base64_law J" "json_safe (Index obj)"
  shows "Decode_object J (New J (obj\<lparr>Data := base64_encode J data\<rparr>)) = Inr (obj\<lparr>Data := data\<rparr>) \<and>
    DecodeListData J (map (\<lambda>x. x\<lparr>Data := base64_encode J (Data x)\<rparr>) objs) = Inr objs"
  using Decode_object_New [OF assms] DecodeListData_map [OF assms(2)] by blast

theorem object_round_trip_witness:
  "Decode_object ref_wire (New ref_wire \<lparr>Created = 1, Updated = 2, Index = ''a'', Data = base64_encode ref_wire ''x''\<rparr>) =
     Inr \<lparr>Created = 1, Updated = 2, Index = ''a'', Data = ''x''\<rparr>"
proof -
  have i: "json_safe (Index \<lparr>Created = 1, Updated = 2, Index = ''a'', Data = []\<rparr>)"
    by (simp add: json_safe_char_def)
  from object_round_trip [OF ref_object_law ref_base64_law i, of "''x''"] show ?thesis by simp
qed

text \<open>
  Applying a message never loses the document. On any error, in decoding the message, in decoding
  the patch or in applying it, the cache stays as it was; a snapshot replaces it; the empty patch leaves it.
\<close>

theorem patch_cache_cases:
  "(\<forall>document' err. PatchCache J data document = (document', Some err) \<longrightarrow> document' = document) \<and>
   (\<forall>message. DecodeBuffer J data = Inr message \<longrightarrow> MsgSnapshot message \<longrightarrow>
      PatchCache J data document = (MsgData message, None)) \<and>
   (\<forall>message. DecodeBuffer J data = Inr message \<longrightarrow> \<not> MsgSnapshot message \<longrightarrow> MsgData message = ''[]'' \<longrightarrow>
      PatchCache J data document = (document, None)) \<and>
   (\<forall>err. DecodeBuffer J data = Inl err \<longrightarrow> PatchCache J data document = (document, Some err))"
  by (auto simp: PatchCache_snapshot PatchCache_error) (simp_all add: PatchCache_def)

theorem patch_cache_cases_witness:
  "PatchCache ref_wire ''?'' ''{}'' = (''{}'', Some json_error)"
proof -
  have "DecodeBuffer ref_wire ''?'' = Inl json_error"
    by (simp add: DecodeBuffer_def ref_wire_def ref_unmarshal_message_def)
  with patch_cache_cases [of ref_wire "''?''" "''{}''"] show ?thesis by blast
qed

end
