(* ===== verification/StreamProperties.thy ===== *)
theory StreamProperties
  imports Subscription RefCodec
begin

text \<open>
  The properties of the stream: its invariant over every history of calls, the exact effect of
  broadcasts, the choice between patch and snapshot, versions, and the subscriber's document.
\<close>

section \<open>A concrete stream\<close>

text \<open>A clock subscriber (connection 0) and a subscriber of the key \<^verbatim>\<open>box\<close> (connection 1).\<close>

definition example_stream :: Stream where
  "example_stream =
     \<lparr>OnSubscribe = (\<lambda>key. None), ForcePatch = False, NoPatch = False,
      pools = [\<lparr>PoolKey = '''', cache = zero_Cache, connections = [0]\<rparr>,
               \<lparr>PoolKey = ''box'', cache = \<lparr>Version = 1, CacheData = ''{}''\<rparr>, connections = [1]\<rparr>],
      sockets = (\<lambda>c. open_socket), next_conn = 2, unsubscribed = [], callbacks = 0\<rparr>"

definition example_opt :: BroadcastOpt where
  "example_opt = \<lparr>opt_Get = (\<lambda>key. Inr ''[1]''), opt_Encode = Encode ref_wire, opt_Callback = False\<rparr>"

lemma example_stream_ok: "stream_ok example_stream"
  by (simp add: stream_ok_def example_stream_def pool_conns_def)


lemma Peer_box: "Peer ''box'' ''box''"
  by (simp add: Peer_def)

section \<open>Invariants and histories\<close>

text \<open>
  C12: whatever calls are made on a stream, in whatever order (subscribing, closing, writing,
  refreshing, broadcasting, ticking, losing a peer), the clock's pool stays first, no key has two pools and
  no connection is in two; pools are never removed, renamed or moved, the settings stay, and what a peer
  has received is only ever extended, and not at all once its connection is closed.
\<close>

theorem stream_histories_keep_invariant:
  assumes "stream_ok sm"
  shows "stream_ok (fold (run_call J) calls sm) \<and> stream_le sm (fold (run_call J) calls sm)"
  using history.keeps_ok [OF assms] history.forward [OF assms] by blast

theorem stream_histories_keep_invariant_witness:
  "stream_ok (fold (run_call ref_wire)
     [CallNew ''box'' None, CallBroadcast (\<lambda>i. 7) example_opt ''box'', CallClose ''box'' 1] example_stream)"
  using stream_histories_keep_invariant [OF example_stream_ok] by blast



section \<open>Broadcasts\<close>

text \<open>
  C26: the effect of a broadcast, pool by pool. The pool at a position past the clock's changes exactly
  when its key and the path match one way or the other and the data for the key is not refused: its cache
  becomes that data at that time, and each of its connections is written one frame with the patch or
  snapshot chosen by \<open>Patch\<close>. Otherwise neither the pool nor its connections change. The clock's pool
  and its connections never do.
\<close>

theorem broadcast_effect:
  fixes J :: "('p, 'c) wire_scheme" and now :: "nat \<Rightarrow> int64" and opt path
  assumes "stream_ok sm" "0 < i" "i < length (pools sm)" "c \<in> set (connections (pools sm ! i))"
    and "k \<in> set (connections (pools sm ! 0))"
  defines "p \<equiv> pools sm ! i" and "sm' \<equiv> Broadcast J now opt path sm"
  shows "pools sm' ! i = (case opt_Get opt (PoolKey p) of
        Inl err \<Rightarrow> p | Inr data \<Rightarrow> if Peer (PoolKey p) path then setCache_pool (now i) data p else p) \<and>
    sockets sm' c = (case opt_Get opt (PoolKey p) of
        Inl err \<Rightarrow> sockets sm c
      | Inr data \<Rightarrow>
          if Peer (PoolKey p) path
          then (case fst (Patch_pool J (NoPatch sm) (ForcePatch sm) (now i) data p) of
                  (modified, snapshot, version) \<Rightarrow>
                    deliver (frame (opt_Encode opt modified) snapshot version) (sockets sm c))
          else sockets sm c) \<and>
    pools sm' ! 0 = pools sm ! 0 \<and> sockets sm' k = sockets sm k"
proof -
  have p: "pools sm' ! i = pool_after (now i) opt path p"
    using Broadcast_pool [OF assms(1,3), of J now opt path] assms(2) by (simp add: p_def sm'_def)
  have s: "sockets sm' c = deliver_option (pool_frame J (NoPatch sm) (ForcePatch sm) (now i) opt path p) (sockets sm c)"
    using Broadcast_socket [OF assms(1,3,2,4)] by (simp add: p_def sm'_def)
  have "0 < length (pools sm)" using assms(2,3) by (rule less_trans)
  then have "pools sm' ! 0 = pools sm ! 0"
    using Broadcast_pool [OF assms(1), of 0 J now opt path] by (simp add: sm'_def)
  moreover have "sockets sm' k = sockets sm k"
    unfolding sm'_def by (rule Broadcast_clock_socket [OF assms(1,5)])
  ultimately show ?thesis
    unfolding p s by (auto simp: pool_after_def pool_frame_def deliver_option_def split: sum.split prod.split)
qed

theorem broadcast_effect_witness:
  "CacheData (cache (pools (Broadcast ref_wire (\<lambda>i. 7) example_opt ''box'' example_stream) ! 1)) = ''[1]'' \<and>
   sockets (Broadcast ref_wire (\<lambda>i. 7) example_opt ''box'' example_stream) 0 = open_socket"
proof -
  have c: "1 \<in> set (connections (pools example_stream ! 1))" "0 \<in> set (connections (pools example_stream ! 0))"
    and i: "0 < (1 :: nat)" "1 < length (pools example_stream)"
    by (simp_all add: example_stream_def)
  show ?thesis
    using broadcast_effect [OF example_stream_ok i c, of ref_wire "\<lambda>i. 7" example_opt "''box''"] Peer_box
    by (simp add: example_stream_def example_opt_def)
qed

text \<open>
  The choice of \<open>Patch\<close>. The version sent is the time of the new cache. A snapshot is the data
  itself; a patch is the written form of the patch from the old cache to the data, and is sent only when it
  is not longer than the data or patches are forced, and never when patches are off.
\<close>

theorem patch_choice:
  assumes "Patch_pool J no_patch force_patch now data p = ((message, snapshot, version), p')"
  shows "version = now \<and> p' = setCache_pool now data p \<and>
    (if snapshot then message = data
     else \<not> no_patch \<and> (force_patch \<or> length message \<le> length data) \<and>
       (\<exists>patch. CreatePatch J (CacheData (cache p)) data = Inr patch \<and> marshal_patch J patch = Inr message)) \<and>
    (\<not> force_patch \<longrightarrow> length message \<le> length data)"
  using assms by (auto simp: Patch_pool_def split: sum.splits if_splits)

theorem patch_choice_witness:
  "fst (snd (fst (Patch_pool ref_wire True False 7 ''[1]'' (pools example_stream ! 1))))"
proof -
  have "Patch_pool ref_wire True False 7 ''[1]'' (pools example_stream ! 1) =
      ((''[1]'', True, 7), setCache_pool 7 ''[1]'' (pools example_stream ! 1))"
    by (simp add: Patch_pool_def)
  from patch_choice [OF this] show ?thesis by (simp add: Patch_pool_def)
qed

text \<open>
  A tick of the clock reaches the connections of the clock's pool, each with the plain time, and
  changes nothing else of the stream.
\<close>

theorem clock_reaches_clock_pool:
  assumes "stream_ok sm"
  shows "\<exists>sm'. BroadcastClock data sm = Returns sm' \<and> pools sm' = pools sm \<and>
    (\<forall>c. sockets sm' c =
      (if c \<in> set (connections (pools sm ! 0)) then deliver data (sockets sm c) else sockets sm c))"
  using BroadcastClock_deliver [OF assms, of data] by simp

theorem clock_reaches_clock_pool_witness:
  "\<exists>sm. BroadcastClock ''42'' example_stream = Returns sm \<and> sent (sockets sm 0) = [''42''] \<and> sent (sockets sm 1) = []"
  using clock_reaches_clock_pool [OF example_stream_ok, of "''42''"]
  by (auto simp: example_stream_def deliver_def open_socket_def)

section \<open>Versions, subscribing and leaving\<close>

lemma GetCacheVersion_setCache:
  assumes "stream_ok sm" "data \<noteq> []"
  shows "GetCacheVersion key (snd (Stream_setCache now key data sm)) = Inr now"
proof (cases rule: findPool_cases [of sm key])
  case missing
  have "stream_ok (snd (Stream_setCache now key data sm))" by (rule setCache.keeps_ok [OF assms(1)])
  then have "distinct (map PoolKey (pools (snd (Stream_setCache now key data sm))))" by (simp add: stream_ok_def)
  then have "findPool (snd (Stream_setCache now key data sm)) key = int (length (pools sm))"
    using findPool_from_index [of "pools (snd (Stream_setCache now key data sm))" "length (pools sm)"] missing
    by (simp add: findPool_def Stream_setCache_def)
  with missing assms(2) show ?thesis by (simp add: GetCacheVersion_def Stream_setCache_def)
next
  case (found i)
  then have "findPool (snd (Stream_setCache now key data sm)) key = int i"
    using setCache.findPool_stable [OF assms(1), of key now key data] by simp
  with found assms(2) show ?thesis by (simp add: GetCacheVersion_def Stream_setCache_def)
qed

text \<open>
  \<open>Refresh\<close> answers with the data it is given (the empty object for nothing) and with the
  version of the pool's cache, which it fills only when it was missing or empty; afterwards the pool has that
  version, so that a second request gets the same version.
\<close>

theorem refresh_keeps_version:
  fixes now :: int64
  assumes "stream_ok sm" "get key = Inr raw"
  defines "version \<equiv> (case GetCacheVersion key sm of Inl err \<Rightarrow> now | Inr v \<Rightarrow> v)"
  shows "fst (Refresh now key get sm) =
      Inr \<lparr>Version = version, CacheData = (if raw = [] then EmptyObject else raw)\<rparr> \<and>
    GetCacheVersion key (snd (Refresh now key get sm)) = Inr version"
proof -
  have "(if raw = [] then EmptyObject else raw) \<noteq> []" by (simp add: EmptyObject_def)
  from GetCacheVersion_setCache [OF assms(1) this, of key now] assms(2) show ?thesis
    by (auto simp: Refresh_def Let_def version_def Stream_setCache_def split: sum.split prod.split)
qed

theorem refresh_keeps_version_witness:
  "fst (Refresh 9 ''box'' (\<lambda>key. Inr ''[2]'') example_stream) = Inr \<lparr>Version = 1, CacheData = ''[2]''\<rparr>"
proof -
  have get: "(\<lambda>key :: string. (Inr ''[2]'' :: string result)) ''box'' = Inr ''[2]''" by simp
  have "GetCacheVersion ''box'' example_stream = Inr 1"
    by (simp add: GetCacheVersion_def findPool_def example_stream_def)
  with refresh_keeps_version [where now = 9 and key = "''box''" and get = "\<lambda>key. Inr ''[2]''" and raw = "''[2]''",
      OF example_stream_ok get]
  show ?thesis by simp
qed

lemma Stream_new_conns:
  assumes "stream_ok sm"
  shows "set (pool_conns (pools (snd (Stream_new key sm)))) = insert (next_conn sm) (set (pool_conns (pools sm)))"
proof (cases rule: findPool_cases [of sm key])
  case missing
  then show ?thesis by (simp add: Stream_new_def Let_def findPool_def insert_commute)
next
  case (found i)
  let ?p = "(pools sm ! i)\<lparr>connections := connections (pools sm ! i) @ [next_conn sm]\<rparr>"
  have "mset (pool_conns ((pools sm)[i := ?p])) = add_mset (next_conn sm) (mset (pool_conns (pools sm)))"
    using mset_pool_conns_update [OF found(2), of ?p] by simp
  then have "set (pool_conns ((pools sm)[i := ?p])) = insert (next_conn sm) (set (pool_conns (pools sm)))"
    by (metis set_mset_add_mset_insert set_mset_mset)
  with found show ?thesis by (simp add: Stream_new_def Let_def findPool_def)
qed

text \<open>
  A subscription is refused, and the stream left alone, when \<open>OnSubscribe\<close> or the handshake
  fails, with the error of the first that did. Otherwise a new open connection with nothing sent is returned,
  and it is the only connection that joins the pools.
\<close>

theorem subscribing:
  assumes "stream_ok sm"
  shows "Stream_New key upgrade sm =
      (case (case OnSubscribe sm key of None \<Rightarrow> upgrade | Some err \<Rightarrow> Some err) of
         Some err \<Rightarrow> (Inl err, sm)
       | None \<Rightarrow> (Inr (next_conn sm), snd (Stream_new key sm))) \<and>
    next_conn sm \<notin> set (pool_conns (pools sm)) \<and>
    sockets (snd (Stream_new key sm)) (next_conn sm) = open_socket \<and>
    set (pool_conns (pools (snd (Stream_new key sm)))) = insert (next_conn sm) (set (pool_conns (pools sm)))"
proof -
  have "fst (Stream_new key sm) = next_conn sm"
    "sockets (snd (Stream_new key sm)) (next_conn sm) = open_socket"
    by (simp_all add: Stream_new_def Let_def)
  moreover from this have "Stream_new key sm = (next_conn sm, snd (Stream_new key sm))"
    by (metis prod.collapse)
  ultimately show ?thesis
    using Stream_new_conns [OF assms, of key] assms
    by (cases "OnSubscribe sm key"; cases upgrade) (auto simp: Stream_New_def stream_ok_def split: prod.split)
qed

theorem subscribing_witness:
  "fst (Stream_New ''box'' None example_stream) = Inr 2 \<and>
   fst (Stream_New ''box'' (Some (Error ''bad handshake'')) example_stream) = Inl (Error ''bad handshake'')"
  using subscribing [OF example_stream_ok, of "''box''" None]
    subscribing [OF example_stream_ok, of "''box''" "Some (Error ''bad handshake'')"]
  by (simp add: example_stream_def)

lemma Stream_Read_closes: "Stream_Read key client (replicate n True @ False # rest) sm = Stream_Close key client sm"
  by (induction n) simp_all

lemma Stream_Read_waits: "Stream_Read key client (replicate n True) sm = Blocks"
  by (induction n) simp_all

text \<open>
  Reading from a connection goes on until a read fails and then leaves: the connection is out of
  its pool and closed, the unsubscription is reported, the other connections of the pool and everybody's
  sockets stay. Without a failing read it never returns, and leaving a pool that does not exist panics.
\<close>

theorem reading_until_leaving:
  assumes "stream_ok sm" "i < length (pools sm)" "key = PoolKey (pools sm ! i)"
  shows "\<exists>sm'. Stream_Read key client (replicate n True @ False # rest) sm = Returns sm' \<and>
    connections (pools sm' ! i) = filter (\<lambda>v. v \<noteq> client) (connections (pools sm ! i)) \<and>
    sock_closed (sockets sm' client) \<and> unsubscribed sm' = unsubscribed sm @ [key] \<and>
    (\<forall>c. c \<noteq> client \<longrightarrow> sockets sm' c = sockets sm c) \<and>
    (\<forall>j. j \<noteq> i \<longrightarrow> pools sm' ! j = pools sm ! j) \<and>
    Stream_Read key client (replicate n True) sm = Blocks \<and>
    (\<forall>other. other \<notin> PoolKey ` set (pools sm) \<longrightarrow> Stream_Close other client sm = Panics IndexOutOfRange)"
proof -
  have "findPool sm key = int i"
    using findPool_from_index [of "pools sm" i] assms by (simp add: findPool_def stream_ok_def)
  moreover have "findPool sm other = -1" if "other \<notin> PoolKey ` set (pools sm)" for other
    using that by (simp add: findPool_def findPool_from_none)
  ultimately show ?thesis
    using assms(2) by (simp add: Stream_Read_closes Stream_Read_waits Stream_Close_found) (simp add: Stream_Close_def)
qed

theorem reading_until_leaving_witness:
  "\<exists>sm. Stream_Read ''box'' 1 [True, False] example_stream = Returns sm \<and> connections (pools sm ! 1) = []"
proof -
  have i: "1 < length (pools example_stream)" and key: "''box'' = PoolKey (pools example_stream ! 1)"
    by (simp_all add: example_stream_def)
  from reading_until_leaving [OF example_stream_ok i key, of 1 1 "[]"] show ?thesis
    by (auto simp: example_stream_def)
qed

end
