(* ===== verification/ServerProperties.thy ===== *)
theory ServerProperties
  imports Convergence StorageProperties StreamProperties
begin

text \<open>
  The properties of the server and its handlers: settings, life cycle, what each request does and
  when it is refused.
\<close>

section \<open>A concrete server\<close>

text \<open>A server with no settings, started on an address the listener accepts.\<close>

definition example_server :: Server where
  "example_server =
     (case Server_Start Inr ''localhost:80'' zero_Server of Runs app \<Rightarrow> app | Fatal m \<Rightarrow> zero_Server)"

lemmas server_unfold = Server_Start_def defaults_def defaults_timing_def defaults_cors_def
  defaults_callbacks_def defaults_stream_def waitListen_def waitStart_def Let_def zero_Server_def
  zero_Stream_def InitClock_def default_fn_def default_int_def default_list_def
  MemoryStorage_Start_def empty_MemoryStorage_def MemoryStorage_Active_def second_def

lemma example_server_value:
  "pools (app_Stream example_server) = [\<lparr>PoolKey = '''', cache = zero_Cache, connections = []\<rparr>]"
  "app_filters example_server = \<lparr>Write_filters = [], Read_filters = [], Delete_filters = [], After_filters = []\<rparr>"
  "app_Static example_server = False"
  "app_Storage example_server = fresh_storage"
  "Audit example_server = Some (\<lambda>r. True)"
  "OnSubscribe (app_Stream example_server) = (\<lambda>key. None)"
  "active example_server = 1" "closing example_server = 0"
  "next_conn (app_Stream example_server) = 0"
  "spawned example_server = []"
  "OnClose example_server = Some NoCallback"
  by (simp_all add: example_server_def server_unfold fresh_storage_def)

lemma example_server_up: "server_up ref_wire example_server"
  using fresh_storage_ready
  by (simp add: server_up_def example_server_value stream_ok_def pool_conns_def Server_Active_def)

lemma example_server_fresh: "fresh J example_server"
  by (rule started_fresh) (simp add: example_server_value)

lemma example_server_quiet: "quiet (app_Storage example_server) key"
  by (simp add: quiet_def example_server_value)

lemma example_server_audit [simp]: "audit_ok example_server r"
  by (simp add: audit_ok_def example_server_value)

text \<open>A publish request on \<^verbatim>\<open>box\<close> with the base64 of \<^verbatim>\<open>{}\<close>, and a plain read of it.\<close>

definition example_publish :: request where
  "example_publish =
     \<lparr>req_key = ''box'', req_body = ''{'' @ [quote] @ ''data'' @ [quote] @ '':'' @ [quote] @ ''e30='' @ [quote] @ ''}'',
      req_websocket = False, req_v = '''', req_upgrade = None, req_token = ''''\<rparr>"

lemma example_publish_key [simp]: "req_key example_publish = ''box''" "\<not> req_websocket example_publish"
  by (simp_all add: example_publish_def)

lemma example_publish_guards:
  "publishable ''box''" "IsValid ''box''"
  "DecodeReader ref_wire (req_body example_publish) =
     Inr \<lparr>MsgData = ''e30='', MsgVersion = '''', MsgSnapshot = False\<rparr>"
  "Build b ''box'' = ''box''" "LastIndex ''box'' = ''box''"
proof -
  show "publishable ''box''" "IsValid ''box''" "LastIndex ''box'' = ''box''" by code_simp+
  show "Build b ''box'' = ''box''" by simp
  have "DecodeString ''e30='' = Some ''{}''" by code_simp
  then show "DecodeReader ref_wire (req_body example_publish) =
     Inr \<lparr>MsgData = ''e30='', MsgVersion = '''', MsgSnapshot = False\<rparr>"
    by (simp add: DecodeReader_def ref_wire_def ref_unmarshal_message_def example_publish_def)
qed

section \<open>Settings and life cycle\<close>

lemma default_int_cases: "d \<noteq> 0 \<Longrightarrow> default_int v d \<noteq> 0 \<and> default_int v d \<in> {v, d}"
  by (simp add: default_int_def)

lemma default_fn_not_None: "default_fn v d \<noteq> None"
  by (simp add: default_fn_def)

lemma default_list_not_Nil: "d \<noteq> [] \<Longrightarrow> default_list v d \<noteq> []"
  by (simp add: default_list_def)

lemma InitClock_pools_not_Nil: "pools (InitClock sm) \<noteq> []"
  by (simp add: InitClock_def)

lemmas defaults_parts = defaults_def defaults_timing_def defaults_cors_def defaults_callbacks_def
  defaults_stream_def Let_def

lemma defaults_settings:
  "app_OnSubscribe (defaults app) \<noteq> None" "stream_OnSubscribe (defaults app) \<noteq> None"
  "Audit (defaults app) \<noteq> None" "OnClose (defaults app) \<noteq> None"
  "Tick (defaults app) \<noteq> 0" "Tick (defaults app) \<in> {Tick app, second}"
  "Deadline (defaults app) \<noteq> 0" "Workers (defaults app) \<noteq> 0" "Workers (defaults app) \<in> {Workers app, 6}"
  "AllowedOrigins (defaults app) \<noteq> []" "pools (app_Stream (defaults app)) \<noteq> []"
proof -
  have s: "second \<noteq> 0" "10 * second \<noteq> 0" by (simp_all add: second_def)
  show "app_OnSubscribe (defaults app) \<noteq> None" by (simp add: defaults_parts default_fn_not_None)
  show "stream_OnSubscribe (defaults app) \<noteq> None" by (simp add: defaults_parts default_fn_not_None)
  show "Audit (defaults app) \<noteq> None" "OnClose (defaults app) \<noteq> None"
    by (simp_all add: defaults_fields default_fn_not_None)
  have tick: "Tick (defaults app) = default_int (Tick app) second" by (simp add: defaults_parts)
  show "Tick (defaults app) \<noteq> 0" "Tick (defaults app) \<in> {Tick app, second}"
    unfolding tick using default_int_cases [OF s(1)] by blast+
  have deadline: "Deadline (defaults app) = default_int (Deadline app) (10 * second)" by (simp add: defaults_parts)
  show "Deadline (defaults app) \<noteq> 0" unfolding deadline using default_int_cases [OF s(2)] by blast
  show "Workers (defaults app) \<noteq> 0" "Workers (defaults app) \<in> {Workers app, 6}"
    unfolding defaults_fields using default_int_cases [of 6] by simp_all
  show "AllowedOrigins (defaults app) \<noteq> []" by (simp add: defaults_parts default_list_not_Nil)
  show "pools (app_Stream (defaults app)) \<noteq> []" by (simp add: defaults_parts InitClock_pools_not_Nil)
qed

text \<open>
  \<open>defaults\<close> can be applied again without effect, keeps every setting that was given, and
  leaves no callback nil and no duration, worker count or origin list at zero.
\<close>

theorem defaults_settle:
  "defaults (defaults app) = defaults app \<and>
   Audit (defaults app) \<noteq> None \<and> OnClose (defaults app) \<noteq> None \<and>
   app_OnSubscribe (defaults app) \<noteq> None \<and> stream_OnSubscribe (defaults app) \<noteq> None \<and>
   Tick (defaults app) \<noteq> 0 \<and> Deadline (defaults app) \<noteq> 0 \<and> Workers (defaults app) \<noteq> 0 \<and>
   Tick (defaults app) \<in> {Tick app, second} \<and> Workers (defaults app) \<in> {Workers app, 6} \<and>
   AllowedOrigins (defaults app) \<noteq> [] \<and> pools (app_Stream (defaults app)) \<noteq> [] \<and>
   app_Storage (defaults app) = app_Storage app \<and> app_filters (defaults app) = app_filters app"
  using defaults_idem_lemma [of app] defaults_settings [of app] by (simp add: defaults_fields)




section \<open>Writing, reading and deleting through the handlers\<close>

text \<open>
  What the placeholder for a missing document decodes to: the object with no index and the data of
  the empty JSON document.
\<close>

definition empty_law :: "'c codec_scheme \<Rightarrow> bool" where
  "empty_law J \<longleftrightarrow>
     DecodeRaw J EmptyObject = Inr \<lparr>Created = 0, Updated = 0, Index = '''', Data = ''e30=''\<rparr>"

lemma ref_empty_law: "empty_law ref_wire"
proof -
  have zero: "FormatInt 0 10 = ''0''"
    by (simp add: FormatInt_def format_nat.simps digit_chars_def)
  have n: "read_number '': 0, '' = Some 0"
    using read_number_FormatInt [of "'': ''" "'', ''" 0] by (simp add: zero)
  have pieces: "strings_Split EmptyObject quote =
      [''{ '', ''created'', '': 0, '', ''updated'', '': 0, '', ''index'', '': '', '''', '', '', ''data'', '': '', ''e30='', '' }'']"
    by (simp add: EmptyObject_def)
  have trim: "strings_Trim EmptyObject newline = EmptyObject" by (rule strings_Trim_id) (simp add: EmptyObject_def)
  have "hd EmptyObject = CHR ''{''" by (simp add: EmptyObject_def)
  then have "ref_unmarshal_object EmptyObject = Inr \<lparr>Created = 0, Updated = 0, Index = '''', Data = ''e30=''\<rparr>"
    unfolding ref_unmarshal_object_def trim pieces by (simp add: n trim pieces Let_def)
  then show ?thesis by (simp add: empty_law_def DecodeRaw_def ref_wire_def)
qed

text \<open>The placeholder for a missing document is no list.\<close>

definition objects_not_empty_law :: "'c codec_scheme \<Rightarrow> bool" where
  "objects_not_empty_law J \<longleftrightarrow> (\<forall>objs. unmarshal_objects J EmptyObject \<noteq> Inr objs)"

lemma ref_objects_not_empty_law: "objects_not_empty_law ref_wire"
proof -
  have "hd EmptyObject \<noteq> CHR ''[''" "EmptyObject \<noteq> ''[]''" by (simp_all add: EmptyObject_def)
  moreover have "strings_Trim EmptyObject newline = EmptyObject" by (rule strings_Trim_id) (simp add: EmptyObject_def)
  ultimately show ?thesis
    by (simp add: objects_not_empty_law_def ref_wire_def ref_unmarshal_objects_def split: option.split)
qed

text \<open>No read filter changes what a key shows.\<close>

definition unfiltered :: "Server \<Rightarrow> string \<Rightarrow> bool" where
  "unfiltered app key \<longleftrightarrow>
     \<not> app_Static app \<and> list_all (\<lambda>f. \<not> covers filter_path key f) (Read_filters (app_filters app))"

lemma unfiltered_data:
  "unfiltered app key \<Longrightarrow> getFilteredData J app key = Inr (raw_data J (app_Storage app) key)"
  "unfiltered app key \<Longrightarrow> router_checkStatic (Read_filters (app_filters app)) key (app_Static app) = None"
  by (auto simp: unfiltered_def list_all_iff getFilteredData_raw router_check_uncovered router_checkStatic_iff)

lemma unfiltered_cong:
  "app_filters app' = app_filters app \<Longrightarrow> app_Static app' = app_Static app \<Longrightarrow> unfiltered app' key = unfiltered app key"
  by (simp add: unfiltered_def)

lemma LastIndex_not_Nil: "IsValid key \<Longrightarrow> LastIndex key \<noteq> []"
  unfolding LastIndex_segment
  using IsValid_segments [of key] by (metis last_in_set strings_Split_not_Nil)

lemma read_unfiltered:
  assumes "IsValid (req_key r)" "audit_ok app r" "\<not> req_websocket r" "unfiltered app (req_key r)"
  shows "fst (read J now r app) =
    (if raw_data J (app_Storage app) (req_key r) = EmptyObject
     then Reply StatusNotFound None ''katamari: empty key''
     else Reply StatusOK (Some ''application/json'') (raw_data J (app_Storage app) (req_key r)))"
proof -
  have "document_of (raw_data J (app_Storage app) (req_key r)) = raw_data J (app_Storage app) (req_key r)"
    by (simp add: document_of_def)
  with read_answers [OF assms(1-3) unfiltered_data(2) [OF assms(4)] unfiltered_data(1) [OF assms(4)], of J now]
  show ?thesis by simp
qed

lemma read_present:
  assumes ready: "storage_ready J (app_Storage app)" and J: "empty_law J"
    and r: "IsValid (req_key r)" "audit_ok app r" "\<not> req_websocket r" "unfiltered app (req_key r)"
    and key: "star \<notin> set (req_key r)" "mem_contents J (app_Storage app) (req_key r) = Some obj" "Index obj \<noteq> []"
  shows "\<exists>s. fst (read J now r app) = Reply StatusOK (Some ''application/json'') s \<and> DecodeRaw J s = Inr obj"
proof -
  from memory.get_key [OF ready key(1)] key(2)
  obtain s where s: "MemoryStorage_Get J (app_Storage app) (req_key r) = Inr s" "s \<noteq> []" "DecodeRaw J s = Inr obj"
    by auto
  have "s \<noteq> EmptyObject" using s(3) J key(3) by (auto simp: empty_law_def)
  with read_unfiltered [OF r, of J now] s show ?thesis by (simp add: raw_data_def)
qed

lemma read_missing:
  assumes ready: "storage_ready J (app_Storage app)"
    and r: "IsValid (req_key r)" "audit_ok app r" "\<not> req_websocket r" "unfiltered app (req_key r)"
    and key: "star \<notin> set (req_key r)" "mem_contents J (app_Storage app) (req_key r) = None"
  shows "fst (read J now r app) = Reply StatusNotFound None ''katamari: empty key''"
proof -
  from memory.get_key [OF ready key(1)] key(2)
  have "raw_data J (app_Storage app) (req_key r) = EmptyObject" by (simp add: raw_data_def)
  with read_unfiltered [OF r, of J now] show ?thesis by simp
qed

text \<open>
  C4: what is published is what is read. A publish of a valid key without a star that passes the audit
  and the write filter answers 200 with the index of the key; a read of the key that passes the audit and
  that no read filter covers then answers 200 with a body that decodes to an object with the published data,
  that index, the time of the first write and the time of this write if it was not the first.
\<close>

theorem publish_then_read:
  assumes J: "storage_ready J (app_Storage app)" "empty_law J"
    and r: "IsValid (req_key r)" "star \<notin> set (req_key r)" "audit_ok app r"
    and event: "DecodeReader J (req_body r) = Inr event"
    and written: "router_check (Write_filters (app_filters app)) (req_key r) (MsgData event) (app_Static app) = Inr data"
    and data: "json_safe data"
    and q: "req_key q = req_key r" "audit_ok app q" "\<not> req_websocket q" "unfiltered app (req_key r)"
  shows "\<exists>app' s. publish J build_now set_now r app =
      Returns (Reply 200 (Some ''application/json'') (index_body (LastIndex (req_key r))), app') \<and>
    fst (read J now q app') = Reply 200 (Some ''application/json'') s \<and>
    DecodeRaw J s = Inr (stamp_object set_now (mem_contents J (app_Storage app) (req_key r)) (req_key r) data)"
proof -
  let ?key = "req_key r"
  have guard: "publishable ?key" using r by (simp add: publishable_iff)
  have safe: "storable ?key data" using data json_safe_IsValid [OF r(1)] by (simp add: storable_def)
  have b: "Build build_now ?key = ?key" using r(2) by simp
  obtain db where db: "publish J build_now set_now r app =
      Returns (Reply StatusOK (Some ''application/json'') (index_body (LastIndex ?key)),
        app\<lparr>app_Storage := db, notified := notified app @ watchers_check (After_filters (app_filters app)) ?key\<rparr>)"
      "storage_ready J db"
      "mem_contents J db = spec_op (OpSet set_now ?key data) (mem_contents J (app_Storage app))"
    using publish_stores [OF J(1) guard r(3) event, of build_now data set_now] written safe unfolding b by blast
  let ?app' = "app\<lparr>app_Storage := db, notified := notified app @ watchers_check (After_filters (app_filters app)) ?key\<rparr>"
  have "Index (stamp_object set_now (mem_contents J (app_Storage app) ?key) ?key data) \<noteq> []"
    using LastIndex_not_Nil [OF r(1)] by (simp add: stamp_object_def)
  then have "\<exists>s. fst (read J now q ?app') = Reply StatusOK (Some ''application/json'') s \<and>
      DecodeRaw J s = Inr (stamp_object set_now (mem_contents J (app_Storage app) ?key) ?key data)"
    using db(2,3) r q J(2) by (intro read_present) (simp_all add: audit_ok_def unfiltered_def)
  with db(1) show ?thesis by blast
qed

theorem publish_then_read_witness:
  "\<exists>app s. publish ref_wire 5 7 example_publish example_server =
      Returns (Reply 200 (Some ''application/json'') (index_body ''box''), app) \<and>
    fst (read ref_wire 9 example_publish app) = Reply 200 (Some ''application/json'') s \<and>
    DecodeRaw ref_wire s = Inr \<lparr>Created = 7, Updated = 0, Index = ''box'', Data = ''e30=''\<rparr>"
proof -
  have star: "star \<notin> set (req_key example_publish)" by simp
  have valid: "IsValid (req_key example_publish)" using example_publish_guards by simp
  have ready: "storage_ready ref_wire (app_Storage example_server)"
    using fresh_storage_ready by (simp add: example_server_value)
  have written: "router_check (Write_filters (app_filters example_server)) (req_key example_publish)
      (MsgData \<lparr>MsgData = ''e30='', MsgVersion = '''', MsgSnapshot = False\<rparr>) (app_Static example_server) = Inr ''e30=''"
    by (simp add: example_server_value router_check_def)
  have data: "json_safe ''e30=''" using storable_example by (simp add: storable_def)
  have q: "req_key example_publish = req_key example_publish" "audit_ok example_server example_publish"
    "\<not> req_websocket example_publish" "unfiltered example_server (req_key example_publish)"
    by (simp_all add: unfiltered_def example_server_value)
  from publish_then_read [OF ready ref_empty_law valid star q(2) example_publish_guards(3) written data q,
      of 5 7 9] example_publish_guards(5)
  show ?thesis by (simp add: stamp_object_def example_server_value)
qed

text \<open>
  C13: publishing to a list adds an element. A publish to \<open>p/*\<close>, with a prefix without a star and a
  clock that is not negative, answers 200 with the time in base 16 as index; a read of the list that passes
  the audit and that no read filter covers then answers 200 with a JSON list whose objects include the
  published one, and, if the time was never used, all those that were in the list before.
\<close>

theorem publish_to_list:
  assumes J: "storage_ready J (app_Storage app)" "objects_not_empty_law J"
    and r: "req_key r = p @ ''/*''" "IsValid (p @ ''/*'')" "star \<notin> set p" "0 \<le> sint now" "audit_ok app r"
    and event: "DecodeReader J (req_body r) = Inr event"
    and written: "router_check (Write_filters (app_filters app)) (p @ slash # FormatInt now 16) (MsgData event)
      (app_Static app) = Inr data"
    and data: "json_safe data"
    and unused: "mem_contents J (app_Storage app) (p @ slash # FormatInt now 16) = None"
    and q: "req_key q = p @ ''/*''" "audit_ok app q" "\<not> req_websocket q" "unfiltered app (p @ ''/*'')"
  shows "\<exists>app' s objs. publish J now set_now r app =
      Returns (Reply 200 (Some ''application/json'') (index_body (FormatInt now 16)), app') \<and>
    fst (read J later q app') = Reply 200 (Some ''application/json'') s \<and> unmarshal_objects J s = Inr objs \<and>
    mset objs = add_mset \<lparr>Created = set_now, Updated = 0, Index = FormatInt now 16, Data = data\<rparr>
      (image_mset (\<lambda>k. the (mem_contents J (app_Storage app) k))
        (mset_set {k \<in> dom (mem_contents J (app_Storage app)). Match (p @ ''/*'') k}))"
proof -
  let ?list = "p @ ''/*''" and ?key = "p @ slash # FormatInt now 16"
  let ?c = "mem_contents J (app_Storage app)"
  have b: "Build now ?list = ?key" using Build_list [OF r(3)] .
  have last: "LastIndex ?key = FormatInt now 16" using LastIndex_Build_list [OF r(3), of now] b by simp
  have guard: "publishable ?list" using r(2,3) by (auto simp: publishable_iff intro: exI [of _ "p @ ''/''"])
  have safe: "storable ?key data"
    using data json_safe_Build [OF r(2), of now] b by (simp add: storable_def)
  obtain db where db: "publish J now set_now r app =
      Returns (Reply StatusOK (Some ''application/json'') (index_body (FormatInt now 16)),
        app\<lparr>app_Storage := db, notified := notified app @ watchers_check (After_filters (app_filters app)) ?key\<rparr>)"
      "storage_ready J db" "mem_contents J db = spec_op (OpSet set_now ?key data) ?c"
    using publish_stores [where r = r and build_now = now and data = data and set_now = set_now, OF J(1)] guard r(5) event written safe
    unfolding r(1) b last by blast
  let ?app' = "app\<lparr>app_Storage := db, notified := notified app @ watchers_check (After_filters (app_filters app)) ?key\<rparr>"
  have star: "star \<in> set ?list" by simp
  obtain s objs where s: "MemoryStorage_Get J db ?list = Inr s" "s \<noteq> []" "unmarshal_objects J s = Inr objs"
      "mset objs = image_mset (\<lambda>k. the (mem_contents J db k))
        (mset_set {k \<in> dom (mem_contents J db). Match ?list k})"
    using memory.get_pattern [OF db(2) star] by blast
  have "s \<noteq> EmptyObject" using J(2) s(3) by (auto simp: objects_not_empty_law_def)
  then have "fst (read J later q ?app') = Reply StatusOK (Some ''application/json'') s"
    using read_unfiltered [of q ?app' J later] r(2) q s(1,2)
    by (simp add: audit_ok_def unfiltered_def raw_data_def)
  moreover have "{k \<in> dom (mem_contents J db). Match ?list k} = insert ?key {k \<in> dom ?c. Match ?list k}"
    using Match_Build_list [OF r(3), of now] IsValid_plain [OF r(2)] b r(4) by (auto simp: db(3))
  moreover have "finite {k \<in> dom ?c. Match ?list k}" "?key \<notin> {k \<in> dom ?c. Match ?list k}"
    using unused finite_dom_mem_contents [of J "app_Storage app"] by auto
  moreover have "image_mset (\<lambda>k. the (mem_contents J db k)) (mset_set {k \<in> dom ?c. Match ?list k}) =
      image_mset (\<lambda>k. the (?c k)) (mset_set {k \<in> dom ?c. Match ?list k})"
    using unused by (intro image_mset_cong) (auto simp: db(3) finite_dom_mem_contents)
  ultimately show ?thesis using db(1,3) s(3,4) unused last
    by (auto simp: stamp_object_def)
qed

theorem publish_to_list_witness:
  "\<exists>app s. publish ref_wire 5 7 (example_publish\<lparr>req_key := ''box/*''\<rparr>) example_server =
      Returns (Reply 200 (Some ''application/json'') (index_body (FormatInt 5 16)), app) \<and>
    fst (read ref_wire 9 (example_publish\<lparr>req_key := ''box/*''\<rparr>) app) = Reply 200 (Some ''application/json'') s \<and>
    unmarshal_objects ref_wire s =
      Inr [\<lparr>Created = 7, Updated = 0, Index = FormatInt 5 16, Data = ''e30=''\<rparr>]"
proof -
  let ?r = "example_publish\<lparr>req_key := ''box/*''\<rparr>"
  have key: "req_key ?r = ''box'' @ ''/*''" by simp
  have valid: "IsValid (''box'' @ ''/*'')" by code_simp
  have star: "star \<notin> set ''box''" and five: "0 \<le> sint (5 :: int64)" by simp_all
  have ready: "storage_ready ref_wire (app_Storage example_server)"
    using fresh_storage_ready by (simp add: example_server_value)
  have event: "DecodeReader ref_wire (req_body ?r) = Inr \<lparr>MsgData = ''e30='', MsgVersion = '''', MsgSnapshot = False\<rparr>"
    using example_publish_guards(3) by simp
  have written: "router_check (Write_filters (app_filters example_server)) (''box'' @ slash # FormatInt 5 16)
      (MsgData \<lparr>MsgData = ''e30='', MsgVersion = '''', MsgSnapshot = False\<rparr>) (app_Static example_server) = Inr ''e30=''"
    by (simp add: example_server_value router_check_def)
  have data: "json_safe ''e30=''" using storable_example by (simp add: storable_def)
  have unused: "mem_contents ref_wire (app_Storage example_server) (''box'' @ slash # FormatInt 5 16) = None"
    by (simp add: example_server_value)
  have q: "audit_ok example_server ?r" "\<not> req_websocket ?r" "unfiltered example_server (''box'' @ ''/*'')"
    by (simp_all add: unfiltered_def example_server_value)
  from publish_to_list [OF ready ref_objects_not_empty_law key valid star five q(1) event written data unused key q(1-3),
      of 7 9]
  show ?thesis by (auto simp: example_server_value)
qed

text \<open>
  C17: what is deleted is gone. A delete of a valid key without a star that passes the audit and the
  delete filter answers 204, or 404 when there was nothing to delete; either way a read that passes its
  guards then answers 404, and so does a second delete.
\<close>

theorem unpublish_then_read:
  assumes ready: "storage_ready J (app_Storage app)"
    and r: "IsValid (req_key r)" "star \<notin> set (req_key r)" "audit_ok app r"
      "hooks_check (Delete_filters (app_filters app)) (req_key r) (app_Static app) = None"
    and q: "req_key q = req_key r" "audit_ok app q" "\<not> req_websocket q" "unfiltered app (req_key r)"
  shows "\<exists>app' app''. unpublish r app =
      Returns (if mem_contents J (app_Storage app) (req_key r) = None
        then Reply 404 None ''katamari: not found'' else Reply 204 None (''unpublish '' @ req_key r), app') \<and>
    fst (read J now q app') = Reply 404 None ''katamari: empty key'' \<and>
    unpublish r app' = Returns (Reply 404 None ''katamari: not found'', app'')"
proof -
  obtain db where db: "unpublish r app =
      Returns (if mem_contents J (app_Storage app) (req_key r) = None
        then Reply 404 None ''katamari: not found'' else Reply 204 None (''unpublish '' @ req_key r),
        app\<lparr>app_Storage := db\<rparr>)"
      "storage_ready J db" "mem_contents J db = spec_op (OpDel (req_key r)) (mem_contents J (app_Storage app))"
    using unpublish_deletes [OF ready r(1,3,4)] r(2) by auto
  let ?app' = "app\<lparr>app_Storage := db\<rparr>"
  have gone: "mem_contents J db (req_key r) = None" using db(3) r(2) by simp
  have "fst (read J now q ?app') = Reply 404 None ''katamari: empty key''"
    using db(2) r q gone by (intro read_missing) (simp_all add: audit_ok_def unfiltered_def)
  moreover have "\<exists>app''. unpublish r ?app' = Returns (Reply 404 None ''katamari: not found'', app'')"
    using unpublish_deletes [of J ?app' r] db(2) r gone by (auto simp: audit_ok_def)
  ultimately show ?thesis using db(1) by blast
qed

theorem unpublish_then_read_witness:
  "\<exists>app. unpublish example_publish example_server = Returns (Reply 404 None ''katamari: not found'', app) \<and>
    fst (read ref_wire 9 example_publish app) = Reply 404 None ''katamari: empty key''"
proof -
  have ready: "storage_ready ref_wire (app_Storage example_server)"
    using fresh_storage_ready by (simp add: example_server_value)
  have r: "IsValid (req_key example_publish)" "star \<notin> set (req_key example_publish)"
      "hooks_check (Delete_filters (app_filters example_server)) (req_key example_publish) (app_Static example_server) = None"
      "\<not> req_websocket example_publish" "unfiltered example_server (req_key example_publish)"
    using example_publish_guards by (simp_all add: example_server_value hooks_check_def unfiltered_def)
  from unpublish_then_read [OF ready r(1,2) example_server_audit r(3) refl example_server_audit r(4,5)]
  show ?thesis by (auto simp: example_server_value)
qed

text \<open>
  C27: a request that is refused changes nothing. When a publish answers anything but 200, or a delete
  anything but 204 and 404, the server is as before, its storage, its channel and its callbacks included.
  A publish is refused unless its key is valid and has at most one star, at its end, and both are
  refused without the audit.
\<close>

theorem refused_requests_change_nothing:
  assumes "storage_ready J (app_Storage app)"
  shows "(\<forall>status kind body app'. publish J build_now set_now r app = Returns (Reply status kind body, app') \<longrightarrow>
      (status = 200 \<longrightarrow> audit_ok app r \<and> IsValid (req_key r) \<and>
        (star \<in> set (req_key r) \<longrightarrow> (\<exists>p. req_key r = p @ [star] \<and> star \<notin> set p))) \<and>
      (status \<noteq> 200 \<longrightarrow> app' = app)) \<and>
    (\<forall>status kind body app'. unpublish r app = Returns (Reply status kind body, app') \<longrightarrow>
      (status \<in> {204, 404} \<longrightarrow> audit_ok app r \<and> IsValid (req_key r)) \<and>
      (status \<notin> {204, 404} \<longrightarrow> app' = app)) \<and>
    (\<exists>answer. unpublish r app = Returns answer)"
proof (intro conjI allI impI)
  fix status kind body app'
  assume p: "publish J build_now set_now r app = Returns (Reply status kind body, app')"
  note branches = p [unfolded publish_def Let_def]
  { assume "status = 200"
    with branches have "publishable (req_key r)" "audit_ok app r"
      by (auto simp: key_not_valid_def unauthorized_def split: if_splits)
    then show "audit_ok app r" "IsValid (req_key r)" by (auto simp: publishable_iff)
    assume "star \<in> set (req_key r)"
    with \<open>publishable (req_key r)\<close> show "\<exists>p. req_key r = p @ [star] \<and> star \<notin> set p"
      by (simp add: publishable_iff) }
  assume "status \<noteq> 200"
  with branches show "app' = app"
    by (auto simp: key_not_valid_def unauthorized_def bind_outcome_eq_Returns split: if_splits sum.splits)
next
  fix status kind body app'
  assume p: "unpublish r app = Returns (Reply status kind body, app')"
  note branches = p [unfolded unpublish_def Let_def]
  { assume "status \<in> {204, 404}"
    with branches show "audit_ok app r" "IsValid (req_key r)"
      by (auto simp: key_not_valid_def unauthorized_def split: if_splits) }
  assume "status \<notin> {204, 404}"
  with unpublish_deletes [OF assms, of r] p show "app' = app"
    by (cases "IsValid (req_key r)"; cases "audit_ok app r";
        cases "hooks_check (Delete_filters (app_filters app)) (req_key r) (app_Static app)")
      (auto simp: unpublish_refused split: if_splits)
next
  show "\<exists>answer. unpublish r app = Returns answer"
    by (rule unpublish_returns [OF assms])
qed

theorem refused_requests_change_nothing_witness:
  "\<forall>body app'. unpublish (example_publish\<lparr>req_key := ''a//b''\<rparr>) example_server \<noteq> Returns (Reply 204 None body, app')"
proof -
  have ready: "storage_ready ref_wire (app_Storage example_server)"
    using fresh_storage_ready by (simp add: example_server_value)
  have "\<not> IsValid ''a//b''" by code_simp
  with refused_requests_change_nothing [OF ready, of 5 7 "example_publish\<lparr>req_key := ''a//b''\<rparr>"]
  show ?thesis by auto
qed

section \<open>Reads and static mode\<close>




text \<open>
  A static server serves only its routes. On a key that no filter covers, every authorized request
  is answered 400, a subscription without an upgrade, and nothing changes.
\<close>

theorem static_mode_closes_uncovered:
  assumes "app_Static app" "IsValid (req_key r)" "star \<notin> set (req_key r)" "audit_ok app r"
    and "list_all (\<lambda>f. \<not> covers filter_path (req_key r) f) (Write_filters (app_filters app))"
    and "list_all (\<lambda>f. \<not> covers filter_path (req_key r) f) (Read_filters (app_filters app))"
    and "list_all (\<lambda>f. \<not> covers hook_path (req_key r) f) (Delete_filters (app_filters app))"
  shows "(\<exists>body. publish J build_now set_now r app = Returns (Reply 400 None body, app)) \<and>
    (\<exists>body. unpublish r app = Returns (Reply 400 None body, app)) \<and>
    (\<exists>body. read J now r app = (Reply 400 None body, app))"
proof -
  let ?err = "static_error (req_key r)"
  have w: "router_check (Write_filters (app_filters app)) (req_key r) data (app_Static app) = Inl ?err" for data
    using assms(1,5) by (simp add: router_check_uncovered list_all_iff)
  have d: "hooks_check (Delete_filters (app_filters app)) (req_key r) (app_Static app) = Some ?err"
    using assms(1,7) by (simp add: hooks_check_uncovered list_all_iff)
  have g: "router_checkStatic (Read_filters (app_filters app)) (req_key r) (app_Static app) = Some ?err"
    using assms(1,6) by (simp add: router_checkStatic_iff list_all_iff)
  have "\<exists>body. publish J build_now set_now r app = Returns (Reply 400 None body, app)"
    using assms(2-4) w by (auto simp: publish_def Let_def publishable_iff split: sum.split)
  moreover have "\<exists>body. unpublish r app = Returns (Reply 400 None body, app)"
    using assms(2,4) d by (simp add: unpublish_refused)
  moreover have "\<exists>body. read J now r app = (Reply 400 None body, app)"
    using assms(2,4) g by (simp add: read_def Let_def Server_ws_def fetch_static)
  ultimately show ?thesis by blast
qed

theorem static_mode_closes_uncovered_witness:
  "\<exists>body. publish ref_wire 5 7 example_publish (example_server\<lparr>app_Static := True\<rparr>) =
    Returns (Reply 400 None body, example_server\<lparr>app_Static := True\<rparr>)"
proof -
  let ?app = "example_server\<lparr>app_Static := True\<rparr>"
  have static: "app_Static ?app" by simp
  have valid: "IsValid (req_key example_publish)" "star \<notin> set (req_key example_publish)"
    using example_publish_guards by simp_all
  have audit: "audit_ok ?app example_publish" by (simp add: audit_ok_def example_server_value)
  have none: "list_all (\<lambda>f. \<not> covers filter_path (req_key example_publish) f) (Write_filters (app_filters ?app))"
      "list_all (\<lambda>f. \<not> covers filter_path (req_key example_publish) f) (Read_filters (app_filters ?app))"
      "list_all (\<lambda>f. \<not> covers hook_path (req_key example_publish) f) (Delete_filters (app_filters ?app))"
    by (simp_all add: example_server_value)
  from static_mode_closes_uncovered [OF static valid audit none, of ref_wire 5 7] show ?thesis by simp
qed

text \<open>
  C40: a subscription that a read filter refuses is not undone. The connection has been upgraded and
  added to the pool of its key before the data are filtered; when the filter fails the handler returns with
  the connection open, in the pool, with nothing sent and no message on its way.
\<close>

theorem refused_subscription_stays_pooled:
  assumes "stream_ok (app_Stream app)" "IsValid (req_key r)" "audit_ok app r" "req_websocket r"
    and "OnSubscribe (app_Stream app) (req_key r) = None" "req_upgrade r = None"
    and "router_checkStatic (Read_filters (app_filters app)) (req_key r) (app_Static app) = None"
    and "getFilteredData J app (req_key r) = Inl err"
  shows "\<exists>app'. read J now r app = (Upgraded (next_conn (app_Stream app)), app') \<and>
    next_conn (app_Stream app) \<in> set (pool_conns (pools (app_Stream app'))) \<and>
    sockets (app_Stream app') (next_conn (app_Stream app)) = open_socket \<and>
    spawned app' = spawned app"
proof -
  let ?sm = "app_Stream app" and ?key = "req_key r"
  define sm where "sm = snd (Stream_new ?key ?sm)"
  have new: "Stream_New ?key (req_upgrade r) ?sm = (Inr (next_conn ?sm), sm)"
    using assms(5,6) by (simp add: Stream_New_def Stream_new_def Let_def sm_def)
  have f: "fetch J now ?key (app\<lparr>app_Stream := sm\<rparr>) = (Inl err, app\<lparr>app_Stream := sm\<rparr>)"
    using assms(7,8) by (simp add: fetch_def Refresh_def)
  have "Server_ws J now r app = (Some err, Some (Upgraded (next_conn ?sm)), app\<lparr>app_Stream := sm\<rparr>)"
    unfolding Server_ws_def Let_def assms(7) option.case new prod.case sum.case f ..
  then have "read J now r app = (Upgraded (next_conn ?sm), app\<lparr>app_Stream := sm\<rparr>)"
    using assms(2-4) by (simp add: read_def Let_def)
  moreover have "next_conn ?sm \<in> set (pool_conns (pools sm))"
    using Stream_new_conns [OF assms(1), of ?key] by (simp add: sm_def)
  moreover have "sockets sm (next_conn ?sm) = open_socket"
    by (simp add: sm_def Stream_new_def Let_def)
  ultimately show ?thesis by simp
qed

theorem refused_subscription_stays_pooled_witness:
  "\<exists>app err. getFilteredData ref_wire app ''box'' = Inl err \<and>
     (\<exists>app'. read ref_wire 9 (example_publish\<lparr>req_websocket := True\<rparr>) app = (Upgraded 0, app') \<and>
       0 \<in> set (pool_conns (pools (app_Stream app'))))"
proof -
  let ?f = "\<lparr>filter_path = ''box'', filter_apply = (\<lambda>path data. Inl (Error ''denied''))\<rparr> :: route"
  let ?app = "example_server\<lparr>app_filters := (app_filters example_server)\<lparr>Read_filters := [?f]\<rparr>\<rparr>"
  let ?r = "example_publish\<lparr>req_websocket := True\<rparr>"
  have ok: "stream_ok (app_Stream ?app)" using example_server_up by (simp add: server_up_def)
  have r: "IsValid (req_key ?r)" "req_websocket ?r" "req_upgrade ?r = None"
      "OnSubscribe (app_Stream ?app) (req_key ?r) = None"
    using example_publish_guards by (simp_all add: example_publish_def example_server_value)
  have audit: "audit_ok ?app ?r" by (simp add: audit_ok_def example_server_value)
  have static: "router_checkStatic (Read_filters (app_filters ?app)) (req_key ?r) (app_Static ?app) = None"
    by (simp add: router_checkStatic_iff example_server_value)
  have denied: "getFilteredData ref_wire ?app (req_key ?r) = Inl (Error ''denied'')"
    by (simp add: getFilteredData_raw router_check_def)
  from refused_subscription_stays_pooled [OF ok r(1) audit r(2,4,3) static denied, of 9] denied show ?thesis
    by (intro exI [of _ ?app] exI [of _ "Error ''denied''"]) (auto simp: example_server_value)
qed

section \<open>What the example request does\<close>

text \<open>What the example request stores at the example server.\<close>

lemma example_stored:
  "\<exists>resp db. publish ref_wire b n example_publish example_server = Returns (resp, example_server\<lparr>app_Storage := db\<rparr>) \<and>
    storage_ready ref_wire db \<and> mem_pending db = [\<lparr>EvKey = ''box'', EvOperation = ''set''\<rparr>] \<and>
    (\<exists>obj. MemoryStorage_Get ref_wire db ''box'' = Inr (object_text obj @ [newline]))"
proof -
  let ?p = example_publish
  let ?event = "\<lparr>MsgData = ''e30='', MsgVersion = '''', MsgSnapshot = False\<rparr>"
  have ready: "storage_ready ref_wire (app_Storage example_server)"
    using fresh_storage_ready by (simp add: example_server_value)
  have p: "publishable (req_key ?p)" "audit_ok example_server ?p" "DecodeReader ref_wire (req_body ?p) = Inr ?event"
    "router_check (Write_filters (app_filters example_server)) (Build b (req_key ?p)) (MsgData ?event) (app_Static example_server) = Inr ''e30=''"
    "storable (Build b (req_key ?p)) ''e30=''"
    using example_publish_guards storable_example by (simp_all add: router_check_def example_server_value)
  obtain answer db where pub: "publish ref_wire b n ?p example_server = Returns (answer, example_server\<lparr>app_Storage := db,
        notified := notified example_server @ watchers_check (After_filters (app_filters example_server)) (Build b (req_key ?p))\<rparr>)"
      and set: "MemoryStorage_Set ref_wire n (app_Storage example_server) (Build b (req_key ?p)) ''e30='' =
        Returns (LastIndex (Build b (req_key ?p)), db)"
      and pending: "mem_pending db = [\<lparr>EvKey = ''box'', EvOperation = ''set''\<rparr>]"
      and ready2: "storage_ready ref_wire db"
    using publish_stores [where set_now = n, OF ready p] by (auto simp: example_server_value)
  obtain obj where "MemoryStorage_Get ref_wire db ''box'' = Inr (object_text obj @ [newline])"
    using set Set_new [of ref_wire n "app_Storage example_server" "''box''" "''e30=''" "''box''" db] example_publish_guards(5)
    by (auto simp: MemoryStorage_Get_def update_conv' New_def ref_wire_def)
  moreover have "publish ref_wire b n ?p example_server = Returns (answer, example_server\<lparr>app_Storage := db\<rparr>)"
    by (simp add: pub watchers_check_def example_server_value)
  ultimately show ?thesis using pending ready2 by blast
qed

end
