(* ===== verification/Overtaking.thy ===== *)
theory Overtaking
  imports ServerProperties
begin

text \<open>
  The order of the first message of a subscription and of the broadcasts that follow it: the handler
  leaves the first message to a goroutine, which may run after a broadcast to the new connection.
\<close>

section \<open>A socket that stays open\<close>

definition alive :: "Stream \<Rightarrow> Conn \<Rightarrow> bool" where
  "alive sm c \<longleftrightarrow> \<not> failing (sockets sm c) \<and> \<not> sock_closed (sockets sm c)"

lemma alive_deliver_option:
  "\<not> failing s \<and> \<not> sock_closed s \<Longrightarrow> \<not> failing (deliver_option f s) \<and> \<not> sock_closed (deliver_option f s)"
  by (simp add: deliver_option_def deliver_def split: option.split)

lemma Broadcast_alive:
  assumes ok: "stream_ok sm" and c: "alive sm c"
  shows "alive (Broadcast J now opt path sm) c"
proof (cases "c \<in> set (pool_conns (pools sm))")
  case True
  then obtain i where i: "i < length (pools sm)" "c \<in> set (connections (pools sm ! i))"
    by (auto simp: pool_conns_def in_set_conv_nth [of _ "pools sm"])
  show ?thesis
  proof (cases "i = 0")
    case True
    then show ?thesis using Broadcast_clock_socket [OF ok, of c J now opt path] i c by (simp add: alive_def)
  next
    case False
    then show ?thesis
      using Broadcast_socket [OF ok i(1) _ i(2), of J now opt path] c alive_deliver_option by (simp add: alive_def)
  qed
next
  case False
  then show ?thesis using Broadcast_other_socket [of sm c J now opt path, OF ok] c by (simp add: alive_def)
qed

lemma watch_step_alive:
  assumes "watch_step J nows app = Some app'" "server_up J app" "alive (app_Stream app) c"
  shows "alive (app_Stream app') c \<and> spawned app' = spawned app \<and> same_settings app app'"
proof -
  have st: "started (app_Storage app)" and ok: "stream_ok (app_Stream app)"
    using assms(2) by (auto simp: server_up_def storage_ready_def)
  have same: "same_settings app app'"
    using step_storage [OF step_work [OF assms(1)] assms(2)] by simp
  from assms(1) st show ?thesis
    by (rule watch_step_cases) (use Broadcast_alive [where J = J, OF ok assms(3)] assms(3) same in simp)
qed

section \<open>What the subscriber is told\<close>

text \<open>The answer to a subscription, with the message it leaves to be written.\<close>

lemma read_upgrade:
  assumes guards: "IsValid (req_key r)" "audit_ok app r" "req_websocket r" "req_upgrade r = None" "req_v r = ''''"
      "OnSubscribe (app_Stream app) (req_key r) = None"
      "router_checkStatic (Read_filters (app_filters app)) (req_key r) (app_Static app) = None"
    and data: "getFilteredData J app (req_key r) = Inr raw"
  defines "c \<equiv> next_conn (app_Stream app)"
  shows "\<exists>sm v. read J now r app = (Upgraded c,
      app\<lparr>app_Stream := sm, spawned := spawned app @ [WriteInitial c (Encode J (document_of raw)) True v]\<rparr>) \<and>
    alive sm c"
proof -
  let ?key = "req_key r"
  define sm1 where "sm1 = snd (Stream_new ?key (app_Stream app))"
  define sm2 where "sm2 = snd (Refresh now ?key (getFilteredData J app) sm1)"
  have new: "Stream_New ?key (req_upgrade r) (app_Stream app) = (Inr c, sm1)"
    using guards by (simp add: Stream_New_def Stream_new_def Let_def c_def sm1_def)
  obtain v where f: "fetch J now ?key (app\<lparr>app_Stream := sm1\<rparr>) =
      (Inr \<lparr>Version = v, CacheData = document_of raw\<rparr>, app\<lparr>app_Stream := sm2\<rparr>)"
    using fetch_data [of "app\<lparr>app_Stream := sm1\<rparr>" ?key J now] guards(7) data by (simp add: sm2_def)
  have "Server_ws J now r app = (None, Some (Upgraded c),
      app\<lparr>app_Stream := sm2, spawned := spawned app @ [WriteInitial c (Encode J (document_of raw)) True v]\<rparr>)"
    unfolding Server_ws_def Let_def guards(7) option.case new prod.case sum.case f guards(5)
    by (simp add: FormatInt_not_Nil [THEN not_sym])
  then have "read J now r app = (Upgraded c,
      app\<lparr>app_Stream := sm2, spawned := spawned app @ [WriteInitial c (Encode J (document_of raw)) True v]\<rparr>)"
    using guards by (simp add: read_def Let_def)
  moreover have "sockets sm2 = sockets sm1"
    by (simp add: sm2_def Refresh_def Let_def Stream_setCache_def split: sum.split)
  then have "alive sm2 c"
    by (simp add: alive_def sm1_def c_def Stream_new_def Let_def open_socket_def)
  ultimately show ?thesis by blast
qed

text \<open>A snapshot that is written makes its data the document, whatever was sent before.\<close>

lemma snapshot_resets:
  assumes "wire_laws J same_json" "alive sm c"
  shows "replay J (sent (sockets (Stream_Write c (Encode J raw) True v sm) c)) start = strings_Trim raw newline"
  using assms(2) by (simp add: Stream_Write_def write_message_deliver deliver_def alive_def
      PatchCache_frame_snapshot [OF assms(1)])

text \<open>The text of a stored object is not the placeholder.\<close>

lemma object_text_not_EmptyObject:
  "\<not> trimmed_equal (object_text obj @ [newline]) (strings_Trim EmptyObject newline)"
proof -
  have "strings_Trim (object_text obj @ [newline]) newline = object_text obj" by simp
  moreover have "strings_Trim EmptyObject newline = EmptyObject"
    by (rule strings_Trim_id) (simp add: EmptyObject_def)
  moreover have "object_text obj \<noteq> EmptyObject"
    by (simp add: object_text_def EmptyObject_def)
  ultimately show ?thesis by (simp add: trimmed_equal_def)
qed

section \<open>A subscriber that is left behind\<close>

text \<open>
  C34: the first message can overtake the news. There is a run of a server that had just started, on a
  key with nothing stored: a subscription is answered, a document is published at its key, a worker broadcasts
  the event to the new connection, and only then the goroutine of the subscription writes the first message, with
  the data and the version it read at the start. Nothing is left to be done: no event waits and no call is
  pending; but the document of the subscriber is the empty object, not what the server holds.
\<close>

theorem initial_write_overtaken:
  "\<exists>app1 app2 app3 app4 answer raw.
     read ref_wire 3 (example_publish\<lparr>req_websocket := True\<rparr>) example_server = (Upgraded 0, app1) \<and>
     publish ref_wire 5 7 example_publish app1 = Returns (answer, app2) \<and>
     watch_step ref_wire (\<lambda>i. 9) app2 = Some app3 \<and> run_spawned 0 app3 = Some app4 \<and>
     mem_pending (app_Storage app4) = [] \<and> spawned app4 = [] \<and>
     getFilteredData ref_wire app4 ''box'' = Inr raw \<and>
     \<not> trimmed_equal raw (replay ref_wire (sent (sockets (app_Stream app4) 0)) '''')"
proof -
  let ?r = "example_publish\<lparr>req_websocket := True\<rparr>" and ?p = example_publish
  let ?event = "\<lparr>MsgData = ''e30='', MsgVersion = '''', MsgSnapshot = False\<rparr>"
  have star: "star \<notin> set ''box''" by simp
  have keys: "req_key ?r = ''box''" "req_key ?p = ''box''" by simp_all
  have open_key: "unfiltered app ''box''" if "app_filters app = app_filters example_server" "app_Static app = False" for app
    using that by (simp add: unfiltered_def example_server_value)
  have missing: "raw_data ref_wire (app_Storage example_server) ''box'' = EmptyObject"
    by (simp add: raw_data_def example_server_value MemoryStorage_Get_def)
  have r: "IsValid (req_key ?r)" "audit_ok example_server ?r" "req_websocket ?r" "req_upgrade ?r = None" "req_v ?r = ''''"
    "OnSubscribe (app_Stream example_server) (req_key ?r) = None"
    "router_checkStatic (Read_filters (app_filters example_server)) (req_key ?r) (app_Static example_server) = None"
    "getFilteredData ref_wire example_server (req_key ?r) = Inr EmptyObject"
    using example_publish_guards(2) unfiltered_data(1) [where J = ref_wire and app = example_server, OF open_key] missing
    by (simp_all add: example_publish_def example_server_value router_checkStatic_iff)
  obtain sm v where read: "read ref_wire 3 ?r example_server = (Upgraded 0,
        example_server\<lparr>app_Stream := sm, spawned := [WriteInitial 0 (Encode ref_wire EmptyObject) True v]\<rparr>)"
      and live: "alive sm 0"
    using read_upgrade [where now = 3, OF r] by (auto simp: example_server_value document_of_def)
  define app1 where "app1 = example_server\<lparr>app_Stream := sm, spawned := [WriteInitial 0 (Encode ref_wire EmptyObject) True v]\<rparr>"
  have settings1: "app_Storage app1 = fresh_storage" "app_filters app1 = app_filters example_server" "app_Static app1 = False"
      "Audit app1 = Some (\<lambda>r. True)" "app_Stream app1 = sm" "watching app1 = watching example_server"
    by (simp_all add: app1_def example_server_value)
  have up1: "server_up ref_wire app1"
    using step_up [OF step_read [OF read] example_server_up] by (simp add: app1_def)
  have ready1: "storage_ready ref_wire (app_Storage app1)" using fresh_storage_ready by (simp add: settings1)
  have p: "publishable (req_key ?p)" "audit_ok app1 ?p" "DecodeReader ref_wire (req_body ?p) = Inr ?event"
    "router_check (Write_filters (app_filters app1)) (Build 5 (req_key ?p)) (MsgData ?event) (app_Static app1) = Inr ''e30=''"
    "storable (Build 5 (req_key ?p)) ''e30=''"
    using example_publish_guards storable_example
    by (simp_all add: audit_ok_def settings1 router_check_def example_server_value)
  obtain answer db where pub: "publish ref_wire 5 7 ?p app1 = Returns (answer, app1\<lparr>app_Storage := db,
        notified := notified app1 @ watchers_check (After_filters (app_filters app1)) (Build 5 (req_key ?p))\<rparr>)"
      and set: "MemoryStorage_Set ref_wire 7 (app_Storage app1) (Build 5 (req_key ?p)) ''e30='' =
        Returns (LastIndex (Build 5 (req_key ?p)), db)"
      and pending: "mem_pending db = [\<lparr>EvKey = ''box'', EvOperation = ''set''\<rparr>]"
      and ready2: "storage_ready ref_wire db"
    using publish_stores [where set_now = 7, OF ready1 p] by (auto simp: settings1)
  define app2 where "app2 = app1\<lparr>app_Storage := db,
    notified := notified app1 @ watchers_check (After_filters (app_filters app1)) (Build 5 (req_key ?p))\<rparr>"
  obtain obj where stored: "MemoryStorage_Get ref_wire db ''box'' = Inr (object_text obj @ [newline])"
    using set Set_new [of ref_wire 7 "app_Storage app1" "''box''" "''e30=''" "''box''" db] example_publish_guards(5)
    by (auto simp: MemoryStorage_Get_def update_conv' New_def ref_wire_def)
  have "benign ref_wire (Publish 5 7 ?p) app1"
    using p(3,4) storable_example by (simp add: storable_def)
  then have up2: "server_up ref_wire app2"
    using step_up [OF step_publish [OF pub] up1] by (simp add: app2_def)
  have watching: "0 < watching app2"
    by (simp add: app2_def settings1 example_server_def server_unfold)
  obtain app3 where app3: "watch_step ref_wire (\<lambda>i. 9) app2 = Some app3" "mem_pending (app_Storage app3) = []"
      "mem (app_Storage app3) = mem db"
    using watch_step_takes [OF _ watching, of ref_wire "\<lparr>EvKey = ''box'', EvOperation = ''set''\<rparr>" "[]"] ready2 pending
    by (auto simp: app2_def)
  have "alive (app_Stream app2) 0" using live by (simp add: app2_def settings1)
  from watch_step_alive [OF app3(1) up2 this] have after: "alive (app_Stream app3) 0" "spawned app3 = spawned app2"
    "same_settings app2 app3" by auto
  define app4 where "app4 = app3\<lparr>spawned := [],
    app_Stream := Stream_Write 0 (Encode ref_wire EmptyObject) True v (app_Stream app3)\<rparr>"
  have run: "run_spawned 0 app3 = Some app4"
    using after(2) by (simp add: run_spawned_def app4_def app2_def app1_def)
  have "replay ref_wire (sent (sockets (app_Stream app4) 0)) '''' = strings_Trim EmptyObject newline"
    unfolding app4_def using snapshot_resets [OF ref_wire_laws after(1)] by simp
  moreover have "getFilteredData ref_wire app4 ''box'' = Inr (raw_data ref_wire (app_Storage app4) ''box'')"
    using after(3) by (intro unfiltered_data(1) open_key)
      (simp_all add: app4_def same_settings_def app2_def settings1)
  moreover have "MemoryStorage_Get ref_wire (app_Storage app4) ''box'' = MemoryStorage_Get ref_wire db ''box''"
    using app3(3) by (simp add: app4_def MemoryStorage_Get_def)
  then have "raw_data ref_wire (app_Storage app4) ''box'' = object_text obj @ [newline]"
    by (simp add: raw_data_def stored)
  ultimately have stale: "getFilteredData ref_wire app4 ''box'' = Inr (object_text obj @ [newline])"
    "\<not> trimmed_equal (object_text obj @ [newline]) (replay ref_wire (sent (sockets (app_Stream app4) 0)) '''')"
    using object_text_not_EmptyObject by simp_all
  moreover have "mem_pending (app_Storage app4) = []" "spawned app4 = []" using app3(2) by (simp_all add: app4_def)
  ultimately show ?thesis
    using read [folded app1_def] pub [folded app2_def] app3(1) run by blast
qed

end
