(* ===== verification/Threads.thy ===== *)
theory Threads
  imports System
begin

text \<open>
  The goroutines of the server at the grain of its locks: a handler or a worker is a program counter
  with its local variables, and a turn takes it to its next access of shared state. One access of the
  \<^verbatim>\<open>sync.Map\<close> (a visit of its entries included), one send or receive on the watch channel, and one
  critical section that is short are one turn each. \<^verbatim>\<open>Broadcast\<close> holds the read lock of the stream from
  pool to pool, and the lock of a pool from the moment it reads the data to the moment the messages are
  written: these two locks are held across turns, and the counters say by whom.
\<close>

section \<open>Program counters\<close>

text \<open>\<^verbatim>\<open>publish\<close> and the \<^verbatim>\<open>Set\<close> of the storage it calls.\<close>

datatype publishing =
    PublishStart request
  | SetPeek string string
  | SetStore string string int64 int64
  | SetSend string
  | AfterSet string string
  | Published response

text \<open>\<^verbatim>\<open>unpublish\<close> and \<^verbatim>\<open>Del\<close>.\<close>

datatype unpublishing =
    UnpublishStart request
  | DelLoad string
  | DelErase string
  | DelSend string
  | Unpublished response

text \<open>A worker in \<^verbatim>\<open>watch\<close>, and in the \<^verbatim>\<open>Broadcast\<close> it calls.\<close>

datatype working =
    Receive
  | Received string
  | BroadcastAt string nat
  | PatchAt string nat string
  | Recheck
  | Stopped

text \<open>
  \<^verbatim>\<open>read\<close> and \<^verbatim>\<open>ws\<close>, which call \<^verbatim>\<open>Refresh\<close>: the last component is the connection of a
  subscription with the version it asked for.
\<close>

type_synonym asked = "(Conn \<times> string) option"

datatype reading =
    ReadStart request
  | WsNew request
  | RefreshGet string asked
  | RefreshVersion string string asked
  | RefreshSet string string asked
  | Entry Cache asked
  | Answered response

datatype thread =
    Publishing publishing
  | Unpublishing unpublishing
  | Working working
  | Reading reading

section \<open>Locks held across turns\<close>

text \<open>The read lock of the stream.\<close>

fun broadcasting :: "thread \<Rightarrow> bool" where
  "broadcasting (Working (BroadcastAt path i)) = True"
| "broadcasting (Working (PatchAt path i data)) = True"
| "broadcasting th = False"

text \<open>The lock of the pool at an index.\<close>

fun patching :: "nat \<Rightarrow> thread \<Rightarrow> bool" where
  "patching j (Working (PatchAt path i data)) \<longleftrightarrow> i = j"
| "patching j th \<longleftrightarrow> False"

text \<open>The lock of the pool of a key.\<close>

definition locked_pool :: "thread list \<Rightarrow> string \<Rightarrow> Stream \<Rightarrow> bool" where
  "locked_pool others key sm \<longleftrightarrow>
     findPool sm key \<noteq> -1 \<and> list_ex (patching (nat (findPool sm key))) others"

section \<open>Turns\<close>

text \<open>A turn has no outcome (\<open>None\<close>) when the goroutine waits or has returned.\<close>

fun publish_turn ::
  "('p, 'c) wire_scheme \<Rightarrow> int64 \<Rightarrow> publishing \<Rightarrow> Server \<Rightarrow> (publishing \<times> Server) option"
where
  "publish_turn J now (PublishStart r) app =
     (let vkey = req_key r;
          decoded = DecodeReader J (req_body r)
      in if \<not> publishable vkey then Some (Published key_not_valid, app)
         else if \<not> audit_ok app r then Some (Published unauthorized, app)
         else
           (case decoded of
              Inl err \<Rightarrow> Some (Published (Reply StatusBadRequest None (error_msg err)), app)
            | Inr event \<Rightarrow>
                (let key = Build now vkey
                 in case router_check (Write_filters (app_filters app)) key (MsgData event) (app_Static app) of
                      Inl err \<Rightarrow> Some (Published (Reply StatusBadRequest None (error_msg err)), app)
                    | Inr data \<Rightarrow> Some (SetPeek key data, app))))"
| "publish_turn J now (SetPeek path data) app =
     (case MemoryStorage_Peek J (app_Storage app) path now of
        (created, updated) \<Rightarrow> Some (SetStore path data created updated, app))"
| "publish_turn J now (SetStore path data created updated) app =
     Some (SetSend path, app\<lparr>app_Storage := (app_Storage app)\<lparr>mem := AList.update path
       (New J \<lparr>Created = created, Updated = updated, Index = LastIndex path, Data = data\<rparr>)
       (mem (app_Storage app))\<rparr>\<rparr>)"
| "publish_turn J now (SetSend path) app =
     (case broadcast_event path ''set'' (app_Storage app) of
        Returns db \<Rightarrow> Some (AfterSet path (LastIndex path), app\<lparr>app_Storage := db\<rparr>)
      | _ \<Rightarrow> None)"
| "publish_turn J now (AfterSet path index) app =
     Some (Published (Reply StatusOK (Some ''application/json'')
         (''{'' @ [CHR 0x22] @ ''index'' @ [CHR 0x22] @ '': '' @ [CHR 0x22] @ index @ [CHR 0x22] @ ''}'')),
       app\<lparr>notified := notified app @ watchers_check (After_filters (app_filters app)) path\<rparr>)"
| "publish_turn J now (Published resp) app = None"

fun unpublish_turn :: "unpublishing \<Rightarrow> Server \<Rightarrow> (unpublishing \<times> Server) option" where
  "unpublish_turn (UnpublishStart r) app =
     (let key = req_key r
      in if \<not> IsValid key then Some (Unpublished key_not_valid, app)
         else if \<not> audit_ok app r then Some (Unpublished unauthorized, app)
         else
           (case hooks_check (Delete_filters (app_filters app)) key (app_Static app) of
              Some err \<Rightarrow> Some (Unpublished (Reply StatusBadRequest None (error_msg err)), app)
            | None \<Rightarrow> Some (if \<not> strings_Contains key ''*'' then DelLoad key else DelErase key, app)))"
| "unpublish_turn (DelLoad path) app =
     (case map_of (mem (app_Storage app)) path of
        None \<Rightarrow> Some (Unpublished (Reply StatusNotFound None ''katamari: not found''), app)
      | Some v \<Rightarrow> Some (DelErase path, app))"
| "unpublish_turn (DelErase path) app =
     (let m = mem (app_Storage app)
      in Some (DelSend path, app\<lparr>app_Storage := (app_Storage app)\<lparr>mem :=
           (if \<not> strings_Contains path ''*'' then AList.delete path m
            else fold (\<lambda>kv m. if Match path (fst kv) then AList.delete (fst kv) m else m) m m)\<rparr>\<rparr>))"
| "unpublish_turn (DelSend path) app =
     (case broadcast_event path ''del'' (app_Storage app) of
        Returns db \<Rightarrow> Some (Unpublished (Reply StatusNoContent None (''unpublish '' @ path)), app\<lparr>app_Storage := db\<rparr>)
      | _ \<Rightarrow> None)"
| "unpublish_turn (Unpublished resp) app = None"

text \<open>
  A worker receives an event (the zero event of a closed channel), broadcasts it pool by pool, and looks
  whether the storage is still active.
\<close>

fun worker_turn ::
  "('p, 'c) wire_scheme \<Rightarrow> int64 \<Rightarrow> thread list \<Rightarrow> working \<Rightarrow> Server \<Rightarrow> (working \<times> Server) option"
where
  "worker_turn J now others Receive app =
     (case watcher (app_Storage app) of
        Some [] \<Rightarrow> None
      | Some (ev # evs) \<Rightarrow>
          Some (if EvKey ev \<noteq> '''' then Received (EvKey ev) else Recheck,
            app\<lparr>app_Storage := (app_Storage app)\<lparr>watcher := Some evs\<rparr>\<rparr>)
      | None \<Rightarrow> Some (Recheck, app))"
| "worker_turn J now others (Received path) app = Some (BroadcastAt path 1, app)"
| "worker_turn J now others (BroadcastAt path i) app =
     (if length (pools (app_Stream app)) \<le> i then Some (Recheck, app)
      else if \<not> Peer (PoolKey (pools (app_Stream app) ! i)) path then Some (BroadcastAt path (Suc i), app)
      else if list_ex (patching i) others then None
      else
        (case getFilteredData J app (PoolKey (pools (app_Stream app) ! i)) of
           Inl err \<Rightarrow> Some (BroadcastAt path (Suc i), app)
         | Inr data \<Rightarrow> Some (PatchAt path i data, app)))"
| "worker_turn J now others (PatchAt path i data) app =
     (let sm = app_Stream app
      in case Patch_pool J (NoPatch sm) (ForcePatch sm) now data (pools sm ! i) of
           ((modifiedData, snapshot, version), p) \<Rightarrow>
             Some (BroadcastAt path (Suc i),
               app\<lparr>app_Stream := broadcast_conns (connections p) (Encode J modifiedData) snapshot version
                 (sm\<lparr>pools := (pools sm)[i := p]\<rparr>)\<rparr>))"
| "worker_turn J now others Recheck app =
     (if MemoryStorage_Active (app_Storage app) = Returns True then Some (Receive, app)
      else Some (Stopped, app\<lparr>watching := watching app - 1\<rparr>))"
| "worker_turn J now others Stopped app = None"

fun read_turn ::
  "('p, 'c) wire_scheme \<Rightarrow> int64 \<Rightarrow> thread list \<Rightarrow> reading \<Rightarrow> Server \<Rightarrow> (reading \<times> Server) option"
where
  "read_turn J now others (ReadStart r) app =
     (let key = req_key r
      in if \<not> IsValid key then Some (Answered key_not_valid, app)
         else if \<not> audit_ok app r then Some (Answered unauthorized, app)
         else
           (case router_checkStatic (Read_filters (app_filters app)) key (app_Static app) of
              Some err \<Rightarrow>
                Some (Answered (Reply StatusBadRequest None (if req_websocket r then '''' else error_msg err)), app)
            | None \<Rightarrow> Some (if req_websocket r then WsNew r else RefreshGet key None, app)))"
| "read_turn J now others (WsNew r) app =
     (if list_ex broadcasting others then None
      else
        (case Stream_New (req_key r) (req_upgrade r) (app_Stream app) of
           (Inl err, sm) \<Rightarrow>
             Some (Answered (if OnSubscribe (app_Stream app) (req_key r) = None then UpgradeRefused
                 else Reply StatusBadRequest None ''''), app\<lparr>app_Stream := sm\<rparr>)
         | (Inr client, sm) \<Rightarrow> Some (RefreshGet (req_key r) (Some (client, req_v r)), app\<lparr>app_Stream := sm\<rparr>)))"
| "read_turn J now others (RefreshGet path who) app =
     (case getFilteredData J app path of
        Inl err \<Rightarrow>
          Some (Answered (case who of None \<Rightarrow> Reply StatusBadRequest None (error_msg err)
                                    | Some (client, v) \<Rightarrow> Upgraded client), app)
      | Inr raw \<Rightarrow> Some (RefreshVersion path (if length raw = 0 then EmptyObject else raw) who, app))"
| "read_turn J now others (RefreshVersion path raw who) app =
     (if locked_pool others path (app_Stream app) then None
      else
        (case GetCacheVersion path (app_Stream app) of
           Inl err \<Rightarrow> Some (RefreshSet path raw who, app)
         | Inr version \<Rightarrow> Some (Entry \<lparr>Version = version, CacheData = raw\<rparr> who, app)))"
| "read_turn J now others (RefreshSet path raw who) app =
     (if list_ex broadcasting others then None
      else
        (case Stream_setCache now path raw (app_Stream app) of
           (version, sm) \<Rightarrow> Some (Entry \<lparr>Version = version, CacheData = raw\<rparr> who, app\<lparr>app_Stream := sm\<rparr>)))"
| "read_turn J now others (Entry entry who) app =
     (case who of
        None \<Rightarrow>
          Some (Answered (if CacheData entry = EmptyObject then Reply StatusNotFound None ''katamari: empty key''
              else Reply StatusOK (Some ''application/json'') (CacheData entry)), app)
      | Some (client, v) \<Rightarrow>
          Some (Answered (Upgraded client),
            if v \<noteq> FormatInt (Version entry) 16
            then app\<lparr>spawned := spawned app @ [WriteInitial client (Encode J (CacheData entry)) True (Version entry)]\<rparr>
            else app))"
| "read_turn J now others (Answered resp) app = None"

fun thread_turn ::
  "('p, 'c) wire_scheme \<Rightarrow> int64 \<Rightarrow> thread list \<Rightarrow> thread \<Rightarrow> Server \<Rightarrow> (thread \<times> Server) option"
where
  "thread_turn J now others (Publishing t) app = map_option (\<lambda>(t', app'). (Publishing t', app')) (publish_turn J now t app)"
| "thread_turn J now others (Unpublishing t) app = map_option (\<lambda>(t', app'). (Unpublishing t', app')) (unpublish_turn t app)"
| "thread_turn J now others (Working t) app = map_option (\<lambda>(t', app'). (Working t', app')) (worker_turn J now others t app)"
| "thread_turn J now others (Reading t) app = map_option (\<lambda>(t', app'). (Reading t', app')) (read_turn J now others t app)"

section \<open>Interleavings\<close>

record World =
  server :: Server
  threads :: "thread list"

definition other_threads :: "nat \<Rightarrow> World \<Rightarrow> thread list" where
  "other_threads i w = take i (threads w) @ drop (Suc i) (threads w)"

definition take_turn :: "('p, 'c) wire_scheme \<Rightarrow> int64 \<Rightarrow> nat \<Rightarrow> World \<Rightarrow> World option" where
  "take_turn J now i w =
     (if i < length (threads w) then
        (case thread_turn J now (other_threads i w) (threads w ! i) (server w) of
           None \<Rightarrow> None
         | Some (th, app) \<Rightarrow> Some \<lparr>server = app, threads = (threads w)[i := th]\<rparr>)
      else None)"

text \<open>A schedule: whose turn it is, and what the clock says.\<close>

fun run_schedule :: "('p, 'c) wire_scheme \<Rightarrow> (nat \<times> int64) list \<Rightarrow> World \<Rightarrow> World option" where
  "run_schedule J [] w = Some w"
| "run_schedule J ((i, now) # turns) w =
     (case take_turn J now i w of None \<Rightarrow> None | Some w' \<Rightarrow> run_schedule J turns w')"

text \<open>
  The steps of a world: a turn of a thread, a request that arrives, and the steps of the server that are one
  access of shared state anyway (a tick, a spawned write, a lost peer, and, when nobody broadcasts, the
  handler of the clock and the end of a read).
\<close>

datatype world_label =
    Turn nat int64
  | Arrive thread
  | Other server_label

fun arriving :: "thread \<Rightarrow> bool" where
  "arriving (Publishing (PublishStart r)) = True"
| "arriving (Unpublishing (UnpublishStart r)) = True"
| "arriving (Reading (ReadStart r)) = True"
| "arriving th = False"

fun short_step :: "server_label \<Rightarrow> thread list \<Rightarrow> bool" where
  "short_step (Stats now r) ths \<longleftrightarrow> list_all (\<lambda>th. \<not> broadcasting th) ths"
| "short_step (Hangup key client) ths \<longleftrightarrow> list_all (\<lambda>th. \<not> broadcasting th) ths"
| "short_step (Tick_clock now) ths \<longleftrightarrow> True"
| "short_step (Run i) ths \<longleftrightarrow> True"
| "short_step (Lose client) ths \<longleftrightarrow> True"
| "short_step l ths \<longleftrightarrow> False"

inductive world_step ::
  "(string \<Rightarrow> string) \<Rightarrow> ('p, 'c) wire_scheme \<Rightarrow> world_label \<Rightarrow> World \<Rightarrow> World \<Rightarrow> bool"
  for ul J
where
  world_turn: "take_turn J now i w = Some w' \<Longrightarrow> world_step ul J (Turn i now) w w'"
| world_arrive: "arriving th \<Longrightarrow> w' = w\<lparr>threads := threads w @ [th]\<rparr> \<Longrightarrow> world_step ul J (Arrive th) w w'"
| world_other:
    "short_step l (threads w) \<Longrightarrow> server_step ul J l (server w) app \<Longrightarrow> w' = w\<lparr>server := app\<rparr> \<Longrightarrow>
     world_step ul J (Other l) w w'"

inductive_simps world_step_simps:
  "world_step ul J (Turn i now) w w'"
  "world_step ul J (Arrive th) w w'"
  "world_step ul J (Other l) w w'"

inductive world_reaches ::
  "(string \<Rightarrow> string) \<Rightarrow> ('p, 'c) wire_scheme \<Rightarrow> (world_label \<Rightarrow> World \<Rightarrow> bool) \<Rightarrow> World \<Rightarrow> World \<Rightarrow> bool"
  for ul J env
where
  world_refl: "world_reaches ul J env w w"
| world_more:
    "world_reaches ul J env w w1 \<Longrightarrow> env l w1 \<Longrightarrow> world_step ul J l w1 w2 \<Longrightarrow> world_reaches ul J env w w2"

lemma world_invariant:
  assumes "world_reaches ul J env w w'" "I w"
    and "\<And>l a b. I a \<Longrightarrow> env l a \<Longrightarrow> world_step ul J l a b \<Longrightarrow> I b"
  shows "I w'"
  using assms by (induction rule: world_reaches.induct) blast+

end
