(* ===== verification/ThreadFacts.thy ===== *)
theory ThreadFacts
  imports Threads
begin

text \<open>
  A goroutine that runs without interruption does what its handler does in one step: the turns of
  \<open>Threads\<close> are the handlers of \<open>Rest\<close> and the workers of \<open>Server\<close>, cut where other goroutines
  may come in between.
\<close>

section \<open>A goroutine that has the processor for itself\<close>

fun solo ::
  "('p, 'c) wire_scheme \<Rightarrow> int64 list \<Rightarrow> thread list \<Rightarrow> thread \<Rightarrow> Server \<Rightarrow> (thread \<times> Server) option"
where
  "solo J [] others th app = Some (th, app)"
| "solo J (now # nows) others th app =
     (case thread_turn J now others th app of None \<Rightarrow> None | Some (th', app') \<Rightarrow> solo J nows others th' app')"

lemma other_threads_update [simp]:
  "other_threads i (w\<lparr>server := app, threads := (threads w)[i := th]\<rparr>) = other_threads i w"
  "other_threads i \<lparr>server = app, threads = (threads w)[i := th]\<rparr> = other_threads i w"
  by (simp_all add: other_threads_def)

lemma solo_schedule:
  assumes "i < length (threads w)" "solo J nows (other_threads i w) (threads w ! i) (server w) = Some (th, app)"
  shows "run_schedule J (map (Pair i) nows) w = Some \<lparr>server = app, threads = (threads w)[i := th]\<rparr>"
  using assms
proof (induction nows arbitrary: w)
  case (Cons now nows)
  then obtain th1 app1 where turn: "thread_turn J now (other_threads i w) (threads w ! i) (server w) = Some (th1, app1)"
      "solo J nows (other_threads i w) th1 app1 = Some (th, app)"
    by (auto split: option.splits)
  let ?w = "\<lparr>server = app1, threads = (threads w)[i := th1]\<rparr>"
  have "run_schedule J (map (Pair i) nows) ?w = Some \<lparr>server = app, threads = (threads ?w)[i := th]\<rparr>"
    using Cons.prems(1) turn(2) by (intro Cons.IH) simp_all
  then show ?case using Cons.prems(1) turn(1) by (simp add: take_turn_def)
next
  case Nil
  then show ?case using list_update_id [of "threads w" i] by (cases w) simp
qed

lemma solo_append:
  "solo J (ts @ us) others th app =
     (case solo J ts others th app of None \<Rightarrow> None | Some (th', app') \<Rightarrow> solo J us others th' app')"
  by (induction ts arbitrary: th app) (auto split: option.split)

section \<open>Publishing and deleting\<close>

lemma set_solo:
  assumes "MemoryStorage_Set J n (app_Storage app) path data = Returns (index, db)"
  shows "solo J [n, n, n] others (Publishing (SetPeek path data)) app =
    Some (Publishing (AfterSet path index), app\<lparr>app_Storage := db\<rparr>)"
  using assms
  by (cases "MemoryStorage_Peek J (app_Storage app) path n")
    (auto simp: MemoryStorage_Set_def Let_def bind_outcome_eq_Returns)

lemma publish_solo:
  assumes "publish J b n r app = Returns (resp, app')"
  shows "\<exists>nows. solo J nows others (Publishing (PublishStart r)) app = Some (Publishing (Published resp), app')"
proof (cases "publishable (req_key r) \<and> audit_ok app r")
  case False
  with assms show ?thesis
    by (intro exI [of _ "[b]"]) (cases "publishable (req_key r)"; simp add: publish_refused(1,2))
next
  case guards: True
  show ?thesis
  proof (cases "DecodeReader J (req_body r)")
    case (Inl err)
    with assms guards show ?thesis by (intro exI [of _ "[b]"]) (simp add: publish_refused(3))
  next
    case (Inr event)
    let ?check = "router_check (Write_filters (app_filters app)) (Build b (req_key r)) (MsgData event) (app_Static app)"
    show ?thesis
    proof (cases ?check)
      case (Inl err)
      with assms guards Inr show ?thesis by (intro exI [of _ "[b]"]) (simp add: publish_refused(4))
    next
      case (Inr data)
      obtain index db where set: "MemoryStorage_Set J n (app_Storage app) (Build b (req_key r)) data = Returns (index, db)"
        and res: "resp = Reply StatusOK (Some ''application/json'') (index_body index)"
          "app' = app\<lparr>app_Storage := db,
            notified := notified app @ watchers_check (After_filters (app_filters app)) (Build b (req_key r))\<rparr>"
        using assms guards \<open>DecodeReader J (req_body r) = Inr event\<close> Inr
        by (auto simp: publish_def Let_def bind_outcome_eq_Returns index_body_def)
      have start: "thread_turn J b others (Publishing (PublishStart r)) app =
          Some (Publishing (SetPeek (Build b (req_key r)) data), app)"
        using guards \<open>DecodeReader J (req_body r) = Inr event\<close> Inr by simp
      have "solo J ([b] @ [n, n, n] @ [n]) others (Publishing (PublishStart r)) app =
          Some (Publishing (Published resp), app')"
        by (simp only: solo_append start set_solo [OF set] solo.simps(2) [of J b "[]"] solo.simps(1) option.case prod.case)
          (simp add: res index_body_def)
      then show ?thesis by blast
    qed
  qed
qed

lemma unpublish_solo:
  assumes "unpublish r app = Returns (resp, app')"
  shows "\<exists>nows. solo J nows others (Unpublishing (UnpublishStart r)) app = Some (Unpublishing (Unpublished resp), app')"
proof -
  let ?key = "req_key r"
  have one: ?thesis if "thread_turn J now others (Unpublishing (UnpublishStart r)) app = Some (Unpublishing (Unpublished resp), app')" for now
    using that by (intro exI [of _ "[now]"]) simp
  show ?thesis
  proof (cases "IsValid ?key \<and> audit_ok app r")
    case False
    with assms show ?thesis by (intro one [of 0]) (auto simp: unpublish_def Let_def split: if_splits)
  next
    case guards: True
    show ?thesis
    proof (cases "hooks_check (Delete_filters (app_filters app)) ?key (app_Static app)")
      case (Some err)
      with assms guards show ?thesis by (intro one [of 0]) (simp add: unpublish_def Let_def)
    next
      case None
      show ?thesis
      proof (cases "\<not> strings_Contains ?key ''*'' \<and> map_of (mem (app_Storage app)) ?key = None")
        case True
        with assms guards None show ?thesis
          by (intro exI [of _ "[0, 0]"]) (simp add: unpublish_def Let_def MemoryStorage_Del_def)
      next
        case False
        show ?thesis
        proof (cases "strings_Contains ?key ''*''")
          case True
          with assms guards None show ?thesis
            by (intro exI [of _ "[0, 0, 0]"]) (auto simp: unpublish_def Let_def MemoryStorage_Del_def bind_outcome_eq_Returns)
        next
          case single: False
          with False obtain v where "map_of (mem (app_Storage app)) ?key = Some v" by auto
          with assms guards None single show ?thesis
            by (intro exI [of _ "[0, 0, 0, 0]"]) (auto simp: unpublish_def Let_def MemoryStorage_Del_def bind_outcome_eq_Returns)
        qed
      qed
    qed
  qed
qed

section \<open>Reading and subscribing\<close>

lemma patching_broadcasting: "patching j th \<Longrightarrow> broadcasting th"
  by (induction th rule: broadcasting.induct) auto

lemma nobody_patches: "\<not> list_ex broadcasting ths \<Longrightarrow> \<not> list_ex (patching j) ths"
  using patching_broadcasting by (auto simp: list_ex_iff)

lemma nobody_locks: "\<not> list_ex broadcasting ths \<Longrightarrow> \<not> locked_pool ths key sm"
  using nobody_patches by (auto simp: locked_pool_def)

lemma refresh_solo:
  assumes alone: "\<not> list_ex broadcasting others"
    and fetch: "fetch J now path app = (result, app')"
    and open_key: "router_checkStatic (Read_filters (app_filters app)) path (app_Static app) = None"
  shows "\<exists>nows. solo J nows others (Reading (RefreshGet path who)) app =
    Some (Reading (case result of
        Inl err \<Rightarrow> Answered (case who of None \<Rightarrow> Reply StatusBadRequest None (error_msg err) | Some (client, v) \<Rightarrow> Upgraded client)
      | Inr entry \<Rightarrow> Entry entry who), app')"
proof (cases "getFilteredData J app path")
  case (Inl err)
  with fetch open_key show ?thesis
    by (intro exI [of _ "[now]"]) (auto simp: fetch_def Refresh_def)
next
  case (Inr raw0)
  let ?raw = "if length raw0 = 0 then EmptyObject else raw0"
  have free: "\<not> locked_pool others path (app_Stream app)" using alone by (rule nobody_locks)
  show ?thesis
  proof (cases "GetCacheVersion path (app_Stream app)")
    case (Inr v)
    with fetch open_key free \<open>getFilteredData J app path = Inr raw0\<close> show ?thesis
      by (intro exI [of _ "[now, now]"]) (auto simp: fetch_def Refresh_def Let_def)
  next
    case (Inl err)
    with fetch open_key free alone Inr show ?thesis
      by (intro exI [of _ "[now, now, now]"]) (auto simp: fetch_def Refresh_def Let_def split: prod.splits)
  qed
qed

lemma read_solo:
  assumes alone: "\<not> list_ex broadcasting others" and read: "read J now r app = (resp, app')"
  shows "\<exists>nows. solo J nows others (Reading (ReadStart r)) app = Some (Reading (Answered resp), app')"
proof -
  let ?key = "req_key r"
  have one: ?thesis if "thread_turn J now others (Reading (ReadStart r)) app = Some (Reading (Answered resp), app')"
    using that by (intro exI [of _ "[now]"]) simp
  show ?thesis
  proof (cases "IsValid ?key \<and> audit_ok app r")
    case False
    with read show ?thesis by (intro one) (auto simp: read_def Let_def split: if_splits)
  next
    case guards: True
    show ?thesis
    proof (cases "router_checkStatic (Read_filters (app_filters app)) ?key (app_Static app)")
      case (Some err)
      with read guards show ?thesis by (intro one) (auto simp: read_def Let_def Server_ws_def fetch_def split: if_splits)
    next
      case open_key: None
      show ?thesis
      proof (cases "req_websocket r")
        case False
        obtain result app1 where f: "fetch J now ?key app = (result, app1)" by (cases "fetch J now ?key app")
        obtain nows where nows: "solo J nows others (Reading (RefreshGet ?key None)) app =
            Some (Reading (case result of Inl err \<Rightarrow> Answered (Reply StatusBadRequest None (error_msg err))
              | Inr entry \<Rightarrow> Entry entry None), app1)"
          using refresh_solo [OF alone f open_key, of None] unfolding option.case by blast
        have start: "solo J [now] others (Reading (ReadStart r)) app = Some (Reading (RefreshGet ?key None), app)"
          using guards open_key False by simp
        show ?thesis
        proof (cases result)
          case (Inl err)
          have "solo J ([now] @ nows) others (Reading (ReadStart r)) app = Some (Reading (Answered resp), app')"
            using read guards False f Inl by (simp only: solo_append start option.case prod.case nows) (auto simp: read_def)
          then show ?thesis by blast
        next
          case (Inr entry)
          have "solo J ([now] @ nows @ [now]) others (Reading (ReadStart r)) app = Some (Reading (Answered resp), app')"
            using read guards False f Inr by (simp only: solo_append start option.case prod.case nows) (auto simp: read_def)
          then show ?thesis by blast
        qed
      next
        case ws: True
        have start: "solo J [now] others (Reading (ReadStart r)) app = Some (Reading (WsNew r), app)"
          using guards open_key ws by simp
        obtain answer sm where new: "Stream_New ?key (req_upgrade r) (app_Stream app) = (answer, sm)"
          by (cases "Stream_New ?key (req_upgrade r) (app_Stream app)")
        show ?thesis
        proof (cases answer)
          case (Inl err)
          with read guards ws open_key new alone start show ?thesis
            by (intro exI [of _ "[now, now]"]) (auto simp: read_def Let_def Server_ws_def)
        next
          case (Inr client)
          let ?app = "app\<lparr>app_Stream := sm\<rparr>"
          have started: "solo J [now, now] others (Reading (ReadStart r)) app =
              Some (Reading (RefreshGet ?key (Some (client, req_v r))), ?app)"
            using guards open_key ws new alone Inr by simp
          obtain result app1 where f: "fetch J now ?key ?app = (result, app1)" by (cases "fetch J now ?key ?app")
          have open_app: "router_checkStatic (Read_filters (app_filters ?app)) ?key (app_Static ?app) = None"
            using open_key by simp
          obtain nows where nows: "solo J nows others (Reading (RefreshGet ?key (Some (client, req_v r)))) ?app =
              Some (Reading (case result of Inl err \<Rightarrow> Answered (Upgraded client)
                | Inr entry \<Rightarrow> Entry entry (Some (client, req_v r))), app1)"
            using refresh_solo [OF alone f open_app, of "Some (client, req_v r)"] unfolding option.case prod.case by blast

          show ?thesis
          proof (cases result)
            case err: (Inl err)
            have "solo J ([now, now] @ nows) others (Reading (ReadStart r)) app = Some (Reading (Answered resp), app')"
              using read guards ws open_key new Inr f err
              by (simp only: solo_append started option.case prod.case nows) (auto simp: read_def Let_def Server_ws_def)
            then show ?thesis by blast
          next
            case entry: (Inr entry)
            have "solo J ([now, now] @ nows @ [now]) others (Reading (ReadStart r)) app = Some (Reading (Answered resp), app')"
              using read guards ws open_key new Inr f entry
              by (simp only: solo_append started option.case prod.case nows) (auto simp: read_def Let_def Server_ws_def)
            then show ?thesis by blast
          qed
        qed
      qed
    qed
  qed
qed

section \<open>Broadcasting\<close>

lemma broadcast_pool_turns:
  assumes free: "\<not> list_ex (patching i) others" and i: "i < length (pools (app_Stream app))"
  shows "\<exists>nows. solo J nows others (Working (BroadcastAt path i)) app =
    Some (Working (BroadcastAt path (Suc i)),
      app\<lparr>app_Stream := broadcast_pool J now (broadcast_opt J app) path i (app_Stream app)\<rparr>)"
proof (cases "Peer (PoolKey (pools (app_Stream app) ! i)) path")
  case False
  then show ?thesis using i by (intro exI [of _ "[now i]"]) (simp add: broadcast_pool_def Let_def)
next
  case peer: True
  show ?thesis
  proof (cases "getFilteredData J app (PoolKey (pools (app_Stream app) ! i))")
    case (Inl err)
    then show ?thesis using i peer free
      by (intro exI [of _ "[now i]"]) (simp add: broadcast_pool_def Let_def broadcast_opt_def)
  next
    case (Inr data)
    then show ?thesis using i peer free
      by (intro exI [of _ "[now i, now i]"])
        (auto simp: broadcast_pool_def Let_def broadcast_opt_def split: prod.split)
  qed
qed

lemma pools_fold_Write: "pools (fold (\<lambda>client. Stream_Write client data snapshot version) conns sm) = pools sm"
  by (induction conns arbitrary: sm) (simp_all add: Stream_Write_def write_message_deliver)

lemma pools_broadcast_conns [simp]: "pools (broadcast_conns conns data snapshot version sm) = pools sm"
  by (simp add: broadcast_conns_def pools_fold_Write)

lemma length_pools_broadcast_pool [simp]: "length (pools (broadcast_pool J now opt path i sm)) = length (pools sm)"
  by (auto simp: broadcast_pool_def Let_def split: sum.split prod.split)

lemma broadcast_opt_stream [simp]: "broadcast_opt J (app\<lparr>app_Stream := sm\<rparr>) = broadcast_opt J app"
  by (simp add: broadcast_opt_def)

lemma broadcast_solo:
  assumes alone: "\<not> list_ex broadcasting others"
  shows "\<exists>nows. solo J nows others (Working (BroadcastAt path i)) app =
    Some (Working Recheck, app\<lparr>app_Stream :=
      fold (broadcast_pool J now (broadcast_opt J app) path) [i..<length (pools (app_Stream app))] (app_Stream app)\<rparr>)"
proof (induction "length (pools (app_Stream app)) - i" arbitrary: i app)
  case 0
  then show ?case by (intro exI [of _ "[now i]"]) simp
next
  case (Suc n)
  then have i: "i < length (pools (app_Stream app))" by simp
  let ?app = "app\<lparr>app_Stream := broadcast_pool J now (broadcast_opt J app) path i (app_Stream app)\<rparr>"
  obtain nows where nows: "solo J nows others (Working (BroadcastAt path i)) app =
      Some (Working (BroadcastAt path (Suc i)), ?app)"
    using broadcast_pool_turns [OF nobody_patches [OF alone] i] by blast
  have "n = length (pools (app_Stream ?app)) - Suc i" using Suc(2) by simp
  from Suc(1) [OF this] obtain more where more: "solo J more others (Working (BroadcastAt path (Suc i))) ?app =
      Some (Working Recheck, ?app\<lparr>app_Stream :=
        fold (broadcast_pool J now (broadcast_opt J ?app) path) [Suc i..<length (pools (app_Stream ?app))] (app_Stream ?app)\<rparr>)"
    by blast
  have "solo J (nows @ more) others (Working (BroadcastAt path i)) app =
      Some (Working Recheck, app\<lparr>app_Stream :=
        fold (broadcast_pool J now (broadcast_opt J app) path) [i..<length (pools (app_Stream app))] (app_Stream app)\<rparr>)"
    using i by (simp only: solo_append nows option.case prod.case more) (simp add: upt_conv_Cons)
  then show ?case by blast
qed

lemma worker_solo:
  assumes alone: "\<not> list_ex broadcasting others" and step: "watch_step J now app = Some app'"
  shows "\<exists>nows. solo J nows others (Working Receive) app =
    Some (Working (if MemoryStorage_Active (app_Storage app') = Returns True then Receive else Stopped), app')"
proof -
  have recheck: "solo J [0] others (Working Recheck) app1 =
      Some (if MemoryStorage_Active (app_Storage app1) = Returns True then (Working Receive, app1)
        else (Working Stopped, app1\<lparr>watching := watching app1 - 1\<rparr>))" for app1
    by simp
  show ?thesis
  proof (cases "watcher (app_Storage app)")
    case None
    with step show ?thesis
      by (intro exI [of _ "[0, 0]"]) (auto simp: watch_step_def watch_event_def Let_def split: if_splits)
  next
    case (Some ch)
    with step obtain ev evs where ev: "ch = ev # evs"
      by (cases ch) (auto simp: watch_step_def split: if_splits)
    let ?app = "app\<lparr>app_Storage := (app_Storage app)\<lparr>watcher := Some evs\<rparr>\<rparr>"
    show ?thesis
    proof (cases "EvKey ev = ''''")
      case True
      with step Some ev show ?thesis
        by (intro exI [of _ "[0, 0]"]) (auto simp: watch_step_def watch_event_def Let_def split: if_splits)
    next
      case False
      let ?app1 = "watch_event J now ev ?app"
      obtain nows where nows: "solo J nows others (Working (BroadcastAt (EvKey ev) 1)) ?app = Some (Working Recheck, ?app1)"
        using broadcast_solo [where J = J and i = 1 and app = ?app and path = "EvKey ev" and now = now, OF alone] False
        by (auto simp: watch_event_def Broadcast_def)
      have start: "solo J [0, 0] others (Working Receive) app = Some (Working (BroadcastAt (EvKey ev) 1), ?app)"
        using Some ev False by simp
      have "solo J ([0, 0] @ nows @ [0]) others (Working Receive) app =
          Some (Working (if MemoryStorage_Active (app_Storage app') = Returns True then Receive else Stopped), app')"
        using step Some ev False
        by (simp only: solo_append start nows option.case prod.case recheck) (auto simp: watch_step_def Let_def split: if_splits)
      then show ?thesis by blast
    qed
  qed
qed

end
