(* ===== verification/ThreadFresh.thy ===== *)
theory ThreadFresh
  imports ThreadFacts Convergence
begin

text \<open>
  The invariant of \<open>System\<close>, that a cache is current or an event waits, at the grain of \<open>Threads\<close>:
  the event may also be in the hands of a goroutine, a writer that has stored and not sent yet or a
  worker that has not come to the pool. What the invariant needs of the environment is that nobody stores
  or deletes a document a concurrent \<^verbatim>\<open>Refresh\<close> has read and not yet put in its cache.
\<close>

section \<open>The invariant\<close>

text \<open>The goroutine will bring the pool at the index, of that key, up to date.\<close>

fun announces :: "nat \<Rightarrow> string \<Rightarrow> thread \<Rightarrow> bool" where
  "announces j key (Publishing (SetSend path)) \<longleftrightarrow> path \<noteq> [] \<and> Peer key path"
| "announces j key (Unpublishing (DelSend path)) \<longleftrightarrow> path \<noteq> [] \<and> Peer key path"
| "announces j key (Working (Received path)) \<longleftrightarrow> 0 < j \<and> Peer key path"
| "announces j key (Working (BroadcastAt path i)) \<longleftrightarrow> i \<le> j \<and> Peer key path"
| "announces j key (Working (PatchAt path i data)) \<longleftrightarrow> i < j \<and> Peer key path"
| "announces j key th \<longleftrightarrow> False"

text \<open>The key and the data of a refresh that has read and not finished.\<close>

fun refreshing :: "thread \<Rightarrow> (string \<times> string) option" where
  "refreshing (Reading (RefreshVersion key raw who)) = Some (key, raw)"
| "refreshing (Reading (RefreshSet key raw who)) = Some (key, raw)"
| "refreshing th = None"

text \<open>What is written can be read back, and positions are those of pools.\<close>

fun thread_ok :: "Server \<Rightarrow> thread \<Rightarrow> bool" where
  "thread_ok app (Publishing (SetPeek path data)) \<longleftrightarrow> path \<noteq> [] \<and> storable path data"
| "thread_ok app (Publishing (SetStore path data created updated)) \<longleftrightarrow> path \<noteq> [] \<and> storable path data"
| "thread_ok app (Unpublishing (DelLoad path)) \<longleftrightarrow> path \<noteq> []"
| "thread_ok app (Unpublishing (DelErase path)) \<longleftrightarrow> path \<noteq> []"
| "thread_ok app (Working (BroadcastAt path i)) \<longleftrightarrow> 0 < i"
| "thread_ok app (Working (PatchAt path i data)) \<longleftrightarrow> 0 < i \<and> i < length (pools (app_Stream app))"
| "thread_ok app th \<longleftrightarrow> True"

abbreviation up_to_date :: "'c codec_scheme \<Rightarrow> Server \<Rightarrow> string \<Rightarrow> string \<Rightarrow> bool" where
  "up_to_date J app key data \<equiv> current J app key \<lparr>Version = 0, CacheData = data\<rparr>"

abbreviation pool_key :: "Server \<Rightarrow> nat \<Rightarrow> string" where
  "pool_key app j \<equiv> PoolKey (pools (app_Stream app) ! j)"

definition due :: "Server \<Rightarrow> thread set \<Rightarrow> nat \<Rightarrow> string \<Rightarrow> bool" where
  "due app T j key \<longleftrightarrow> concerned (mem_pending (app_Storage app)) key \<or> (\<exists>th \<in> T. announces j key th)"

definition caches_awaited :: "'c codec_scheme \<Rightarrow> Server \<Rightarrow> thread set \<Rightarrow> bool" where
  "caches_awaited J app T \<longleftrightarrow>
     (\<forall>j. 0 < j \<and> j < length (pools (app_Stream app)) \<and> quiet (app_Storage app) (pool_key app j) \<longrightarrow>
        due app T j (pool_key app j) \<or> current J app (pool_key app j) (cache (pools (app_Stream app) ! j)) \<or>
        (\<exists>th \<in> T. patching j th))"

definition patches_awaited :: "'c codec_scheme \<Rightarrow> Server \<Rightarrow> thread set \<Rightarrow> bool" where
  "patches_awaited J app T \<longleftrightarrow>
     (\<forall>path j data. Working (PatchAt path j data) \<in> T \<and> quiet (app_Storage app) (pool_key app j) \<longrightarrow>
        due app T j (pool_key app j) \<or> up_to_date J app (pool_key app j) data)"

definition refreshes_current :: "'c codec_scheme \<Rightarrow> Server \<Rightarrow> thread set \<Rightarrow> bool" where
  "refreshes_current J app T \<longleftrightarrow>
     (\<forall>th \<in> T. \<forall>key raw. refreshing th = Some (key, raw) \<longrightarrow> up_to_date J app key raw)"

definition threads_fresh :: "'c codec_scheme \<Rightarrow> Server \<Rightarrow> thread set \<Rightarrow> bool" where
  "threads_fresh J app T \<longleftrightarrow>
     server_up J app \<and> (\<forall>th \<in> T. thread_ok app th) \<and>
     caches_awaited J app T \<and> patches_awaited J app T \<and> refreshes_current J app T"

text \<open>
  What the environment keeps to. \<open>benign\<close> is as for whole handlers; and a turn that changes a document
  does not change one a refresh in progress has read.
\<close>

definition spares_refreshes :: "string \<Rightarrow> Server \<Rightarrow> thread list \<Rightarrow> bool" where
  "spares_refreshes path app others \<longleftrightarrow>
     list_all (\<lambda>th. case refreshing th of
         None \<Rightarrow> True
       | Some (key, raw) \<Rightarrow> \<not> Match key path \<and>
           list_all (\<lambda>kv. Match path (fst kv) \<longrightarrow> \<not> Match key (fst kv)) (mem (app_Storage app))) others"

fun calm_turn :: "('p, 'c) wire_scheme \<Rightarrow> int64 \<Rightarrow> thread list \<Rightarrow> thread \<Rightarrow> Server \<Rightarrow> bool" where
  "calm_turn J now others (Publishing (PublishStart r)) app \<longleftrightarrow> benign J (Publish now now r) app"
| "calm_turn J now others (Publishing (SetStore path data created updated)) app \<longleftrightarrow> spares_refreshes path app others"
| "calm_turn J now others (Unpublishing (DelErase path)) app \<longleftrightarrow>
     spares_refreshes path app others \<and>
     list_all (\<lambda>p. \<not> crosses (PoolKey p) path (app_Storage app)) (tl (pools (app_Stream app)))"
| "calm_turn J now others th app \<longleftrightarrow> True"

fun calm :: "('p, 'c) wire_scheme \<Rightarrow> world_label \<Rightarrow> World \<Rightarrow> bool" where
  "calm J (Turn i now) w \<longleftrightarrow> calm_turn J now (other_threads i w) (threads w ! i) (server w)"
| "calm J (Arrive th) w \<longleftrightarrow> True"
| "calm J (Other l) w \<longleftrightarrow> True"

section \<open>How the parts of the invariant change\<close>

lemma due_pending: "concerned (mem_pending (app_Storage app)) key \<Longrightarrow> due app T j key"
  by (simp add: due_def)

lemma due_announced: "th \<in> T \<Longrightarrow> announces j key th \<Longrightarrow> due app T j key"
  by (auto simp: due_def)

lemma current_data: "current J app key c \<longleftrightarrow> up_to_date J app key (CacheData c)"
  by (simp add: current_def split: sum.split)

lemma up_to_date_cong:
  "seen_by key (mem (app_Storage app')) = seen_by key (mem (app_Storage app)) \<Longrightarrow>
     same_settings app app' \<Longrightarrow> up_to_date J app' key data \<longleftrightarrow> up_to_date J app key data"
  by (rule current_cong)

lemma up_to_date_read: "getFilteredData J app key = Inr data \<Longrightarrow> up_to_date J app key data"
  by (simp add: current_def document_of_def)

lemma up_to_date_filtered: "getFilteredData J app key = Inl err \<Longrightarrow> up_to_date J app key data"
  by (simp add: current_def)

lemma up_to_date_document:
  "getFilteredData J app key = Inr raw \<Longrightarrow> up_to_date J app key (if length raw = 0 then EmptyObject else raw)"
  by (simp add: current_def document_of_def)

lemma thread_ok_mono:
  "thread_ok app th \<Longrightarrow> length (pools (app_Stream app)) \<le> length (pools (app_Stream app')) \<Longrightarrow> thread_ok app' th"
  by (induction app th rule: thread_ok.induct) auto

lemma threads_fresh_ok: "threads_fresh J app T \<Longrightarrow> th \<in> T \<Longrightarrow> thread_ok app th"
  by (simp add: threads_fresh_def)

lemma threads_fresh_patch:
  assumes "threads_fresh J app T" "Working (PatchAt path j data) \<in> T"
  shows "0 < j" "j < length (pools (app_Stream app))"
  using threads_fresh_ok [OF assms] by simp_all

text \<open>
  A turn that leaves the stream alone: for each pool the goroutine keeps its promise, or there is nothing
  left to do for the pool, or it takes the pool to patch it; and what changes in the storage is announced.
\<close>

lemma fresh_turn_storage:
  assumes fresh: "threads_fresh J app (insert th T)" and up: "server_up J app'" and ok: "thread_ok app' th'"
    and settings: "same_settings app app'" and stream: "app_Stream app' = app_Stream app"
    and promise: "\<And>j. 0 < j \<Longrightarrow> j < length (pools (app_Stream app)) \<Longrightarrow> quiet (app_Storage app) (pool_key app j) \<Longrightarrow>
      due app (insert th T) j (pool_key app j) \<Longrightarrow>
      due app' (insert th' T) j (pool_key app j) \<or> (\<forall>data. up_to_date J app' (pool_key app j) data) \<or>
      (patching j th' \<and> (\<forall>other \<in> T. \<not> patching j other))"
    and change: "\<And>j. 0 < j \<Longrightarrow> j < length (pools (app_Stream app)) \<Longrightarrow> quiet (app_Storage app) (pool_key app j) \<Longrightarrow>
      due app' (insert th' T) j (pool_key app j) \<or>
      seen_by (pool_key app j) (mem (app_Storage app')) = seen_by (pool_key app j) (mem (app_Storage app))"
    and reads: "\<And>other key raw. other \<in> T \<Longrightarrow> refreshing other = Some (key, raw) \<Longrightarrow>
      seen_by key (mem (app_Storage app')) = seen_by key (mem (app_Storage app))"
    and patch: "\<And>j. patching j th \<Longrightarrow> patching j th'"
    and patches: "\<And>path j data. th' = Working (PatchAt path j data) \<Longrightarrow> up_to_date J app' (pool_key app j) data"
    and refresh: "\<And>key raw. refreshing th' = Some (key, raw) \<Longrightarrow> up_to_date J app' key raw"
  shows "threads_fresh J app' (insert th' T)"
proof -
  have q: "quiet (app_Storage app') key = quiet (app_Storage app) key" for key
    by (rule quiet_cong [OF settings])
  have "thread_ok app' other" if "other \<in> T" for other
    by (rule thread_ok_mono [of app]) (use fresh that in \<open>simp_all add: threads_fresh_def stream\<close>)
  moreover have "caches_awaited J app' (insert th' T)"
    unfolding caches_awaited_def stream
  proof (intro allI impI)
    fix j
    let ?key = "pool_key app j" and ?c = "cache (pools (app_Stream app) ! j)"
    assume j: "0 < j \<and> j < length (pools (app_Stream app)) \<and> quiet (app_Storage app') ?key"
    then have qj: "quiet (app_Storage app) ?key" by (simp add: q)
    have "due app (insert th T) j ?key \<or> current J app ?key ?c \<or> (\<exists>th \<in> insert th T. patching j th)"
      using fresh j qj by (auto simp: threads_fresh_def caches_awaited_def)
    then show "due app' (insert th' T) j ?key \<or> current J app' ?key ?c \<or> (\<exists>th \<in> insert th' T. patching j th)"
    proof (elim disjE)
      assume "due app (insert th T) j ?key"
      with promise [of j] j qj show ?thesis unfolding current_data [of J app' _ ?c] by auto
    next
      assume "current J app ?key ?c"
      with change [of j] j qj current_cong [OF _ settings, of ?key J ?c] show ?thesis by auto
    qed (use patch in auto)
  qed
  moreover have "patches_awaited J app' (insert th' T)"
    unfolding patches_awaited_def stream
  proof (intro allI impI)
    fix path j data
    let ?key = "pool_key app j"
    assume a: "Working (PatchAt path j data) \<in> insert th' T \<and> quiet (app_Storage app') ?key"
    show "due app' (insert th' T) j ?key \<or> up_to_date J app' ?key data"
    proof (cases "th' = Working (PatchAt path j data)")
      case True
      with patches show ?thesis by blast
    next
      case False
      with a have m: "Working (PatchAt path j data) \<in> T" by auto
      then have j: "0 < j" "j < length (pools (app_Stream app))" using threads_fresh_patch [OF fresh insertI2 [OF m]] by auto
      have qj: "quiet (app_Storage app) ?key" using a by (simp add: q)
      have "patching j (Working (PatchAt path j data))" by simp
      with m have taken: "\<not> (\<forall>other \<in> T. \<not> patching j other)" by blast
      have "due app (insert th T) j ?key \<or> up_to_date J app ?key data"
        using fresh m qj unfolding threads_fresh_def patches_awaited_def by blast
      then show ?thesis
        using promise [OF j qj] taken change [OF j qj] up_to_date_cong [OF _ settings, of ?key J data] by auto
    qed
  qed
  moreover have "refreshes_current J app' (insert th' T)"
    unfolding refreshes_current_def
  proof (intro ballI allI impI)
    fix other key raw
    assume other: "other \<in> insert th' T" "refreshing other = Some (key, raw)"
    show "up_to_date J app' key raw"
    proof (cases "other = th'")
      case False
      then have "up_to_date J app key raw"
        using fresh other unfolding threads_fresh_def refreshes_current_def by blast
      moreover have "other \<in> T" using False other by simp
      ultimately show ?thesis using reads [OF _ other(2)] up_to_date_cong [OF _ settings, of key J raw] by simp
    qed (use refresh other in auto)
  qed
  ultimately show ?thesis using up ok by (simp add: threads_fresh_def)
qed

text \<open>
  A turn that leaves the storage alone: each cache is as it was, or current, or somebody will see to it.
\<close>

lemma fresh_turn_stream:
  assumes fresh: "threads_fresh J app (insert th T)" and up: "server_up J app'" and ok: "thread_ok app' th'"
    and settings: "same_settings app app'" and store: "app_Storage app' = app_Storage app"
    and keys: "\<And>j. j < length (pools (app_Stream app)) \<Longrightarrow>
      j < length (pools (app_Stream app')) \<and> pool_key app' j = pool_key app j"
    and promise: "\<And>j key. announces j key th \<Longrightarrow> announces j key th'"
    and caches: "\<And>j. 0 < j \<Longrightarrow> j < length (pools (app_Stream app')) \<Longrightarrow> quiet (app_Storage app) (pool_key app' j) \<Longrightarrow>
      (j < length (pools (app_Stream app)) \<and> cache (pools (app_Stream app') ! j) = cache (pools (app_Stream app) ! j) \<and>
        \<not> patching j th) \<or>
      current J app (pool_key app' j) (cache (pools (app_Stream app') ! j)) \<or> due app (insert th T) j (pool_key app' j)"
    and patches: "\<And>j. \<not> patching j th'"
    and refresh: "refreshing th' = None"
  shows "threads_fresh J app' (insert th' T)"
proof -
  have grows: "length (pools (app_Stream app)) \<le> length (pools (app_Stream app'))"
    using keys [of "length (pools (app_Stream app)) - 1"] by (cases "pools (app_Stream app)") auto
  have cur: "current J app' key c = current J app key c" for key c
    by (rule current_cong [OF _ settings]) (simp add: store)
  have keep: "due app (insert th T) j key \<Longrightarrow> due app' (insert th' T) j key" for j key
    using promise by (auto simp: due_def store)
  have "thread_ok app' other" if "other \<in> T" for other
    by (rule thread_ok_mono [of app]) (use fresh that grows in \<open>simp_all add: threads_fresh_def\<close>)
  moreover have "caches_awaited J app' (insert th' T)"
    unfolding caches_awaited_def store
  proof (intro allI impI)
    fix j
    let ?key = "pool_key app' j" and ?c = "cache (pools (app_Stream app') ! j)"
    assume j: "0 < j \<and> j < length (pools (app_Stream app')) \<and> quiet (app_Storage app) ?key"
    from caches [of j] j consider
        (same) "j < length (pools (app_Stream app))" "?c = cache (pools (app_Stream app) ! j)" "\<not> patching j th"
      | (good) "current J app ?key ?c" | (due) "due app (insert th T) j ?key" by blast
    then show "due app' (insert th' T) j ?key \<or> current J app' ?key ?c \<or> (\<exists>th \<in> insert th' T. patching j th)"
    proof cases
      case same
      with j fresh keys [of j] have "due app (insert th T) j ?key \<or> current J app ?key ?c \<or>
          (\<exists>th \<in> insert th T. patching j th)"
        by (auto simp: threads_fresh_def caches_awaited_def)
      with same(3) keep show ?thesis by (auto simp: cur)
    qed (simp_all add: cur keep)
  qed
  moreover have "patches_awaited J app' (insert th' T)"
    unfolding patches_awaited_def store
  proof (intro allI impI)
    fix path j data
    assume a: "Working (PatchAt path j data) \<in> insert th' T \<and> quiet (app_Storage app) (pool_key app' j)"
    then have m: "Working (PatchAt path j data) \<in> T" using patches [of j] by auto
    then have j: "pool_key app' j = pool_key app j" using keys threads_fresh_patch(2) [OF fresh insertI2 [OF m]] by auto
    with fresh m a have "due app (insert th T) j (pool_key app j) \<or> up_to_date J app (pool_key app j) data"
      unfolding threads_fresh_def patches_awaited_def by auto
    with keep show "due app' (insert th' T) j (pool_key app' j) \<or> up_to_date J app' (pool_key app' j) data"
      by (auto simp: j cur)
  qed
  moreover have "refreshes_current J app' (insert th' T)"
    using fresh refresh unfolding threads_fresh_def refreshes_current_def by (auto simp: cur)
  ultimately show ?thesis using up ok by (simp add: threads_fresh_def)
qed

text \<open>A turn that changes nothing shared.\<close>

lemma fresh_turn_local:
  assumes fresh: "threads_fresh J app (insert th T)" and ok: "thread_ok app th'"
    and promise: "\<And>j. 0 < j \<Longrightarrow> j < length (pools (app_Stream app)) \<Longrightarrow> quiet (app_Storage app) (pool_key app j) \<Longrightarrow>
      announces j (pool_key app j) th \<Longrightarrow>
      announces j (pool_key app j) th' \<or> (\<forall>data. up_to_date J app (pool_key app j) data) \<or>
      (patching j th' \<and> (\<forall>other \<in> T. \<not> patching j other))"
    and patch: "\<And>j. patching j th \<Longrightarrow> patching j th'"
    and patches: "\<And>path j data. th' = Working (PatchAt path j data) \<Longrightarrow> up_to_date J app (pool_key app j) data"
    and refresh: "\<And>key raw. refreshing th' = Some (key, raw) \<Longrightarrow> up_to_date J app key raw"
  shows "threads_fresh J app (insert th' T)"
proof (rule fresh_turn_storage [OF fresh])
  show "server_up J app" using fresh by (simp add: threads_fresh_def)
  show "same_settings app app" by (simp add: same_settings_def)
  fix j
  assume j: "0 < j" "j < length (pools (app_Stream app))" "quiet (app_Storage app) (pool_key app j)"
    and d: "due app (insert th T) j (pool_key app j)"
  show "due app (insert th' T) j (pool_key app j) \<or> (\<forall>data. up_to_date J app (pool_key app j) data) \<or>
      patching j th' \<and> (\<forall>other \<in> T. \<not> patching j other)"
    using d promise [OF j] by (auto simp: due_def)
qed (use ok patch patches refresh in auto)

section \<open>Turns of writers\<close>

lemma ready_update:
  assumes "server_up J app" "storable path data"
  shows "server_up J (app\<lparr>app_Storage := (app_Storage app)\<lparr>mem := AList.update path
    (New J \<lparr>Created = created, Updated = updated, Index = LastIndex path, Data = data\<rparr>) (mem (app_Storage app))\<rparr>\<rparr>)"
  using assms stored_ok_New [of J "\<lparr>Created = created, Updated = updated, Index = LastIndex path, Data = data\<rparr>"]
  by (simp add: server_up_def storage_ready_def mem_ok_update safe_object_def storable_def json_safe_LastIndex
      Server_Active_def)

lemma spares_refreshesD:
  assumes "spares_refreshes path app others" "other \<in> set others" "refreshing other = Some (key, raw)"
  shows "\<not> Match key path" "\<forall>kv \<in> set (mem (app_Storage app)). Match path (fst kv) \<longrightarrow> \<not> Match key (fst kv)"
  using assms by (auto simp: spares_refreshes_def list_all_iff split: option.splits dest!: bspec)

lemma store_turn_fresh:
  assumes fresh: "threads_fresh J app (insert (Publishing (SetStore path data created updated)) (set others))"
    and calm: "spares_refreshes path app others"
  defines "app' \<equiv> app\<lparr>app_Storage := (app_Storage app)\<lparr>mem := AList.update path
    (New J \<lparr>Created = created, Updated = updated, Index = LastIndex path, Data = data\<rparr>) (mem (app_Storage app))\<rparr>\<rparr>"
  shows "threads_fresh J app' (insert (Publishing (SetSend path)) (set others))"
proof (rule fresh_turn_storage [OF fresh])
  have ok: "path \<noteq> []" "storable path data" using threads_fresh_ok [OF fresh, of "Publishing (SetStore path data created updated)"] by simp_all
  show "server_up J app'" unfolding app'_def using fresh ok(2) by (intro ready_update) (simp_all add: threads_fresh_def)
  show "same_settings app app'" by (simp add: same_settings_def app'_def)
  fix j
  have announced: "due app' (insert (Publishing (SetSend path)) (set others)) j key" if "Peer key path" for key
    using that ok(1) by (intro due_announced [of "Publishing (SetSend path)"]) simp_all
  show "due app' (insert (Publishing (SetSend path)) (set others)) j (pool_key app j) \<or>
      seen_by (pool_key app j) (mem (app_Storage app')) = seen_by (pool_key app j) (mem (app_Storage app))"
    using announced [of "pool_key app j"] seen_by_update [of "pool_key app j" path]
    by (cases "Peer (pool_key app j) path") (auto simp: app'_def Peer_def)
  assume "due app (insert (Publishing (SetStore path data created updated)) (set others)) j (pool_key app j)"
  then show "due app' (insert (Publishing (SetSend path)) (set others)) j (pool_key app j) \<or>
      (\<forall>data. up_to_date J app' (pool_key app j) data) \<or>
      patching j (Publishing (SetSend path)) \<and> (\<forall>other \<in> set others. \<not> patching j other)"
    by (auto simp: due_def app'_def mem_pending_def)
qed (use spares_refreshesD [OF calm] in \<open>auto simp: app'_def seen_by_update\<close>)

lemma erase_turn_fresh:
  assumes fresh: "threads_fresh J app (insert (Unpublishing (DelErase path)) (set others))"
    and calm: "spares_refreshes path app others"
      "list_all (\<lambda>p. \<not> crosses (PoolKey p) path (app_Storage app)) (tl (pools (app_Stream app)))"
    and turn: "unpublish_turn (DelErase path) app = Some (th', app')"
  shows "threads_fresh J app' (insert (Unpublishing th') (set others))"
proof -
  let ?th = "Unpublishing (DelSend path)"
  define m where "m = mem (app_Storage app)"
  define m' where "m' = (if \<not> strings_Contains path ''*'' then AList.delete path m
      else fold (\<lambda>kv m. if Match path (fst kv) then AList.delete (fst kv) m else m) m m)"
  have th': "th' = DelSend path" and app': "app' = app\<lparr>app_Storage := (app_Storage app)\<lparr>mem := m'\<rparr>\<rparr>"
    using turn by (auto simp: m_def m'_def Let_def)
  have ok: "path \<noteq> []" using threads_fresh_ok [OF fresh, of "Unpublishing (DelErase path)"] by simp
  have unseen: "seen_by key m' = seen_by key m"
    if "\<not> Match key path" "\<forall>kv \<in> set m. Match path (fst kv) \<longrightarrow> \<not> Match key (fst kv)" for key
    using that by (simp add: m'_def seen_by_delete seen_by_fold_delete)
  show ?thesis
    unfolding th'
  proof (rule fresh_turn_storage [OF fresh])
    have "server_up J app" using fresh by (simp add: threads_fresh_def)
    then show "server_up J app'"
      by (simp add: app' server_up_def storage_ready_def m'_def m_def mem_ok_delete mem_ok_fold_delete Server_Active_def)
    show "same_settings app app'" by (simp add: same_settings_def app')
    fix j
    have announced: "due app' (insert ?th (set others)) j key" if "Peer key path" for key
      using that ok by (intro due_announced [of ?th]) simp_all
    show "due app' (insert ?th (set others)) j (pool_key app j) \<or>
        seen_by (pool_key app j) (mem (app_Storage app')) = seen_by (pool_key app j) (mem (app_Storage app))"
      if "0 < j" "j < length (pools (app_Stream app))"
    proof (cases "Peer (pool_key app j) path")
      case False
      have "pools (app_Stream app) ! j \<in> set (tl (pools (app_Stream app)))"
        using that by (cases "pools (app_Stream app)") (auto simp: nth_Cons split: nat.split)
      with calm(2) have "\<not> crosses (pool_key app j) path (app_Storage app)" by (auto simp: list_all_iff)
      with False have "seen_by (pool_key app j) m' = seen_by (pool_key app j) m"
        by (intro unseen) (auto simp: Peer_def crosses_def list_ex_iff m_def)
      then show ?thesis by (simp add: app' m_def)
    qed (use announced in simp)
    assume "due app (insert (Unpublishing (DelErase path)) (set others)) j (pool_key app j)"
    then show "due app' (insert ?th (set others)) j (pool_key app j) \<or>
        (\<forall>data. up_to_date J app' (pool_key app j) data) \<or>
        patching j ?th \<and> (\<forall>other \<in> set others. \<not> patching j other)"
      by (auto simp: due_def app' mem_pending_def)
  next
    fix other key raw
    assume "other \<in> set others" "refreshing other = Some (key, raw)"
    from spares_refreshesD [OF calm(1) this] show "seen_by key (mem (app_Storage app')) = seen_by key (mem (app_Storage app))"
      using unseen [of key] by (simp add: app' m_def)
  qed (auto simp: app')
qed

text \<open>The event goes from the writer to the channel.\<close>

lemma send_turn_fresh:
  assumes fresh: "threads_fresh J app (insert th T)"
    and th: "\<And>j key. announces j key th \<longleftrightarrow> path \<noteq> [] \<and> Peer key path" "\<And>j. \<not> patching j th"
    and send: "broadcast_event path operation (app_Storage app) = Returns db"
    and th': "\<And>j. \<not> patching j th'" "refreshing th' = None" "\<And>app. thread_ok app th'"
  shows "threads_fresh J (app\<lparr>app_Storage := db\<rparr>) (insert th' T)"
proof -
  have up: "server_up J app" using fresh by (simp add: threads_fresh_def)
  then have st: "started (app_Storage app)" by (simp add: server_up_def storage_ready_def)
  have db: "started db" "mem db = mem (app_Storage app)" "noBroadcastKeys db = noBroadcastKeys (app_Storage app)"
      "mem_pending db = mem_pending (app_Storage app) @
        (if mem_muted (app_Storage app) path then [] else [\<lparr>EvKey = path, EvOperation = operation\<rparr>])"
    using broadcast_event_started [OF st, of path operation] send by auto
  show ?thesis
  proof (rule fresh_turn_storage [OF fresh])
    show "server_up J (app\<lparr>app_Storage := db\<rparr>)"
      using up db by (simp add: server_up_def storage_ready_def Server_Active_def)
    show "same_settings app (app\<lparr>app_Storage := db\<rparr>)" by (simp add: same_settings_def db(3))
    fix j
    assume q: "quiet (app_Storage app) (pool_key app j)" and d: "due app (insert th T) j (pool_key app j)"
    show "due (app\<lparr>app_Storage := db\<rparr>) (insert th' T) j (pool_key app j) \<or>
        (\<forall>data. up_to_date J (app\<lparr>app_Storage := db\<rparr>) (pool_key app j) data) \<or>
        patching j th' \<and> (\<forall>other \<in> T. \<not> patching j other)"
      using d q by (auto simp: due_def th(1) db(4) quiet_def)
  next
    fix path j data
    assume "th' = Working (PatchAt path j data)"
    with th'(1) [of j] show "up_to_date J (app\<lparr>app_Storage := db\<rparr>) (pool_key app j) data" by simp
  qed (use th th' db(2) in auto)
qed

section \<open>Turns of workers\<close>

lemma receive_turn_fresh:
  assumes fresh: "threads_fresh J app (insert (Working Receive) T)"
    and ch: "watcher (app_Storage app) = Some (ev # evs)"
  defines "app' \<equiv> app\<lparr>app_Storage := (app_Storage app)\<lparr>watcher := Some evs\<rparr>\<rparr>"
    and "th' \<equiv> Working (if EvKey ev \<noteq> '''' then Received (EvKey ev) else Recheck)"
  shows "threads_fresh J app' (insert th' T)"
proof (rule fresh_turn_storage [OF fresh])
  show "server_up J app'"
    using fresh by (simp add: threads_fresh_def server_up_def storage_ready_def started_def app'_def Server_Active_def)
  show "same_settings app app'" by (simp add: same_settings_def app'_def)
  have pending: "mem_pending (app_Storage app) = ev # mem_pending (app_Storage app')"
    by (simp add: mem_pending_def ch app'_def)
  fix j
  assume "0 < j" and d: "due app (insert (Working Receive) T) j (pool_key app j)"
  then show "due app' (insert th' T) j (pool_key app j) \<or> (\<forall>data. up_to_date J app' (pool_key app j) data) \<or>
      patching j th' \<and> (\<forall>other \<in> T. \<not> patching j other)"
    by (auto simp: due_def pending th'_def)
qed (auto simp: app'_def th'_def split: if_splits)

lemma skip_turn_fresh:
  assumes fresh: "threads_fresh J app (insert (Working (BroadcastAt path i)) T)"
    and skip: "\<not> Peer (pool_key app i) path \<or> (\<exists>err. getFilteredData J app (pool_key app i) = Inl err)"
  shows "threads_fresh J app (insert (Working (BroadcastAt path (Suc i))) T)"
proof (rule fresh_turn_local [OF fresh])
  fix j
  assume "announces j (pool_key app j) (Working (BroadcastAt path i))"
  then have j: "i \<le> j" "Peer (pool_key app j) path" by simp_all
  show "announces j (pool_key app j) (Working (BroadcastAt path (Suc i))) \<or>
      (\<forall>data. up_to_date J app (pool_key app j) data) \<or>
      patching j (Working (BroadcastAt path (Suc i))) \<and> (\<forall>other \<in> T. \<not> patching j other)"
    using j skip up_to_date_filtered by (cases "j = i") auto
qed simp_all

lemma lock_turn_fresh:
  assumes fresh: "threads_fresh J app (insert (Working (BroadcastAt path i)) T)"
    and i: "i < length (pools (app_Stream app))" and free: "\<forall>other \<in> T. \<not> patching i other"
    and data: "getFilteredData J app (pool_key app i) = Inr data"
  shows "threads_fresh J app (insert (Working (PatchAt path i data)) T)"
proof (rule fresh_turn_local [OF fresh])
  show "thread_ok app (Working (PatchAt path i data))"
    using threads_fresh_ok [OF fresh, of "Working (BroadcastAt path i)"] i by simp
  fix j
  assume "announces j (pool_key app j) (Working (BroadcastAt path i))"
  then show "announces j (pool_key app j) (Working (PatchAt path i data)) \<or>
      (\<forall>data. up_to_date J app (pool_key app j) data) \<or>
      patching j (Working (PatchAt path i data)) \<and> (\<forall>other \<in> T. \<not> patching j other)"
    using free by (cases "j = i") auto
qed (use up_to_date_read [OF data] in auto)

text \<open>The end of the work on a pool is the body of \<open>Broadcast\<close> with the data read before.\<close>

definition patch_opt :: "('p, 'c) wire_scheme \<Rightarrow> string \<Rightarrow> BroadcastOpt" where
  "patch_opt J data = \<lparr>opt_Get = (\<lambda>key. Inr data), opt_Encode = Encode J, opt_Callback = False\<rparr>"

lemma Peer_refl [simp]: "Peer key key"
  by (simp add: Peer_def Match_def)

lemma patch_turn:
  "worker_turn J now others (PatchAt path i data) app =
     Some (BroadcastAt path (Suc i), app\<lparr>app_Stream :=
       broadcast_pool J (\<lambda>i. now) (patch_opt J data) (pool_key app i) i (app_Stream app)\<rparr>)"
  by (auto simp: broadcast_pool_def patch_opt_def Let_def split: prod.split)

lemma patch_turn_fresh:
  fixes now :: int64
  assumes fresh: "threads_fresh J app (insert (Working (PatchAt path i data)) T)"
  defines "app' \<equiv> app\<lparr>app_Stream := broadcast_pool J (\<lambda>i. now) (patch_opt J data) (pool_key app i) i (app_Stream app)\<rparr>"
  shows "threads_fresh J app' (insert (Working (BroadcastAt path (Suc i))) T)"
proof (rule fresh_turn_stream [OF fresh])
  let ?sm = "app_Stream app"
  have up: "server_up J app" and ok: "stream_ok ?sm" using fresh by (auto simp: threads_fresh_def server_up_def)
  have i: "0 < i" "i < length (pools ?sm)" by (rule threads_fresh_patch [OF fresh insertI1])+
  have sm': "stream_ok (app_Stream app')" using broadcast_pool_operation [where J = J, OF i(2) ok] by (simp add: app'_def)
  then show "server_up J app'" using up by (simp add: server_up_def Server_Active_def app'_def)
  show "same_settings app app'" by (simp add: same_settings_def app'_def)
  have pools: "pools (app_Stream app') = (pools ?sm)[i := pool_after now (patch_opt J data) (pool_key app i) (pools ?sm ! i)]"
    using broadcast_pool_effect [OF stream_ok_connections_distinct [OF ok i(2)], of J "\<lambda>i. now" "patch_opt J data" "pool_key app i"]
    by (auto simp: app'_def)
  have after: "PoolKey (pools (app_Stream app') ! i) = pool_key app i" "CacheData (cache (pools (app_Stream app') ! i)) = data"
    using i(2) by (simp_all add: pools pool_after_def patch_opt_def)
  show "j < length (pools (app_Stream app')) \<and> pool_key app' j = pool_key app j" if "j < length (pools ?sm)" for j
    using that after(1) by (cases "j = i") (simp_all add: pools)
  show "(j < length (pools ?sm) \<and> cache (pools (app_Stream app') ! j) = cache (pools ?sm ! j) \<and>
        \<not> patching j (Working (PatchAt path i data))) \<or>
      current J app (pool_key app' j) (cache (pools (app_Stream app') ! j)) \<or>
      due app (insert (Working (PatchAt path i data)) T) j (pool_key app' j)"
    if j: "0 < j" "j < length (pools (app_Stream app'))" "quiet (app_Storage app) (pool_key app' j)" for j
  proof (cases "j = i")
    case True
    have "due app (insert (Working (PatchAt path i data)) T) i (pool_key app i) \<or> up_to_date J app (pool_key app i) data"
      using fresh j(3) after(1) True unfolding threads_fresh_def patches_awaited_def by auto
    then show ?thesis unfolding current_data [of J app _ "cache (pools (app_Stream app') ! j)"] using after True by auto
  next
    case False
    then show ?thesis using j(2) by (simp add: pools)
  qed
qed (use threads_fresh_patch [OF fresh] in \<open>auto simp: app'_def\<close>)

section \<open>Turns of readers\<close>

text \<open>A turn that leaves storage and stream alone.\<close>

lemma fresh_turn_aside:
  assumes fresh: "threads_fresh J app (insert th T)"
    and same: "app_Storage app' = app_Storage app" "app_Stream app' = app_Stream app" "same_settings app app'"
    and ok: "thread_ok app' th'" and promise: "\<And>j key. announces j key th \<Longrightarrow> announces j key th'"
    and idle: "\<And>j. \<not> patching j th" "\<And>j. \<not> patching j th'" "refreshing th' = None"
  shows "threads_fresh J app' (insert th' T)"
proof (rule fresh_turn_stream [OF fresh])
  show "server_up J app'"
    using fresh same by (simp add: threads_fresh_def server_up_def Server_Active_def same_settings_def)
qed (use same ok promise idle in auto)

lemma New_caches:
  assumes "j < length (pools (snd (Stream_New key upgrade sm)))"
  shows "j < length (pools sm) \<and> cache (pools (snd (Stream_New key upgrade sm)) ! j) = cache (pools sm ! j) \<or>
    CacheData (cache (pools (snd (Stream_New key upgrade sm)) ! j)) = []"
proof (cases rule: findPool_cases [of sm key])
  case missing
  with assms show ?thesis
    by (auto simp: snd_Stream_New Stream_new_def Let_def findPool_def nth_append zero_Cache_def split: if_splits)
next
  case (found i)
  with assms show ?thesis
    by (cases "j = i") (auto simp: snd_Stream_New Stream_new_def Let_def findPool_def split: if_splits)
qed

lemma new_turn_fresh:
  assumes fresh: "threads_fresh J app (insert th T)" and new: "snd (Stream_New key upgrade (app_Stream app)) = sm"
    and idle: "\<And>j. \<not> patching j th" "\<And>j key. \<not> announces j key th" "\<And>j. \<not> patching j th'" "refreshing th' = None"
      "\<And>app. thread_ok app th'"
    and app': "app' = app\<lparr>app_Stream := sm, spawned := sp\<rparr>"
  shows "threads_fresh J app' (insert th' T)"
proof (rule fresh_turn_stream [OF fresh])
  have up: "server_up J app" and ok: "stream_ok (app_Stream app)"
    using fresh by (auto simp: threads_fresh_def server_up_def)
  have "stream_ok sm" using New.keeps_ok [OF ok, of key upgrade] new by simp
  with up show "server_up J app'" by (simp add: server_up_def Server_Active_def app')
  show "j < length (pools (app_Stream app')) \<and> pool_key app' j = pool_key app j"
    if "j < length (pools (app_Stream app))" for j
    using New.pool_key_stable [OF ok that, of key upgrade] new by (simp add: app')
  show "(j < length (pools (app_Stream app)) \<and> cache (pools (app_Stream app') ! j) = cache (pools (app_Stream app) ! j) \<and>
        \<not> patching j th) \<or>
      current J app (pool_key app' j) (cache (pools (app_Stream app') ! j)) \<or> due app (insert th T) j (pool_key app' j)"
    if "j < length (pools (app_Stream app'))" for j
    using New_caches [of j key upgrade "app_Stream app"] that new idle(1) by (auto simp: app')
qed (use idle in \<open>auto simp: app' same_settings_def\<close>)

lemma set_turn_fresh:
  assumes fresh: "threads_fresh J app (insert (Reading (RefreshSet path raw who)) T)"
    and set: "Stream_setCache now path raw (app_Stream app) = (version, sm)"
  shows "threads_fresh J (app\<lparr>app_Stream := sm\<rparr>) (insert (Reading (Entry entry who)) T)"
proof (rule fresh_turn_stream [OF fresh])
  have up: "server_up J app" and ok: "stream_ok (app_Stream app)"
    using fresh by (auto simp: threads_fresh_def server_up_def)
  have sm: "sm = snd (Stream_setCache now path raw (app_Stream app))" using set by simp
  have "stream_ok sm" using setCache.keeps_ok [OF ok] sm by simp
  with up show "server_up J (app\<lparr>app_Stream := sm\<rparr>)" by (simp add: server_up_def Server_Active_def)
  show "j < length (pools (app_Stream (app\<lparr>app_Stream := sm\<rparr>))) \<and> pool_key (app\<lparr>app_Stream := sm\<rparr>) j = pool_key app j"
    if "j < length (pools (app_Stream app))" for j
    using setCache.pool_key_stable [OF ok that] sm by simp
  have raw: "up_to_date J app path raw"
    using fresh unfolding threads_fresh_def refreshes_current_def by simp
  show "(j < length (pools (app_Stream app)) \<and>
        cache (pools (app_Stream (app\<lparr>app_Stream := sm\<rparr>)) ! j) = cache (pools (app_Stream app) ! j) \<and>
        \<not> patching j (Reading (RefreshSet path raw who))) \<or>
      current J app (pool_key (app\<lparr>app_Stream := sm\<rparr>) j) (cache (pools (app_Stream (app\<lparr>app_Stream := sm\<rparr>)) ! j)) \<or>
      due app (insert (Reading (RefreshSet path raw who)) T) j (pool_key (app\<lparr>app_Stream := sm\<rparr>) j)"
    if j: "j < length (pools (app_Stream (app\<lparr>app_Stream := sm\<rparr>)))" for j
  proof (cases rule: findPool_cases [of "app_Stream app" path])
    case missing
    with j raw show ?thesis
      unfolding current_data [of J app _ "cache (pools (app_Stream (app\<lparr>app_Stream := sm\<rparr>)) ! j)"]
      by (auto simp: sm Stream_setCache_def nth_append)
  next
    case (found i)
    with j raw show ?thesis
      unfolding current_data [of J app _ "cache (pools (app_Stream (app\<lparr>app_Stream := sm\<rparr>)) ! j)"]
      by (cases "j = i") (simp_all add: sm Stream_setCache_def)
  qed
qed (auto simp: same_settings_def set Stream_setCache_def)

section \<open>Every turn\<close>

lemma idle_thread:
  assumes "\<And>j key. \<not> announces j key th" "\<And>j. \<not> patching j th" "refreshing th = None" "thread_ok app th"
  shows "threads_fresh J app (insert th T) \<longleftrightarrow> threads_fresh J app T"
proof -
  have due: "due app (insert th T) j key \<longleftrightarrow> due app T j key" for j key using assms(1) by (auto simp: due_def)
  have "Working (PatchAt path j data) \<noteq> th" for path j data using assms(2) [of j] by auto
  then show ?thesis
    using assms by (auto simp: threads_fresh_def caches_awaited_def patches_awaited_def refreshes_current_def due)
qed

lemma publish_turn_fresh:
  assumes fresh: "threads_fresh J app (insert (Publishing t) (set others))"
    and turn: "publish_turn J now t app = Some (t', app')" and calm: "calm_turn J now others (Publishing t) app"
  shows "threads_fresh J app' (insert (Publishing t') (set others))"
proof (cases t)
  case (PublishStart r)
  have "app' = app" "\<And>j key. \<not> announces j key (Publishing t')" "refreshing (Publishing t') = None"
    using turn by (auto simp: PublishStart Let_def split: if_splits sum.splits)
  moreover have "thread_ok app (Publishing t')"
  proof (cases "\<exists>path data. t' = SetPeek path data")
    case True
    then obtain path data where t': "t' = SetPeek path data" by blast
    with turn PublishStart obtain event where p: "publishable (req_key r)" "DecodeReader J (req_body r) = Inr event"
        "router_check (Write_filters (app_filters app)) (Build now (req_key r)) (MsgData event) (app_Static app) = Inr data"
        "path = Build now (req_key r)"
      by (auto simp: Let_def split: if_splits sum.splits)
    then have "json_safe data" using calm PublishStart by simp
    with p show ?thesis by (simp add: t' publishable_iff storable_def json_safe_Build Build_not_Nil)
  next
    case False
    with turn PublishStart show ?thesis by (auto simp: Let_def split: if_splits sum.splits)
  qed
  ultimately show ?thesis
    using fresh by (simp add: PublishStart) (subst idle_thread; auto simp: idle_thread)
next
  case (SetPeek path data)
  then obtain created updated where "t' = SetStore path data created updated" "app' = app"
    using turn by (auto split: prod.splits)
  then show ?thesis
    using fresh_turn_local [OF fresh, of "Publishing t'"] threads_fresh_ok [OF fresh insertI1] by (simp add: SetPeek)
next
  case (SetStore path data created updated)
  then show ?thesis using store_turn_fresh [of J app path data created updated others] fresh turn calm by auto
next
  case (SetSend path)
  with turn obtain db where db: "broadcast_event path ''set'' (app_Storage app) = Returns db"
      "t' = AfterSet path (LastIndex path)" "app' = app\<lparr>app_Storage := db\<rparr>"
    by (auto split: outcome.splits)
  then show ?thesis using send_turn_fresh [OF fresh _ _ db(1), of "Publishing t'"] by (simp add: SetSend)
next
  case (AfterSet path index)
  then show ?thesis
    using fresh_turn_aside [OF fresh, of app' "Publishing t'"] turn by (auto simp: same_settings_def)
qed (use turn in simp)

lemma unpublish_turn_fresh:
  assumes fresh: "threads_fresh J app (insert (Unpublishing t) (set others))"
    and turn: "unpublish_turn t app = Some (t', app')" and calm: "calm_turn J now others (Unpublishing t) app"
  shows "threads_fresh J app' (insert (Unpublishing t') (set others))"
proof (cases t)
  case (UnpublishStart r)
  have app': "app' = app" and idle: "\<And>j key. \<not> announces j key (Unpublishing t')"
    and ok: "thread_ok app (Unpublishing t')"
    using turn by (auto simp: UnpublishStart Let_def split: if_splits option.splits)
  then show ?thesis
    using fresh_turn_aside [OF fresh, of app "Unpublishing t'"] by (simp add: UnpublishStart same_settings_def)
next
  case (DelLoad path)
  then have "app' = app" "\<And>j key. \<not> announces j key (Unpublishing t')" "thread_ok app (Unpublishing t')"
    using turn threads_fresh_ok [OF fresh insertI1] by (auto split: option.splits)
  then show ?thesis
    using fresh_turn_aside [OF fresh, of app "Unpublishing t'"] by (simp add: DelLoad same_settings_def)
next
  case (DelErase path)
  then show ?thesis using erase_turn_fresh [of J app path others t' app'] fresh turn calm by simp
next
  case (DelSend path)
  with turn obtain db resp where db: "broadcast_event path ''del'' (app_Storage app) = Returns db"
      "t' = Unpublished resp" "app' = app\<lparr>app_Storage := db\<rparr>"
    by (auto split: outcome.splits)
  then show ?thesis using send_turn_fresh [OF fresh _ _ db(1), of "Unpublishing t'"] by (simp add: DelSend)
qed (use turn in simp)

lemma worker_turn_fresh:
  assumes fresh: "threads_fresh J app (insert (Working t) (set others))"
    and turn: "worker_turn J now others t app = Some (t', app')"
  shows "threads_fresh J app' (insert (Working t') (set others))"
proof (cases t)
  case Receive
  have "started (app_Storage app)" using fresh by (simp add: threads_fresh_def server_up_def storage_ready_def)
  then obtain ch where ch: "watcher (app_Storage app) = Some ch" by (auto simp: started_def)
  with turn Receive obtain ev evs where "ch = ev # evs" by (cases ch) auto
  with receive_turn_fresh [of J app "set others" ev evs] fresh turn Receive ch show ?thesis by auto
next
  case (Received path)
  then show ?thesis using fresh_turn_local [OF fresh, of "Working t'"] turn by auto
next
  case (BroadcastAt path i)
  have ok: "0 < i" using threads_fresh_ok [OF fresh insertI1] by (simp add: BroadcastAt)
  show ?thesis
  proof (cases "length (pools (app_Stream app)) \<le> i")
    case True
    then have "t' = Recheck" "app' = app" using turn BroadcastAt by simp_all
    with fresh_turn_local [OF fresh, of "Working Recheck"] True show ?thesis by (simp add: BroadcastAt)
  next
    case inside: False
    show ?thesis
    proof (cases "Peer (pool_key app i) path")
      case False
      with skip_turn_fresh [of J app path i "set others"] fresh turn inside show ?thesis by (auto simp: BroadcastAt)
    next
      case peer: True
      have free: "\<forall>other \<in> set others. \<not> patching i other"
        using turn inside peer by (auto simp: BroadcastAt list_ex_iff split: if_splits)
      show ?thesis
      proof (cases "getFilteredData J app (pool_key app i)")
        case (Inl err)
        with skip_turn_fresh [of J app path i "set others"] fresh turn inside peer show ?thesis
          by (auto simp: BroadcastAt split: if_splits)
      next
        case (Inr data)
        with lock_turn_fresh [of J app path i "set others" data] fresh turn inside peer free show ?thesis
          by (auto simp: BroadcastAt split: if_splits)
      qed
    qed
  qed
next
  case (PatchAt path i data)
  then show ?thesis
    using patch_turn_fresh [of J app path i data "set others" now] fresh turn by (simp add: patch_turn del: worker_turn.simps)
next
  case Recheck
  have "MemoryStorage_Active (app_Storage app) = Returns True"
    using fresh by (auto simp: threads_fresh_def server_up_def storage_ready_def started_def MemoryStorage_Active_def)
  then show ?thesis using fresh_turn_local [OF fresh, of "Working t'"] turn by (simp add: Recheck)
qed (use turn in simp)

lemma read_turn_fresh:
  assumes fresh: "threads_fresh J app (insert (Reading t) (set others))"
    and turn: "read_turn J now others t app = Some (t', app')"
  shows "threads_fresh J app' (insert (Reading t') (set others))"
proof (cases t)
  case (ReadStart r)
  have "app' = app" "refreshing (Reading t') = None"
    using turn by (auto simp: ReadStart Let_def split: if_splits option.splits)
  then show ?thesis using fresh_turn_local [OF fresh, of "Reading t'"] by (simp add: ReadStart)
next
  case (WsNew r)
  obtain answer sm where new: "Stream_New (req_key r) (req_upgrade r) (app_Stream app) = (answer, sm)"
    by (cases "Stream_New (req_key r) (req_upgrade r) (app_Stream app)")
  with turn have "app' = app\<lparr>app_Stream := sm, spawned := spawned app\<rparr>" "refreshing (Reading t') = None"
    by (auto simp: WsNew split: if_splits sum.splits)
  then show ?thesis
    using new_turn_fresh [OF fresh, of "req_key r" "req_upgrade r" sm "Reading t'" app' "spawned app"] new by (simp add: WsNew)
next
  case (RefreshGet path who)
  show ?thesis
  proof (cases "getFilteredData J app path")
    case (Inl err)
    with turn fresh_turn_local [OF fresh, of "Reading t'"] show ?thesis by (auto simp: RefreshGet)
  next
    case (Inr raw)
    with turn have t': "app' = app" "t' = RefreshVersion path (if length raw = 0 then EmptyObject else raw) who"
      by (auto simp: RefreshGet)
    show ?thesis
      unfolding t' using up_to_date_document [OF Inr]
      by (intro fresh_turn_local [OF fresh]) (auto simp: RefreshGet simp del: length_0_conv)
  qed
next
  case (RefreshVersion path raw who)
  have raw: "up_to_date J app path raw"
    using fresh unfolding threads_fresh_def refreshes_current_def by (simp add: RefreshVersion)
  have "app' = app" "\<And>key data. refreshing (Reading t') = Some (key, data) \<Longrightarrow> key = path \<and> data = raw"
    using turn by (auto simp: RefreshVersion split: if_splits sum.splits)
  then show ?thesis using fresh_turn_local [OF fresh, of "Reading t'"] raw by (auto simp: RefreshVersion)
next
  case (RefreshSet path raw who)
  then show ?thesis using set_turn_fresh [of J app path raw who "set others" now] fresh turn by (auto split: if_splits prod.splits)
next
  case (Entry entry who)
  then show ?thesis
    using fresh_turn_aside [OF fresh, of app' "Reading t'"] turn by (auto simp: same_settings_def split: option.splits)
qed (use turn in simp)

lemma thread_turn_fresh:
  assumes fresh: "threads_fresh J app (insert th (set others))"
    and turn: "thread_turn J now others th app = Some (th', app')" and calm: "calm_turn J now others th app"
  shows "threads_fresh J app' (insert th' (set others))"
proof (cases th)
  case (Publishing t)
  then show ?thesis using publish_turn_fresh [of J app t others now] fresh turn calm by (auto simp del: publish_turn.simps calm_turn.simps)
next
  case (Unpublishing t)
  then show ?thesis using unpublish_turn_fresh [of J app t others] fresh turn calm by (auto simp del: unpublish_turn.simps calm_turn.simps)
next
  case (Working t)
  then show ?thesis using worker_turn_fresh [of J app t others now] fresh turn by (auto simp del: worker_turn.simps)
next
  case (Reading t)
  then show ?thesis using read_turn_fresh [of J app t others now] fresh turn by (auto simp del: read_turn.simps)
qed

lemma set_update_other_threads: "i < length (threads w) \<Longrightarrow> set ((threads w)[i := th]) = insert th (set (other_threads i w))"
  by (simp add: other_threads_def upd_conv_take_nth_drop)

lemma insert_other_threads: "i < length (threads w) \<Longrightarrow> insert (threads w ! i) (set (other_threads i w)) = set (threads w)"
  using set_update_other_threads [of i w "threads w ! i"] by simp

lemma entries_caches:
  assumes "entries sm' = entries sm" "0 < j" "j < length (pools sm')"
  shows "j < length (pools sm) \<and> cache (pools sm' ! j) = cache (pools sm ! j)"
proof -
  obtain k where k: "j = Suc k" using assms(2) by (cases j) auto
  then have "k < length (entries sm')" using assms(3) by (simp add: entries_def)
  then have "k < length (entries sm)" using assms(1) by simp
  then have "j < length (pools sm)" by (simp add: k entries_def)
  moreover have "entries sm' ! k = entries sm ! k" using assms(1) by simp
  ultimately show ?thesis using assms(3) by (simp add: entries_def k nth_tl)
qed

lemma short_step_fresh:
  assumes fresh: "threads_fresh J app T" and short: "short_step l ths" and step: "server_step ul J l app app'"
  shows "threads_fresh J app' T"
proof -
  let ?idle = "Working Stopped"
  have drop_idle: "threads_fresh J a (insert ?idle T) \<longleftrightarrow> threads_fresh J a T" for a
    by (rule idle_thread) simp_all
  have up: "server_up J app" using fresh by (simp add: threads_fresh_def)
  have env: "benign J l app" using short by (cases l) simp_all
  have settings: "same_settings app app'" using step_storage [OF step up env] by simp
  note stream = step_stream [OF step up]
  have caches: "app_Storage app' = app_Storage app \<and>
      (\<forall>j. 0 < j \<and> j < length (pools (app_Stream app')) \<longrightarrow>
        j < length (pools (app_Stream app)) \<and> cache (pools (app_Stream app') ! j) = cache (pools (app_Stream app) ! j) \<or>
        CacheData (cache (pools (app_Stream app') ! j)) = [])"
    using step
  proof cases
    case (step_stats now r resp)
    have "app_Storage app' = app_Storage app" using stats_server [OF step_stats(2)] by auto
    moreover have "app_Stream app' = app_Stream app \<or> app_Stream app' = snd (Stream_New '''' (req_upgrade r) (app_Stream app))"
      using stream by (simp add: step_stats(1) split: if_splits)
    ultimately show ?thesis using New_caches by metis
  next
    case (step_tick now)
    have "app_Storage app' = app_Storage app"
      using step_tick by (auto simp: tick_def sendTime_def bind_outcome_eq_Returns split: if_splits)
    moreover have "entries (app_Stream app') = entries (app_Stream app)"
      using stream by (simp add: step_tick(1) entries_clock)
    ultimately show ?thesis using entries_caches by blast
  next
    case (step_run i)
    have "app_Storage app' = app_Storage app"
      using step_run by (auto simp: run_spawned_def run_goroutine_call [of _ _ J] split: if_splits)
    moreover have "entries (app_Stream app') = entries (app_Stream app)"
      unfolding stream by (simp add: step_run(1) del: run_call.simps) (rule entries_quiet_call, blast)
    ultimately show ?thesis using entries_caches by blast
  next
    case (step_hangup key client)
    have "app_Storage app' = app_Storage app"
      using step_hangup by (auto simp: hangup_def bind_outcome_eq_Returns)
    moreover have "entries (app_Stream app') = entries (app_Stream app)"
      using stream by (simp add: step_hangup(1) entries_Close)
    ultimately show ?thesis using entries_caches by blast
  next
    case (step_lose client)
    have "entries (app_Stream app') = entries (app_Stream app)"
      using step_lose by (intro entries_pools) (simp add: lose_peer_def)
    moreover have "app_Storage app' = app_Storage app" using step_lose by simp
    ultimately show ?thesis using entries_caches by blast
  qed (use short in simp_all)
  have "threads_fresh J app' (insert ?idle T)"
  proof (rule fresh_turn_stream)
    show "threads_fresh J app (insert ?idle T)" using fresh by (simp add: drop_idle)
    show "server_up J app'" by (rule step_up [OF step up env])
    show "j < length (pools (app_Stream app')) \<and> pool_key app' j = pool_key app j"
      if "j < length (pools (app_Stream app))" for j
      using history.pool_key_stable [of "app_Stream app" j J "step_calls J l app"] that up
      by (simp add: stream server_up_def)
    show "(j < length (pools (app_Stream app)) \<and> cache (pools (app_Stream app') ! j) = cache (pools (app_Stream app) ! j) \<and>
          \<not> patching j ?idle) \<or>
        current J app (pool_key app' j) (cache (pools (app_Stream app') ! j)) \<or>
        due app (insert ?idle T) j (pool_key app' j)"
      if "0 < j" "j < length (pools (app_Stream app'))" for j
      using caches that by auto
    show "app_Storage app' = app_Storage app" using caches by blast
  qed (use settings in simp_all)
  then show ?thesis by (simp add: drop_idle)
qed

lemma world_step_fresh:
  assumes fresh: "threads_fresh J (server w) (set (threads w))" and calm: "calm J l w" and step: "world_step ul J l w w'"
  shows "threads_fresh J (server w') (set (threads w'))"
  using step
proof cases
  case (world_turn now i)
  then obtain th app where i: "i < length (threads w)"
    and turn: "thread_turn J now (other_threads i w) (threads w ! i) (server w) = Some (th, app)"
    and w': "w' = \<lparr>server = app, threads = (threads w)[i := th]\<rparr>"
    by (auto simp: take_turn_def split: if_splits option.splits)
  have "threads_fresh J app (insert th (set (other_threads i w)))"
  proof (rule thread_turn_fresh [OF _ turn])
    show "threads_fresh J (server w) (insert (threads w ! i) (set (other_threads i w)))"
      using fresh by (simp only: insert_other_threads [OF i])
    show "calm_turn J now (other_threads i w) (threads w ! i) (server w)" using calm by (simp add: world_turn(1))
  qed
  then show ?thesis by (simp add: w' set_update_other_threads [OF i])
next
  case (world_arrive th)
  then have idle: "\<And>j key. \<not> announces j key th" "\<And>j. \<not> patching j th" "refreshing th = None" "thread_ok (server w) th"
    by (cases th rule: arriving.cases; simp)+
  from fresh show ?thesis by (simp add: world_arrive(3) idle_thread [OF idle])
next
  case (world_other l' app)
  then show ?thesis using short_step_fresh [OF fresh] by simp
qed

lemma world_reaches_fresh:
  assumes "world_reaches ul J (calm J) w w'" "threads_fresh J (server w) (set (threads w))"
  shows "threads_fresh J (server w') (set (threads w'))"
  by (rule world_invariant [OF assms(1), where I = "\<lambda>w. threads_fresh J (server w) (set (threads w))"])
    (use assms(2) world_step_fresh in blast)+

text \<open>A server whose goroutines all wait for work.\<close>

fun resting :: "thread \<Rightarrow> bool" where
  "resting (Publishing (Published resp)) = True"
| "resting (Unpublishing (Unpublished resp)) = True"
| "resting (Working Receive) = True"
| "resting (Working Stopped) = True"
| "resting (Reading (Answered resp)) = True"
| "resting th = False"

lemma resting_idle:
  assumes "resting th"
  shows "\<not> announces j key th" "\<not> patching j th" "refreshing th = None" "thread_ok app th"
  using assms by (cases th rule: resting.cases; simp)+

lemma resting_fresh:
  assumes "list_all resting ths"
  shows "threads_fresh J app (set ths) \<longleftrightarrow> server_up J app \<and> fresh J app"
proof -
  have th: "resting th" if "th \<in> set ths" for th using assms that by (simp add: list_all_iff)
  have due: "due app (set ths) j key \<longleftrightarrow> concerned (mem_pending (app_Storage app)) key" for j key
    using resting_idle(1) [OF th] by (auto simp: due_def)
  have entry: "(key, c) \<in> set (entries (app_Stream app)) \<longleftrightarrow>
      (\<exists>j. 0 < j \<and> j < length (pools (app_Stream app)) \<and> key = pool_key app j \<and> c = cache (pools (app_Stream app) ! j))"
    (is "_ \<longleftrightarrow> ?ex") for key c
  proof
    assume "(key, c) \<in> set (entries (app_Stream app))"
    then obtain k where "k < length (entries (app_Stream app))" "entries (app_Stream app) ! k = (key, c)"
      by (auto simp: in_set_conv_nth)
    then show ?ex by (intro exI [of _ "Suc k"]) (simp add: entries_def nth_tl)
  next
    assume ?ex
    then obtain j where j: "0 < j" "j < length (pools (app_Stream app))" "key = pool_key app j"
      "c = cache (pools (app_Stream app) ! j)" by blast
    then have "j - 1 < length (entries (app_Stream app))" "entries (app_Stream app) ! (j - 1) = (key, c)"
      by (simp_all add: entries_def nth_tl)
    then show "(key, c) \<in> set (entries (app_Stream app))" by (metis nth_mem)
  qed
  have no: "Working (PatchAt path j data) \<notin> set ths" for path j data
    using resting_idle(2) [OF th, of "Working (PatchAt path j data)" j] by auto
  have "caches_awaited J app (set ths) \<longleftrightarrow> fresh J app"
  proof
    assume a: "caches_awaited J app (set ths)"
    show "fresh J app"
      unfolding fresh_def
    proof clarify
      fix key c
      assume "(key, c) \<in> set (entries (app_Stream app))" "quiet (app_Storage app) key" "\<not> current J app key c"
      with a show "concerned (mem_pending (app_Storage app)) key"
        unfolding entry caches_awaited_def due using resting_idle(2) [OF th] by blast
    qed
  next
    assume f: "fresh J app"
    show "caches_awaited J app (set ths)"
      unfolding caches_awaited_def due
    proof (intro allI impI)
      fix j
      assume j: "0 < j \<and> j < length (pools (app_Stream app)) \<and> quiet (app_Storage app) (pool_key app j)"
      then have "(pool_key app j, cache (pools (app_Stream app) ! j)) \<in> set (entries (app_Stream app))"
        unfolding entry by blast
      with f j show "concerned (mem_pending (app_Storage app)) (pool_key app j) \<or>
          current J app (pool_key app j) (cache (pools (app_Stream app) ! j)) \<or> (\<exists>th \<in> set ths. patching j th)"
        unfolding fresh_def by fastforce
    qed
  qed
  moreover have "patches_awaited J app (set ths)" using no by (simp add: patches_awaited_def)
  moreover have "refreshes_current J app (set ths)" using resting_idle(3) [OF th] by (simp add: refreshes_current_def)
  ultimately
  show ?thesis using resting_idle(4) [OF th] by (auto simp: threads_fresh_def)
qed

end
