(* ===== verification/ThreadProgress.thy ===== *)
theory ThreadProgress
  imports ThreadFresh
begin

text \<open>
  The locks do not stop the goroutines of \<open>Threads\<close>: as long as one of them has something to do, one of
  them has a turn, and without new requests the turns come to an end.
\<close>

section \<open>Somebody has a turn\<close>

lemma unbroadcast_turn:
  assumes st: "started (app_Storage app)" and alone: "\<not> list_ex broadcasting others" and busy: "\<not> resting th"
  shows "thread_turn J now others th app \<noteq> None"
proof -
  obtain db where send: "broadcast_event path operation (app_Storage app) = Returns (db path operation)" for path operation
    using broadcast_event_started [OF st] by metis
  note free = alone nobody_patches [OF alone] nobody_locks [OF alone]
  show ?thesis
  proof (cases th)
    case (Publishing t)
    with busy send show ?thesis
      by (cases t) (auto simp: Let_def split: sum.split prod.split)
  next
    case (Unpublishing t)
    with busy send show ?thesis by (cases t) (auto simp: Let_def split: option.split)
  next
    case (Working t)
    with busy free show ?thesis by (cases t) (auto simp: Let_def split: sum.split prod.split)
  next
    case (Reading t)
    with busy free show ?thesis by (cases t) (auto simp: Let_def split: sum.split prod.split option.split)
  qed
qed

lemma patch_has_turn: "patching i th \<Longrightarrow> thread_turn J now others th app \<noteq> None"
  by (cases "(i, th)" rule: patching.cases) (auto simp: Let_def split: prod.split)

lemma somebody_has_turn:
  assumes st: "started (app_Storage (server w))" and busy: "\<exists>th \<in> set (threads w). \<not> resting th"
  shows "\<exists>i w'. take_turn J now i w = Some w'"
proof -
  have turn: "\<exists>w'. take_turn J now i w = Some w'"
    if "i < length (threads w)" "thread_turn J now (other_threads i w) (threads w ! i) (server w) \<noteq> None" for i
    using that by (auto simp: take_turn_def)
  have others: "set (other_threads i w) \<subseteq> set (threads w)" for i
    by (auto simp: other_threads_def dest: in_set_takeD in_set_dropD)
  consider (patch) k th where "th \<in> set (threads w)" "patching k th"
    | (broadcast) th where "th \<in> set (threads w)" "broadcasting th" "\<forall>other \<in> set (threads w). \<forall>k. \<not> patching k other"
    | (quiet) "\<forall>th \<in> set (threads w). \<not> broadcasting th"
    by blast
  then show ?thesis
  proof cases
    case (patch k th)
    then obtain i where "i < length (threads w)" "threads w ! i = th" by (auto simp: in_set_conv_nth)
    with turn [of i] patch_has_turn [OF patch(2)] show ?thesis by blast
  next
    case (broadcast th)
    then obtain i where i: "i < length (threads w)" "threads w ! i = th" by (auto simp: in_set_conv_nth)
    have "\<not> list_ex (patching k) (other_threads i w)" for k
      using broadcast(3) others by (auto simp: list_ex_iff)
    then have "thread_turn J now (other_threads i w) th (server w) \<noteq> None"
      using broadcast(2,3) by (cases th rule: broadcasting.cases) (auto simp: Let_def split: sum.split prod.split)
    with turn [OF i(1)] i(2) show ?thesis by blast
  next
    case quiet
    from busy obtain i where i: "i < length (threads w)" "\<not> resting (threads w ! i)" by (auto simp: in_set_conv_nth)
    have "\<not> list_ex broadcasting (other_threads i w)" using quiet others by (auto simp: list_ex_iff)
    from unbroadcast_turn [OF st this i(2)] turn [OF i(1)] show ?thesis by blast
  qed
qed

text \<open>Nobody has a turn exactly when all have returned or wait for an event that is not there.\<close>

lemma nobody_has_turn:
  assumes st: "started (app_Storage (server w))"
  shows "(\<forall>i now. take_turn J now i w = None) \<longleftrightarrow>
    list_all resting (threads w) \<and> (Working Receive \<in> set (threads w) \<longrightarrow> mem_pending (app_Storage (server w)) = [])"
    (is "?stuck \<longleftrightarrow> ?rest \<and> ?taken")
proof -
  obtain ch where ch: "watcher (app_Storage (server w)) = Some ch" using st by (auto simp: started_def)
  have pending: "mem_pending (app_Storage (server w)) = ch" by (simp add: mem_pending_def ch)
  show ?thesis
  proof
    assume stuck: ?stuck
    have ?rest using somebody_has_turn [where J = J, OF st] stuck by (force simp: list_all_iff)
    moreover have ?taken
    proof
      assume "Working Receive \<in> set (threads w)"
      then obtain i where "i < length (threads w)" "threads w ! i = Working Receive" by (auto simp: in_set_conv_nth)
      with stuck [rule_format, of 0 i] show "mem_pending (app_Storage (server w)) = []"
        by (cases ch) (auto simp: take_turn_def ch pending)
    qed
    ultimately show "?rest \<and> ?taken" ..
  next
    assume rest: "?rest \<and> ?taken"
    show ?stuck
    proof (intro allI)
      fix i now
      show "take_turn J now i w = None"
      proof (cases "i < length (threads w)")
        case True
        have "threads w ! i = Working Receive \<Longrightarrow> Working Receive \<in> set (threads w)" using nth_mem [OF True] by metis
        then have "resting (threads w ! i)" "threads w ! i = Working Receive \<longrightarrow> ch = []"
          using rest pending True by (auto simp: list_all_length)
        then show ?thesis by (cases "threads w ! i" rule: resting.cases) (auto simp: take_turn_def ch)
      qed (simp add: take_turn_def)
    qed
  qed
qed

section \<open>The turns come to an end\<close>

fun publishing_weight :: "publishing \<Rightarrow> nat" where
  "publishing_weight (PublishStart r) = 5"
| "publishing_weight (SetPeek path data) = 4"
| "publishing_weight (SetStore path data created updated) = 3"
| "publishing_weight (SetSend path) = 2"
| "publishing_weight (AfterSet path index) = 1"
| "publishing_weight (Published resp) = 0"

fun unpublishing_weight :: "unpublishing \<Rightarrow> nat" where
  "unpublishing_weight (UnpublishStart r) = 4"
| "unpublishing_weight (DelLoad path) = 3"
| "unpublishing_weight (DelErase path) = 2"
| "unpublishing_weight (DelSend path) = 1"
| "unpublishing_weight (Unpublished resp) = 0"

fun reading_weight :: "reading \<Rightarrow> nat" where
  "reading_weight (ReadStart r) = 6"
| "reading_weight (WsNew r) = 5"
| "reading_weight (RefreshGet path who) = 4"
| "reading_weight (RefreshVersion path raw who) = 3"
| "reading_weight (RefreshSet path raw who) = 2"
| "reading_weight (Entry entry who) = 1"
| "reading_weight (Answered resp) = 0"

text \<open>The work of a worker, for that many pools.\<close>

fun working_weight :: "nat \<Rightarrow> working \<Rightarrow> nat" where
  "working_weight n Receive = 0"
| "working_weight n (Received path) = 2 * n + 3"
| "working_weight n (BroadcastAt path i) = 2 * (n - i) + 2"
| "working_weight n (PatchAt path i data) = 2 * (n - Suc i) + 3"
| "working_weight n Recheck = 1"
| "working_weight n Stopped = 0"

fun handler_weight :: "thread \<Rightarrow> nat" where
  "handler_weight (Publishing t) = publishing_weight t"
| "handler_weight (Unpublishing t) = unpublishing_weight t"
| "handler_weight (Working t) = 0"
| "handler_weight (Reading t) = reading_weight t"

fun worker_weight :: "nat \<Rightarrow> thread \<Rightarrow> nat" where
  "worker_weight n (Working t) = working_weight n t"
| "worker_weight n th = 0"

definition pool_count :: "World \<Rightarrow> nat" where
  "pool_count w = length (pools (app_Stream (server w)))"

definition handlers_left :: "World \<Rightarrow> nat" where
  "handlers_left w = sum_list (map handler_weight (threads w))"

definition workers_left :: "World \<Rightarrow> nat" where
  "workers_left w =
     length (mem_pending (app_Storage (server w))) * (2 * pool_count w + 4) +
     sum_list (map (worker_weight (pool_count w)) (threads w))"

lemma sum_list_turn:
  fixes f :: "'a \<Rightarrow> nat"
  assumes "i < length xs"
  shows "sum_list (map f (xs[i := y])) + f (xs ! i) = sum_list (map f xs) + f y"
  using assms
proof (induction xs arbitrary: i)
  case (Cons x xs)
  then show ?case by (cases i) auto
qed simp

lemma publish_turn_weight: "publish_turn J now t app = Some (t', app') \<Longrightarrow> publishing_weight t' < publishing_weight t"
  by (cases t) (auto simp: Let_def split: if_splits sum.splits prod.splits outcome.splits)

lemma unpublish_turn_weight: "unpublish_turn t app = Some (t', app') \<Longrightarrow> unpublishing_weight t' < unpublishing_weight t"
  by (cases t) (auto simp: Let_def split: if_splits option.splits outcome.splits)

lemma read_turn_weight: "read_turn J now others t app = Some (t', app') \<Longrightarrow> reading_weight t' < reading_weight t"
  by (cases t) (auto simp: Let_def split: if_splits option.splits sum.splits prod.splits)

lemma worker_turn_weight:
  assumes "worker_turn J now others t app = Some (t', app')" "started (app_Storage app)"
  shows "length (pools (app_Stream app')) = length (pools (app_Stream app)) \<and>
    length (mem_pending (app_Storage app')) * (2 * length (pools (app_Stream app)) + 4) +
      working_weight (length (pools (app_Stream app))) t' <
    length (mem_pending (app_Storage app)) * (2 * length (pools (app_Stream app)) + 4) +
      working_weight (length (pools (app_Stream app))) t"
proof (cases t)
  case Receive
  from assms(2) obtain ch where ch: "watcher (app_Storage app) = Some ch" by (auto simp: started_def)
  with assms(1) Receive obtain ev evs where "ch = ev # evs" by (cases ch) auto
  with assms(1) Receive ch show ?thesis by (auto simp: mem_pending_def)
next
  case (BroadcastAt path i)
  with assms(1) show ?thesis by (auto split: if_splits sum.splits)
next
  case (PatchAt path i data)
  with assms(1) show ?thesis by (simp add: patch_turn del: worker_turn.simps) (auto simp: mem_pending_def)
next
  case Recheck
  with assms show ?thesis by (auto simp: started_def MemoryStorage_Active_def)
qed (use assms(1) in auto)

lemma turn_decreases:
  assumes turn: "take_turn J now i w = Some w'" and st: "started (app_Storage (server w))"
  shows "handlers_left w' < handlers_left w \<or> handlers_left w' = handlers_left w \<and> workers_left w' < workers_left w"
proof -
  obtain th app where i: "i < length (threads w)"
    and t: "thread_turn J now (other_threads i w) (threads w ! i) (server w) = Some (th, app)"
    and w': "w' = \<lparr>server = app, threads = (threads w)[i := th]\<rparr>"
    using turn by (auto simp: take_turn_def split: if_splits option.splits)
  have sum: "sum_list (map f ((threads w)[i := th])) + f (threads w ! i) = sum_list (map f (threads w)) + f th"
    for f :: "thread \<Rightarrow> nat"
    by (rule sum_list_turn [OF i])
  show ?thesis
  proof (cases "\<exists>t. threads w ! i = Working t")
    case True
    then obtain t1 where t1: "threads w ! i = Working t1" by blast
    with t obtain t2 where t2: "th = Working t2" "worker_turn J now (other_threads i w) t1 (server w) = Some (t2, app)"
      by (auto simp del: worker_turn.simps)
    note less = worker_turn_weight [OF t2(2) st]
    have n: "pool_count w' = pool_count w" using less by (simp add: pool_count_def w')
    have "handlers_left w' = handlers_left w" using sum [of handler_weight] by (simp add: handlers_left_def w' t1 t2(1))
    moreover have "workers_left w' < workers_left w"
      using less sum [of "worker_weight (pool_count w)"]
      unfolding workers_left_def n by (simp add: w' t1 t2(1) pool_count_def)
    ultimately show ?thesis by blast
  next
    case False
    then have "handler_weight th < handler_weight (threads w ! i)"
      using t by (cases "threads w ! i")
        (auto dest: publish_turn_weight unpublish_turn_weight read_turn_weight
          simp del: publish_turn.simps unpublish_turn.simps read_turn.simps)
    with sum [of handler_weight] show ?thesis by (simp add: handlers_left_def w')
  qed
qed

section \<open>The storage stays open\<close>

lemma started_frame [simp]:
  "started (db\<lparr>mem := m\<rparr>) \<longleftrightarrow> started db"
  "started (db\<lparr>watcher := Some evs\<rparr>) \<longleftrightarrow> storage db = Some \<lparr>StorageActive = True\<rparr>"
  by (simp_all add: started_def)

lemma started_broadcast_event:
  "broadcast_event path operation db = Returns db' \<Longrightarrow> started db \<Longrightarrow> started db'"
  using broadcast_event_started [of db path operation] by auto

lemma publish_turn_started:
  "publish_turn J now t app = Some (t', app') \<Longrightarrow> started (app_Storage app) \<Longrightarrow> started (app_Storage app')"
  by (cases t) (auto simp: Let_def split: if_splits sum.splits prod.splits outcome.splits intro: started_broadcast_event)

lemma unpublish_turn_started:
  "unpublish_turn t app = Some (t', app') \<Longrightarrow> started (app_Storage app) \<Longrightarrow> started (app_Storage app')"
  by (cases t) (auto simp: Let_def split: if_splits option.splits outcome.splits intro: started_broadcast_event)

lemma worker_turn_started:
  "worker_turn J now others t app = Some (t', app') \<Longrightarrow> started (app_Storage app) \<Longrightarrow> started (app_Storage app')"
  by (cases t) (auto simp: Let_def started_def split: if_splits option.splits list.splits sum.splits prod.splits)

lemma read_turn_started:
  "read_turn J now others t app = Some (t', app') \<Longrightarrow> started (app_Storage app) \<Longrightarrow> started (app_Storage app')"
  by (cases t) (auto simp: Let_def split: if_splits option.splits sum.splits prod.splits)

lemma thread_turn_started:
  assumes "thread_turn J now others th app = Some (th', app')" "started (app_Storage app)"
  shows "started (app_Storage app')"
proof (cases th)
  case (Publishing t)
  with assms(1) obtain t' where "publish_turn J now t app = Some (t', app')" by auto
  then show ?thesis using assms(2) by (rule publish_turn_started)
next
  case (Unpublishing t)
  with assms(1) obtain t' where "unpublish_turn t app = Some (t', app')" by auto
  then show ?thesis using assms(2) by (rule unpublish_turn_started)
next
  case (Working t)
  with assms(1) obtain t' where "worker_turn J now others t app = Some (t', app')" by auto
  then show ?thesis using assms(2) by (rule worker_turn_started)
next
  case (Reading t)
  with assms(1) obtain t' where "read_turn J now others t app = Some (t', app')" by auto
  then show ?thesis using assms(2) by (rule read_turn_started)
qed

lemma take_turn_started:
  "take_turn J now i w = Some w' \<Longrightarrow> started (app_Storage (server w)) \<Longrightarrow> started (app_Storage (server w'))"
  by (auto simp: take_turn_def split: if_splits option.splits intro: thread_turn_started)

lemma run_schedule_started:
  "run_schedule J turns w = Some w' \<Longrightarrow> started (app_Storage (server w)) \<Longrightarrow> started (app_Storage (server w'))"
  by (induction J turns w rule: run_schedule.induct) (auto split: option.splits intro: take_turn_started)

section \<open>Every run of turns ends\<close>

definition turn_order :: "(World \<times> World) set" where
  "turn_order = measures [handlers_left, workers_left]"

lemma turn_in_order:
  "take_turn J now i w = Some w' \<Longrightarrow> started (app_Storage (server w)) \<Longrightarrow> (w', w) \<in> turn_order"
  by (drule (1) turn_decreases) (auto simp: turn_order_def)

lemma turns_end:
  assumes "started (app_Storage (server (run 0)))"
  shows "\<exists>n. \<forall>i now. take_turn J now i (run n) \<noteq> Some (run (Suc n))"
proof (rule ccontr)
  assume "\<nexists>n. \<forall>i now. take_turn J now i (run n) \<noteq> Some (run (Suc n))"
  then have turn: "\<exists>i now. take_turn J now i (run n) = Some (run (Suc n))" for n by blast
  have "started (app_Storage (server (run n)))" for n
    by (induction n) (use assms turn take_turn_started in blast)+
  with turn turn_in_order have "(run (Suc n), run n) \<in> turn_order" for n by metis
  then show False
    using wf_iff_no_infinite_down_chain [of turn_order] by (auto simp: turn_order_def)
qed

text \<open>Whoever is chosen, the turns can be continued until nobody has one.\<close>

lemma turns_to_rest:
  assumes "started (app_Storage (server w))"
  shows "\<exists>turns w'. run_schedule J turns w = Some w' \<and> (\<forall>i now. take_turn J now i w' = None)"
proof -
  have "wf turn_order" by (simp add: turn_order_def)
  then show ?thesis
    using assms
  proof (induction w rule: wf_induct_rule)
    case (less w)
    show ?case
    proof (cases "\<forall>i now. take_turn J now i w = None")
      case True
      then show ?thesis by (intro exI [of _ "[]"]) simp
    next
      case False
      then obtain i now w1 where turn: "take_turn J now i w = Some w1" by (metis not_None_eq)
      from less.IH [OF turn_in_order [OF turn less.prems] take_turn_started [OF turn less.prems]]
      obtain turns w' where "run_schedule J turns w1 = Some w'" "\<forall>i now. take_turn J now i w' = None" by blast
      with turn show ?thesis by (intro exI [of _ "(i, now) # turns"]) auto
    qed
  qed
qed

section \<open>What the locks keep\<close>

abbreviation alone_patching :: "thread list \<Rightarrow> bool" where
  "alone_patching ths \<equiv> (\<forall>j. length (filter (patching j) ths) \<le> 1)"

abbreviation members :: "World \<Rightarrow> (string \<times> Conn list) list" where
  "members w \<equiv> map (\<lambda>p. (PoolKey p, connections p)) (pools (app_Stream (server w)))"

lemma thread_turn_patching:
  assumes "thread_turn J now others th app = Some (th', app')" "patching j th'"
  shows "\<not> list_ex (patching j) others"
proof (cases th)
  case (Working t)
  with assms obtain t' where "worker_turn J now others t app = Some (t', app')" "patching j (Working t')"
    by (auto simp del: worker_turn.simps)
  then show ?thesis
    by (cases t) (auto simp: Let_def split: if_splits option.splits list.splits sum.splits prod.splits)
next
  case (Publishing t)
  with assms show ?thesis by (auto simp del: publish_turn.simps)
next
  case (Unpublishing t)
  with assms show ?thesis by (auto simp del: unpublish_turn.simps)
next
  case (Reading t)
  with assms show ?thesis by (auto simp del: read_turn.simps)
qed

lemma filter_others:
  assumes "i < length (threads w)"
  shows "length (filter P ((threads w)[i := th])) = length (filter P (other_threads i w)) + (if P th then 1 else 0)"
    "length (filter P (threads w)) = length (filter P (other_threads i w)) + (if P (threads w ! i) then 1 else 0)"
proof -
  show "length (filter P ((threads w)[i := th])) = length (filter P (other_threads i w)) + (if P th then 1 else 0)"
    using assms by (simp add: other_threads_def upd_conv_take_nth_drop)
  show "length (filter P (threads w)) = length (filter P (other_threads i w)) + (if P (threads w ! i) then 1 else 0)"
    by (subst id_take_nth_drop [OF assms]) (simp add: other_threads_def)
qed

lemma take_turn_alone:
  assumes turn: "take_turn J now i w = Some w'" and alone: "alone_patching (threads w)"
  shows "alone_patching (threads w')"
proof
  fix j
  obtain th app where i: "i < length (threads w)"
    and t: "thread_turn J now (other_threads i w) (threads w ! i) (server w) = Some (th, app)"
    and w': "w' = \<lparr>server = app, threads = (threads w)[i := th]\<rparr>"
    using turn by (auto simp: take_turn_def split: if_splits option.splits)
  have "patching j th \<Longrightarrow> filter (patching j) (other_threads i w) = []"
    using thread_turn_patching [OF t] by (auto simp: list_ex_iff filter_empty_conv)
  with alone filter_others [OF i, of "patching j"] show "length (filter (patching j) (threads w')) \<le> 1"
    by (cases "patching j th") (auto simp: w' dest: spec [of _ j])
qed

lemma pools_write_message [simp]: "pools (write_message client bytes sm) = pools sm"
  by (simp add: write_message_def Let_def close_conn_def)

lemma pools_run_goroutine [simp]: "pools (app_Stream (run_goroutine g app)) = pools (app_Stream app)"
  by (cases g) (simp_all add: Stream_Write_def WriteClock_def)

lemma short_step_pools:
  assumes "short_step l ths" "list_ex broadcasting ths" "server_step ul J l app app'"
  shows "pools (app_Stream app') = pools (app_Stream app)"
proof -
  have clock: "pools (fold (\<lambda>client. WriteClock client data) conns sm) = pools sm" for data conns sm
    by (rule fold_invariant [where Q = "\<lambda>_. True" and P = "\<lambda>sm'. pools sm' = pools sm"]) (simp_all add: WriteClock_def)
  from assms(3) show ?thesis
    using assms(1,2)
  proof cases
    case (step_tick now)
    then show ?thesis
      by (auto simp: tick_def sendTime_def BroadcastClock_def bind_outcome_eq_Returns clock split: if_splits list.splits)
  next
    case (step_run i)
    then show ?thesis by (auto simp: run_spawned_def split: if_splits)
  next
    case (step_lose client)
    then show ?thesis by (simp add: lose_peer_def)
  qed (use assms(1,2) in \<open>auto simp: list_ex_iff list_all_iff\<close>)
qed

lemma thread_turn_pools:
  assumes turn: "thread_turn J now others th app = Some (th', app')" and held: "list_ex broadcasting (th # others)"
  obtains (same) "pools (app_Stream app') = pools (app_Stream app)"
  | (patch) path i data p where "th = Working (PatchAt path i data)"
      "pools (app_Stream app') = (pools (app_Stream app))[i := p]"
      "PoolKey p = PoolKey (pools (app_Stream app) ! i)" "connections p = connections (pools (app_Stream app) ! i)"
proof (cases th)
  case (Publishing t)
  with turn obtain t' where "publish_turn J now t app = Some (t', app')" by (auto simp del: publish_turn.simps)
  then show ?thesis
    by (intro same, cases t) (auto simp: Let_def split: if_splits sum.splits prod.splits outcome.splits)
next
  case (Unpublishing t)
  with turn obtain t' where "unpublish_turn t app = Some (t', app')" by (auto simp del: unpublish_turn.simps)
  then show ?thesis
    by (intro same, cases t) (auto simp: Let_def split: if_splits option.splits outcome.splits)
next
  case (Reading t)
  with turn obtain t' where r: "read_turn J now others t app = Some (t', app')" by (auto simp del: read_turn.simps)
  have "list_ex broadcasting others" using held Reading by simp
  with r show ?thesis
    by (intro same, cases t) (auto simp: Let_def split: if_splits option.splits sum.splits prod.splits)
next
  case (Working t)
  with turn obtain t' where t: "worker_turn J now others t app = Some (t', app')" by (auto simp del: worker_turn.simps)
  show ?thesis
  proof (cases "\<exists>path i data. t = PatchAt path i data")
    case True
    then obtain path i data where "t = PatchAt path i data" by blast
    with t have "pools (app_Stream app') = (pools (app_Stream app))[i := setCache_pool now data (pools (app_Stream app) ! i)]"
      using Patch_pool_pool [of J "NoPatch (app_Stream app)" "ForcePatch (app_Stream app)" now data "pools (app_Stream app) ! i"]
      by (auto simp: Let_def simp del: Patch_pool_pool split: prod.splits)
    then show ?thesis using Working \<open>t = PatchAt path i data\<close>
      by (intro patch [of path i data "setCache_pool now data (pools (app_Stream app) ! i)"]) (simp_all add: setCache_pool_def)
  next
    case False
    with t show ?thesis
      by (intro same, cases t) (auto simp: Let_def split: if_splits option.splits list.splits sum.splits prod.splits)
  qed
qed

lemma list_ex_turns:
  assumes "i < length (threads w)"
  shows "list_ex P (threads w) \<longleftrightarrow> list_ex P (threads w ! i # other_threads i w)"
  by (subst id_take_nth_drop [OF assms]) (auto simp: other_threads_def)

text \<open>
  While a worker broadcasts, the pools, their keys and their connections stay; and a pool that is locked is changed
  by its patch only.
\<close>

lemma world_step_held:
  assumes step: "world_step ul J l w w'" and held: "list_ex broadcasting (threads w)"
  shows "members w' = members w"
    and "pools (app_Stream (server w')) ! j = pools (app_Stream (server w)) ! j \<or>
      (\<exists>k now. l = Turn k now \<and> k < length (threads w) \<and> patching j (threads w ! k))"
proof -
  have "members w' = members w \<and> (pools (app_Stream (server w')) ! j = pools (app_Stream (server w)) ! j \<or>
      (\<exists>k now. l = Turn k now \<and> k < length (threads w) \<and> patching j (threads w ! k)))"
    using step
  proof cases
    case (world_turn now k)
    then obtain th app where k: "k < length (threads w)"
      and turn: "thread_turn J now (other_threads k w) (threads w ! k) (server w) = Some (th, app)"
      and w': "w' = \<lparr>server = app, threads = (threads w)[k := th]\<rparr>"
      by (auto simp: take_turn_def split: if_splits option.splits)
    have "list_ex broadcasting (threads w ! k # other_threads k w)" using held list_ex_turns [OF k] by blast
    from turn this show ?thesis
    proof (cases rule: thread_turn_pools)
      case same
      then show ?thesis by (simp add: w')
    next
      case (patch path i data p)
      have "map (\<lambda>p. (PoolKey p, connections p)) ((pools (app_Stream (server w)))[i := p]) = members w"
        using patch(3,4) by (cases "i < length (pools (app_Stream (server w)))") (simp_all add: map_update list_update_same_conv list_update_beyond)
      moreover have "j = i \<Longrightarrow> patching j (threads w ! k)" using patch(1) by simp
      ultimately show ?thesis using patch(2) k world_turn(1) by (cases "j = i") (auto simp: w')
    qed
  next
    case (world_arrive th)
    then show ?thesis by simp
  next
    case (world_other l' app)
    then show ?thesis using short_step_pools [OF world_other(2) held world_other(3)] by simp
  qed
  then show "members w' = members w"
    and "pools (app_Stream (server w')) ! j = pools (app_Stream (server w)) ! j \<or>
      (\<exists>k now. l = Turn k now \<and> k < length (threads w) \<and> patching j (threads w ! k))" by blast+
qed

lemma world_step_alone:
  assumes step: "world_step ul J l w w'" and alone: "alone_patching (threads w)"
  shows "alone_patching (threads w')"
  using step
proof cases
  case (world_turn now i)
  then show ?thesis using take_turn_alone [OF _ alone] by simp
next
  case (world_arrive th)
  then have "\<not> patching j th" for j by (cases th rule: arriving.cases) simp_all
  then show ?thesis using alone by (simp add: world_arrive)
next
  case (world_other l' app)
  then show ?thesis using alone by simp
qed

end
