(* ===== verification/ThreadSync.thy ===== *)
theory ThreadSync
  imports ThreadFresh
begin

text \<open>
  A subscriber through the turns of the goroutines: between the turn that reads the data of a pool and the
  turn that patches it others may come in, and the subscriber still has what is in the cache.
\<close>

section \<open>What a turn does to settings and pools\<close>

lemma same_settings_refl [simp]: "same_settings app app"
  by (simp add: same_settings_def)

lemma publish_turn_settings:
  "publish_turn J now t app = Some (t', app') \<Longrightarrow> same_settings app app' \<and> app_Stream app' = app_Stream app"
  by (cases t) (auto simp: Let_def same_settings_def split: if_splits sum.splits prod.splits outcome.splits
      dest: broadcast_event_frame)

lemma unpublish_turn_settings:
  "unpublish_turn t app = Some (t', app') \<Longrightarrow> same_settings app app' \<and> app_Stream app' = app_Stream app"
  by (cases t) (auto simp: Let_def same_settings_def split: if_splits option.splits outcome.splits
      dest: broadcast_event_frame)

lemma worker_turn_settings:
  "worker_turn J now others t app = Some (t', app') \<Longrightarrow> same_settings app app'"
  by (cases t) (auto simp: Let_def same_settings_def split: if_splits option.splits list.splits sum.splits prod.splits)

lemma read_turn_settings:
  "read_turn J now others t app = Some (t', app') \<Longrightarrow> same_settings app app'"
  by (cases t) (auto simp: Let_def same_settings_def split: if_splits option.splits sum.splits prod.splits)

lemma thread_turn_settings:
  assumes "thread_turn J now others th app = Some (th', app')"
  shows "same_settings app app'"
proof (cases th)
  case (Publishing t)
  with assms obtain t' where "publish_turn J now t app = Some (t', app')" by auto
  then show ?thesis by (rule publish_turn_settings [THEN conjunct1])
next
  case (Unpublishing t)
  with assms obtain t' where "unpublish_turn t app = Some (t', app')" by auto
  then show ?thesis by (rule unpublish_turn_settings [THEN conjunct1])
next
  case (Working t)
  with assms obtain t' where "worker_turn J now others t app = Some (t', app')" by auto
  then show ?thesis by (rule worker_turn_settings)
next
  case (Reading t)
  with assms obtain t' where "read_turn J now others t app = Some (t', app')" by auto
  then show ?thesis by (rule read_turn_settings)
qed

section \<open>The subscriber\<close>

text \<open>Nobody is about to fill the cache of the key again, or to send nothing at all.\<close>

fun keeps_document :: "string \<Rightarrow> thread \<Rightarrow> bool" where
  "keeps_document key (Reading (RefreshSet path raw who)) \<longleftrightarrow> path \<noteq> key"
| "keeps_document key (Working (PatchAt path i data)) \<longleftrightarrow> data \<noteq> []"
| "keeps_document key th \<longleftrightarrow> True"

lemma findPool_in_sync:
  assumes ok: "stream_ok sm" and sync: "in_sync J same_json i c start sm"
  shows "findPool sm key = int i \<longleftrightarrow> key = PoolKey (pools sm ! i)"
proof
  assume "findPool sm key = int i"
  then show "key = PoolKey (pools sm ! i)"
    by (cases rule: findPool_cases [of sm key]) auto
next
  assume "key = PoolKey (pools sm ! i)"
  then show "findPool sm key = int i"
    using findPool_from_index [of "pools sm" i] ok sync by (simp add: stream_ok_def in_sync_def findPool_def)
qed

lemma in_sync_version:
  assumes "stream_ok sm" "in_sync J same_json i c start sm"
  shows "GetCacheVersion (PoolKey (pools sm ! i)) sm = Inr (Version (cache (pools sm ! i)))"
  using findPool_in_sync [OF assms, of "PoolKey (pools sm ! i)"] assms(2)
  by (simp add: GetCacheVersion_def in_sync_def)

lemma pool_key_turn:
  assumes turn: "thread_turn J now others th app = Some (th', app')" and ok: "stream_ok (app_Stream app)"
    and th: "thread_ok app th" and j: "j < length (pools (app_Stream app))"
  shows "pool_key app' j = pool_key app j"
proof (cases th)
  case (Publishing t)
  then show ?thesis using turn by (auto dest: publish_turn_settings simp del: publish_turn.simps)
next
  case (Unpublishing t)
  then show ?thesis using turn by (auto dest: unpublish_turn_settings simp del: unpublish_turn.simps)
next
  case (Working t)
  show ?thesis
  proof (cases "\<exists>path i data. t = PatchAt path i data")
    case True
    then obtain path i data where t: "t = PatchAt path i data" by blast
    then have i: "i < length (pools (app_Stream app))" using th Working by simp
    have "app_Stream app' = broadcast_pool J (\<lambda>i. now) (patch_opt J data) (pool_key app i) i (app_Stream app)"
      using turn by (auto simp: Working t patch_turn simp del: worker_turn.simps)
    moreover obtain n where "broadcast_pool J (\<lambda>i. now) (patch_opt J data) (pool_key app i) i (app_Stream app) =
        (app_Stream app)\<lparr>pools := (pools (app_Stream app))[i := pool_after now (patch_opt J data) (pool_key app i) (pools (app_Stream app) ! i)],
          sockets := (\<lambda>c. if c \<in> set (connections (pools (app_Stream app) ! i))
            then deliver_option (pool_frame J (NoPatch (app_Stream app)) (ForcePatch (app_Stream app)) now (patch_opt J data) (pool_key app i) (pools (app_Stream app) ! i)) (sockets (app_Stream app) c)
            else sockets (app_Stream app) c), callbacks := n\<rparr>"
      using broadcast_pool_effect [OF stream_ok_connections_distinct [OF ok i], of J "\<lambda>i. now"] by blast
    ultimately show ?thesis using i by (cases "j = i") simp_all
  next
    case False
    with turn Working show ?thesis
      by (cases t) (auto split: if_splits option.splits list.splits sum.splits)
  qed
next
  case (Reading t)
  show ?thesis
  proof (cases t)
    case (WsNew r)
    have "app_Stream app' = snd (Stream_New (req_key r) (req_upgrade r) (app_Stream app))"
      using turn by (auto simp: Reading WsNew split: if_splits prod.splits sum.splits)
    with New.pool_key_stable [OF ok j] show ?thesis by simp
  next
    case (RefreshSet path raw who)
    have "app_Stream app' = snd (Stream_setCache now path raw (app_Stream app))"
      using turn by (auto simp: Reading RefreshSet split: if_splits prod.splits)
    with setCache.pool_key_stable [OF ok j] show ?thesis by simp
  qed (use turn Reading in \<open>auto simp: Let_def split: if_splits option.splits sum.splits prod.splits\<close>)
qed

lemma turn_in_sync:
  assumes laws: "wire_laws J same_json" and ok: "stream_ok (app_Stream app)" and th: "thread_ok app th"
    and solid: "solid_filters app" and sync: "in_sync J same_json i c start (app_Stream app)"
    and keeps: "keeps_document (pool_key app i) th"
    and turn: "thread_turn J now others th app = Some (th', app')"
  shows "in_sync J same_json i c start (app_Stream app') \<and> keeps_document (pool_key app i) th'"
proof (cases th)
  case (Publishing t)
  then show ?thesis using turn sync by (auto dest: publish_turn_settings simp del: publish_turn.simps)
next
  case (Unpublishing t)
  then show ?thesis using turn sync by (auto dest: unpublish_turn_settings simp del: unpublish_turn.simps)
next
  case (Working t)
  show ?thesis
  proof (cases t)
    case (PatchAt path j data)
    then have j: "j < length (pools (app_Stream app))" "data \<noteq> []" using th keeps Working by simp_all
    have "app_Stream app' = broadcast_pool J (\<lambda>i. now) (patch_opt J data) (pool_key app j) j (app_Stream app)"
      "th' = Working (BroadcastAt path (Suc j))"
      using turn by (auto simp: Working PatchAt patch_turn simp del: worker_turn.simps)
    with in_sync_broadcast_pool [OF laws ok sync _ _ j(1), of "patch_opt J data"] j(2) show ?thesis
      by (simp add: patch_opt_def)
  next
    case (BroadcastAt path j)
    with turn Working sync solid_data [OF solid, of J "pool_key app j"] show ?thesis
      by (auto split: if_splits sum.splits)
  qed (use turn Working sync in \<open>auto split: if_splits option.splits list.splits\<close>)
next
  case (Reading t)
  show ?thesis
  proof (cases t)
    case (WsNew r)
    have "app_Stream app' = snd (Stream_New (req_key r) (req_upgrade r) (app_Stream app))" "keeps_document (pool_key app i) th'"
      using turn by (auto simp: Reading WsNew split: if_splits prod.splits sum.splits)
    then show ?thesis using in_sync_new [OF ok sync] sync by (auto simp: snd_Stream_New)
  next
    case (RefreshVersion path raw who)
    have "app' = app" using turn by (auto simp: Reading RefreshVersion split: if_splits sum.splits)
    moreover have "keeps_document (pool_key app i) th'"
      using turn in_sync_version [OF ok sync] by (auto simp: Reading RefreshVersion split: if_splits sum.splits)
    ultimately show ?thesis using sync by simp
  next
    case (RefreshSet path raw who)
    have "app_Stream app' = snd (Stream_setCache now path raw (app_Stream app))" "keeps_document (pool_key app i) th'"
      using turn by (auto simp: Reading RefreshSet split: if_splits prod.splits)
    moreover have "findPool (app_Stream app) path \<noteq> int i"
      using keeps findPool_in_sync [OF ok sync] by (simp add: Reading RefreshSet)
    ultimately show ?thesis using in_sync_setCache [OF sync] by simp
  qed (use turn Reading sync in \<open>auto simp: Let_def split: if_splits option.splits sum.splits prod.splits\<close>)
qed

section \<open>A world and its subscriber\<close>

definition world_following ::
  "('p, 'c) wire_scheme \<Rightarrow> (string \<Rightarrow> string \<Rightarrow> bool) \<Rightarrow> nat \<Rightarrow> Conn \<Rightarrow> string \<Rightarrow> string \<Rightarrow> World \<Rightarrow> bool"
where
  "world_following J same_json i c start key w \<longleftrightarrow>
     threads_fresh J (server w) (set (threads w)) \<and> solid_filters (server w) \<and> quiet (app_Storage (server w)) key \<and>
     in_sync J same_json i c start (app_Stream (server w)) \<and> pool_key (server w) i = key \<and>
     (\<forall>th \<in> set (threads w). keeps_document key th)"

fun world_spares :: "Conn \<Rightarrow> world_label \<Rightarrow> World \<Rightarrow> bool" where
  "world_spares c (Other l) w \<longleftrightarrow> spares_step c l (server w)"
| "world_spares c l w \<longleftrightarrow> True"

definition world_undisturbed :: "('p, 'c) wire_scheme \<Rightarrow> Conn \<Rightarrow> world_label \<Rightarrow> World \<Rightarrow> bool" where
  "world_undisturbed J c l w \<longleftrightarrow> calm J l w \<and> world_spares c l w"

lemma world_step_following:
  assumes step: "world_step ul J l w w'" and env: "world_undisturbed J c l w"
    and laws: "wire_laws J same_json" and here: "world_following J same_json i c start key w"
  shows "world_following J same_json i c start key w'"
proof -
  have fresh: "threads_fresh J (server w) (set (threads w))" and solid: "solid_filters (server w)"
    and q: "quiet (app_Storage (server w)) key" and sync: "in_sync J same_json i c start (app_Stream (server w))"
    and key: "pool_key (server w) i = key" and keeps: "\<forall>th \<in> set (threads w). keeps_document key th"
    using here by (auto simp: world_following_def)
  have calm: "calm J l w" using env by (simp add: world_undisturbed_def)
  have up: "server_up J (server w)" and ok: "stream_ok (app_Stream (server w))"
    using fresh by (auto simp: threads_fresh_def server_up_def)
  have ip: "i < length (pools (app_Stream (server w)))" using sync by (simp add: in_sync_def)
  note fresh' = world_step_fresh [OF fresh calm step]
  show ?thesis
    using step
  proof cases
    case (world_turn now k)
    then obtain th app where k: "k < length (threads w)"
      and turn: "thread_turn J now (other_threads k w) (threads w ! k) (server w) = Some (th, app)"
      and w': "w' = \<lparr>server = app, threads = (threads w)[k := th]\<rparr>"
      by (auto simp: take_turn_def split: if_splits option.splits)
    have old: "thread_ok (server w) (threads w ! k)" "keeps_document key (threads w ! k)"
      using threads_fresh_ok [OF fresh nth_mem [OF k]] keeps nth_mem [OF k] by auto
    have settings: "same_settings (server w) app" by (rule thread_turn_settings [OF turn])
    have "in_sync J same_json i c start (app_Stream app)" "keeps_document key th"
      using turn_in_sync [OF laws ok old(1) solid sync _ turn] old(2) key by auto
    moreover have "pool_key app i = key" using pool_key_turn [OF turn ok old(1) ip] key by simp
    moreover have "\<forall>th' \<in> set ((threads w)[k := th]). keeps_document key th'"
      using keeps calculation(2) set_update_subset_insert [of "threads w" k th] by blast
    ultimately show ?thesis
      using fresh' solid q solid_cong [OF settings] quiet_cong [OF settings] by (simp add: world_following_def w')
  next
    case (world_arrive th)
    then have "keeps_document key th" by (cases th rule: arriving.cases) simp_all
    with here fresh' show ?thesis by (simp add: world_following_def world_arrive(3))
  next
    case (world_other l' app)
    have b: "benign J l' (server w)" using world_other(2) by (cases l') simp_all
    have s: "spares_step c l' (server w)" using env by (simp add: world_undisturbed_def world_other(1))
    have settings: "same_settings (server w) app" using step_storage [OF world_other(3) up b] by simp
    from step_sync [OF world_other(3) up laws solid s sync] step_pool_key [OF world_other(3) up ip]
    show ?thesis
      using fresh' solid q key keeps solid_cong [OF settings] quiet_cong [OF settings]
      by (simp add: world_following_def world_other(4))
  qed
qed

lemma world_reaches_following:
  assumes "world_reaches ul J (world_undisturbed J c) w w'" "wire_laws J same_json"
    and "world_following J same_json i c start key w"
  shows "world_following J same_json i c start key w'"
  by (rule world_invariant [OF assms(1), where I = "world_following J same_json i c start key"])
    (use assms(2,3) world_step_following in blast)+

text \<open>A subscriber of a server at rest, as in \<open>Convergence\<close>.\<close>

lemma resting_following:
  assumes "list_all resting (threads w)"
  shows "world_following J same_json i c start key w \<longleftrightarrow> following J same_json i c start key (server w)"
proof -
  have "keeps_document key th" if "th \<in> set (threads w)" for th
  proof -
    have "resting th" using assms that by (simp add: list_all_iff)
    then show ?thesis by (cases th rule: resting.cases) simp_all
  qed
  then show ?thesis
    by (auto simp: world_following_def following_def resting_fresh [OF assms])
qed

end
