(* ===== verification/ThreadProperties.thy ===== *)
theory ThreadProperties
  imports ThreadProgress ThreadSync ServerProperties
begin

text \<open>
  The properties of the goroutines of \<open>Threads\<close>: they do what the handlers do, they come to rest, the caches
  they leave are current and subscribers follow them; and the race of \<^verbatim>\<open>Refresh\<close> with a write.
\<close>

section \<open>Concrete worlds\<close>

text \<open>The example server with a request to publish, one to read and a worker.\<close>

definition example_world :: World where
  "example_world = \<lparr>server = example_server,
     threads = [Reading (ReadStart example_publish), Publishing (PublishStart example_publish), Working Receive]\<rparr>"

lemma example_world_server [simp]: "server example_world = example_server"
  by (simp add: example_world_def)

lemma example_world_others [simp]:
  "length (threads example_world) = 3" "threads example_world ! 0 = Reading (ReadStart example_publish)"
  "threads example_world ! Suc 0 = Publishing (PublishStart example_publish)"
  "threads example_world ! 2 = Working Receive"
  "other_threads (Suc 0) example_world = [Reading (ReadStart example_publish), Working Receive]"
  by (simp_all add: example_world_def other_threads_def)


lemma run_schedule_append:
  "run_schedule J (ts @ us) w = (case run_schedule J ts w of None \<Rightarrow> None | Some w' \<Rightarrow> run_schedule J us w')"
  by (induction ts arbitrary: w) (auto split: option.split)

section \<open>Handlers\<close>



section \<open>Rest\<close>




section \<open>Caches\<close>

text \<open>
  C8: interleaved goroutines leave current caches. From a server at rest, after any calm interleaving of the
  turns of its goroutines, of new requests and of the other steps, that has come to rest with no event waiting, the
  cache of every pool of a key that is not muted is empty or has the current data of its key.
\<close>

theorem interleaved_caches_current:
  fixes J :: "('p, 'c) wire_scheme"
  assumes start: "server_up J (server w)" "fresh J (server w)" "list_all resting (threads w)"
    and run: "world_reaches ul J (calm J) w w'"
    and rest: "list_all resting (threads w')" "mem_pending (app_Storage (server w')) = []"
  shows "server_up J (server w') \<and>
    (\<forall>i raw. 0 < i \<and> i < length (pools (app_Stream (server w'))) \<and>
       quiet (app_Storage (server w')) (PoolKey (pools (app_Stream (server w')) ! i)) \<and>
       getFilteredData J (server w') (PoolKey (pools (app_Stream (server w')) ! i)) = Inr raw \<longrightarrow>
       CacheData (cache (pools (app_Stream (server w')) ! i)) \<in> {[], if raw = [] then EmptyObject else raw})"
proof -
  have "threads_fresh J (server w) (set (threads w))" using start by (simp add: resting_fresh)
  from world_reaches_fresh [OF run this] rest(1) have after: "server_up J (server w')" "fresh J (server w')"
    by (simp_all add: resting_fresh)
  have "CacheData (cache p) \<in> {[], if raw = [] then EmptyObject else raw}"
    if p: "p \<in> set (tl (pools (app_Stream (server w'))))" "quiet (app_Storage (server w')) (PoolKey p)"
      "getFilteredData J (server w') (PoolKey p) = Inr raw" for p raw
  proof -
    have "(PoolKey p, cache p) \<in> set (entries (app_Stream (server w')))" using p(1) by (simp add: entries_def map_tl [symmetric])
    with after(2) rest(2) p(2) have "current J (server w') (PoolKey p) (cache p)" unfolding fresh_def by fastforce
    then show ?thesis using p(3) by (auto simp: current_def document_of_def)
  qed
  moreover have "pools (app_Stream (server w')) ! i \<in> set (tl (pools (app_Stream (server w'))))"
    if "0 < i" "i < length (pools (app_Stream (server w')))" for i
    using that by (cases "pools (app_Stream (server w'))"; cases i) auto
  ultimately show ?thesis using after(1) by blast
qed

text \<open>Turns of a read are calm.\<close>

lemma reading_turn:
  assumes "threads w ! i = Reading t" "take_turn J now i w = Some w'"
  shows "\<exists>t'. threads w' ! i = Reading t'" "world_reaches ul J (calm J) w w'"
proof -
  show "\<exists>t'. threads w' ! i = Reading t'"
    using assms by (auto simp: take_turn_def simp del: read_turn.simps split: if_splits option.splits)
  have "calm J (Turn i now) w" using assms(1) by simp
  then show "world_reaches ul J (calm J) w w'" by (rule world_more [OF world_refl]) (rule world_turn [OF assms(2)])
qed

lemma world_reaches_trans:
  assumes "world_reaches ul J env w2 w3" "world_reaches ul J env w1 w2"
  shows "world_reaches ul J env w1 w3"
  using assms by (induction rule: world_reaches.induct) (auto intro: world_more)

lemma reading_schedule:
  assumes "threads w ! i = Reading t" "run_schedule J (map (Pair i) nows) w = Some w'"
  shows "world_reaches ul J (calm J) w w'"
  using assms
proof (induction nows arbitrary: w t)
  case (Cons now nows)
  then obtain w1 where turn: "take_turn J now i w = Some w1" "run_schedule J (map (Pair i) nows) w1 = Some w'"
    by (auto split: option.splits)
  from reading_turn [OF Cons.prems(1) turn(1)] Cons.IH [OF _ turn(2)] show ?case
    by (blast intro: world_reaches_trans)
qed (simp add: world_refl)

text \<open>A read of the example key by a server that waits: it leaves a pool with a cache.\<close>

definition resting_world :: World where
  "resting_world = \<lparr>server = example_server, threads = [Working Receive]\<rparr>"

lemma example_read:
  "\<exists>resp app. read ref_wire 3 example_publish example_server = (resp, app) \<and>
    app_Storage app = fresh_storage \<and> app_filters app = app_filters example_server \<and> \<not> app_Static app \<and>
    pools (app_Stream app) = [\<lparr>PoolKey = '''', cache = zero_Cache, connections = []\<rparr>,
      \<lparr>PoolKey = ''box'', cache = \<lparr>Version = 3, CacheData = EmptyObject\<rparr>, connections = []\<rparr>]"
proof -
  have "getFilteredData ref_wire example_server ''box'' = Inr (raw_data ref_wire (app_Storage example_server) ''box'')"
    by (intro unfiltered_data) (simp add: unfiltered_def example_server_value)
  moreover have "raw_data ref_wire (app_Storage example_server) ''box'' = EmptyObject"
    by (simp add: raw_data_def example_server_value MemoryStorage_Get_def)
  moreover have "length EmptyObject \<noteq> 0" by (simp add: EmptyObject_def)
  ultimately show ?thesis
    using example_publish_guards
    by (simp add: read_def Let_def router_checkStatic_iff fetch_def Refresh_def GetCacheVersion_def findPool_def
        Stream_setCache_def example_server_value)
qed

theorem interleaved_caches_current_witness:
  "\<exists>w. world_reaches id ref_wire (calm ref_wire) resting_world w \<and> length (threads w) = 2 \<and>
    list_all resting (threads w) \<and> PoolKey (pools (app_Stream (server w)) ! 1) = ''box'' \<and>
    CacheData (cache (pools (app_Stream (server w)) ! 1)) \<in> {[], EmptyObject}"
proof -
  obtain resp app where rd: "read ref_wire 3 example_publish example_server = (resp, app)"
      and app: "app_Storage app = fresh_storage" "app_filters app = app_filters example_server" "\<not> app_Static app"
        "pools (app_Stream app) = [\<lparr>PoolKey = '''', cache = zero_Cache, connections = []\<rparr>,
          \<lparr>PoolKey = ''box'', cache = \<lparr>Version = 3, CacheData = EmptyObject\<rparr>, connections = []\<rparr>]"
    using example_read by blast
  let ?w = "\<lparr>server = example_server, threads = [Working Receive, Reading (ReadStart example_publish)]\<rparr>"
  let ?w' = "\<lparr>server = app, threads = [Working Receive, Reading (Answered resp)]\<rparr>"
  have "world_step id ref_wire (Arrive (Reading (ReadStart example_publish))) resting_world ?w"
    by (simp add: world_step_simps resting_world_def)
  from world_more [OF world_refl _ this] have arrive: "world_reaches id ref_wire (calm ref_wire) resting_world ?w"
    by simp
  have alone: "\<not> list_ex broadcasting (other_threads 1 ?w)" by (simp add: other_threads_def)
  obtain nows where "run_schedule ref_wire (map (Pair 1) nows) ?w = Some ?w'"
    using read_solo [OF alone rd] solo_schedule [of 1 ?w ref_wire] by auto
  from world_reaches_trans [OF reading_schedule [OF _ this] arrive]
  have run: "world_reaches id ref_wire (calm ref_wire) resting_world ?w'" by simp
  have data: "getFilteredData ref_wire app ''box'' = Inr EmptyObject"
    using unfiltered_data(1) [where J = ref_wire and app = app and key = "''box''"] app(1-3)
    by (simp add: unfiltered_def example_server_value raw_data_def MemoryStorage_Get_def)
  have "server_up ref_wire (server resting_world)" "fresh ref_wire (server resting_world)"
    "list_all resting (threads resting_world)"
    using example_server_up example_server_fresh by (simp_all add: resting_world_def)
  from interleaved_caches_current [OF this run, THEN conjunct2, rule_format, of 1] app data
  show ?thesis using run by (intro exI [of _ ?w']) (simp add: mem_pending_def quiet_def)
qed

section \<open>The race of a refresh with a write\<close>

text \<open>
  C35: a refresh can put old data over new. There is a schedule of a read, a publish and a worker, on a server
  that has just started, after which all of them are at rest and no event is waiting, but the cache of the pool the read
  has made holds the empty object while the server holds the published document: the read takes its data, the
  publish is stored and broadcast to nobody, and then the read fills the cache.
\<close>

theorem refresh_overwrites_news:
  "\<exists>turns w raw. run_schedule ref_wire turns example_world = Some w \<and> list_all resting (threads w) \<and>
    mem_pending (app_Storage (server w)) = [] \<and> PoolKey (pools (app_Stream (server w)) ! 1) = ''box'' \<and>
    CacheData (cache (pools (app_Stream (server w)) ! 1)) = EmptyObject \<and>
    getFilteredData ref_wire (server w) ''box'' = Inr raw \<and> raw \<noteq> EmptyObject"
proof -
  let ?pub = "Publishing (PublishStart example_publish)"
  let ?set = "Reading (RefreshSet ''box'' EmptyObject None)"
  let ?w1 = "\<lparr>server = example_server, threads = [?set, ?pub, Working Receive]\<rparr>"
  have "getFilteredData ref_wire example_server ''box'' = Inr (raw_data ref_wire (app_Storage example_server) ''box'')"
    by (intro unfiltered_data) (simp add: unfiltered_def example_server_value)
  then have data0: "getFilteredData ref_wire example_server ''box'' = Inr EmptyObject"
    by (simp add: raw_data_def example_server_value MemoryStorage_Get_def)
  have "length EmptyObject \<noteq> 0" by (simp add: EmptyObject_def)
  then have r1: "run_schedule ref_wire [(0, 3), (0, 3), (0, 3)] example_world = Some ?w1"
    using data0 example_publish_guards
    by (simp add: take_turn_def example_world_def other_threads_def router_checkStatic_iff locked_pool_def
        GetCacheVersion_def findPool_def example_server_value)
  obtain resp db obj where pub: "publish ref_wire 5 7 example_publish example_server = Returns (resp, example_server\<lparr>app_Storage := db\<rparr>)"
      and db: "storage_ready ref_wire db" "mem_pending db = [\<lparr>EvKey = ''box'', EvOperation = ''set''\<rparr>]"
        "MemoryStorage_Get ref_wire db ''box'' = Inr (object_text obj @ [newline])"
    using example_stored by blast
  let ?app2 = "example_server\<lparr>app_Storage := db\<rparr>"
  let ?w2 = "\<lparr>server = ?app2, threads = [?set, Publishing (Published resp), Working Receive]\<rparr>"
  obtain n2 where r2: "run_schedule ref_wire (map (Pair 1) n2) ?w1 = Some ?w2"
    using publish_solo [OF pub, of "other_threads 1 ?w1"] solo_schedule [of 1 ?w1 ref_wire] by auto
  obtain ch where ch: "watcher db = Some ch" using db(1) by (auto simp: storage_ready_def started_def)
  then have w: "watcher db = Some [\<lparr>EvKey = ''box'', EvOperation = ''set''\<rparr>]" using db(2) by (simp add: mem_pending_def)
  have act: "MemoryStorage_Active (db\<lparr>watcher := Some []\<rparr>) = Returns True"
    using db(1) by (simp add: storage_ready_def started_def MemoryStorage_Active_def)
  let ?db3 = "db\<lparr>watcher := Some []\<rparr>"
  let ?w3 = "\<lparr>server = example_server\<lparr>app_Storage := ?db3\<rparr>, threads = [?set, Publishing (Published resp), Working Receive]\<rparr>"
  have r3: "run_schedule ref_wire [(2, 0), (2, 0), (2, 0), (2, 0)] ?w2 = Some ?w3"
    by (simp add: take_turn_def w act example_server_value)
  let ?sm = "snd (Stream_setCache 9 ''box'' EmptyObject (app_Stream example_server))"
  let ?w4 = "\<lparr>server = example_server\<lparr>app_Storage := ?db3, app_Stream := ?sm\<rparr>,
    threads = [Reading (Answered (Reply StatusNotFound None ''katamari: empty key'')), Publishing (Published resp), Working Receive]\<rparr>"
  have r4: "run_schedule ref_wire [(0, 9), (0, 9)] ?w3 = Some ?w4"
    by (simp add: take_turn_def other_threads_def split: prod.split)
  have pool: "pools ?sm = [\<lparr>PoolKey = '''', cache = zero_Cache, connections = []\<rparr>,
      \<lparr>PoolKey = ''box'', cache = \<lparr>Version = 9, CacheData = EmptyObject\<rparr>, connections = []\<rparr>]"
    by (simp add: Stream_setCache_def findPool_def example_server_value)
  have raw: "getFilteredData ref_wire (server ?w4) ''box'' = Inr (object_text obj @ [newline])"
    using unfiltered_data(1) [where J = ref_wire and app = "server ?w4" and key = "''box''"] db(3)
    by (simp add: unfiltered_def example_server_value raw_data_def MemoryStorage_Get_def)
  have "run_schedule ref_wire ([(0, 3), (0, 3), (0, 3)] @ map (Pair 1) n2 @ [(2, 0), (2, 0), (2, 0), (2, 0)] @ [(0, 9), (0, 9)])
      example_world = Some ?w4"
    by (simp only: run_schedule_append r1 r2 r3 r4 option.case)
  moreover have "list_all resting (threads ?w4)" "mem_pending (app_Storage (server ?w4)) = []"
    by (simp_all add: mem_pending_def)
  moreover have "PoolKey (pools (app_Stream (server ?w4)) ! 1) = ''box''"
    "CacheData (cache (pools (app_Stream (server ?w4)) ! 1)) = EmptyObject" by (simp_all add: pool)
  moreover have "object_text obj @ [newline] \<noteq> EmptyObject" by (simp add: object_text_def EmptyObject_def)
  ultimately show ?thesis using raw by blast
qed

section \<open>Subscribers\<close>










section \<open>Locks\<close>

text \<open>
  C19: a broadcast holds what it works on. In any interleaving from a server at rest no two workers hold the
  lock of a pool at a time; while a worker broadcasts, no step of anybody adds or removes a pool or a connection;
  and a pool whose data a worker has read and not sent yet is changed by the turn of that worker only.
\<close>

theorem broadcast_holds_pools:
  fixes J :: "('p, 'c) wire_scheme"
  assumes rest: "list_all resting (threads w)" and run: "world_reaches ul J (\<lambda>l w. True) w w1"
  shows "(\<forall>j. length (filter (patching j) (threads w1)) \<le> 1) \<and>
    (list_ex broadcasting (threads w1) \<longrightarrow>
      (\<forall>l w2. world_step ul J l w1 w2 \<longrightarrow>
        map (\<lambda>p. (PoolKey p, connections p)) (pools (app_Stream (server w2))) =
          map (\<lambda>p. (PoolKey p, connections p)) (pools (app_Stream (server w1))) \<and>
        (\<forall>j. list_ex (patching j) (threads w1) \<longrightarrow>
          pools (app_Stream (server w2)) ! j = pools (app_Stream (server w1)) ! j \<or>
          (\<exists>k now. l = Turn k now \<and> k < length (threads w1) \<and> patching j (threads w1 ! k) \<and>
            (\<forall>k' < length (threads w1). patching j (threads w1 ! k') \<longrightarrow> k' = k)))))"
proof -
  have "filter (patching j) (threads w) = []" for j
    using rest resting_idle(2) by (auto simp: filter_empty_conv list_all_iff)
  then have "alone_patching (threads w)" by simp
  then have alone: "alone_patching (threads w1)"
    by (rule world_invariant [OF run]) (rule world_step_alone)
  have unique: "k' = k" if "k < length (threads w1)" "k' < length (threads w1)"
    "patching j (threads w1 ! k)" "patching j (threads w1 ! k')" for j k k'
  proof (rule ccontr)
    assume "k' \<noteq> k"
    then have "{k, k'} \<subseteq> {i. i < length (threads w1) \<and> patching j (threads w1 ! i)}" "card {k, k'} = 2"
      using that by auto
    then have "2 \<le> card {i. i < length (threads w1) \<and> patching j (threads w1 ! i)}"
      using card_mono [of "{i. i < length (threads w1) \<and> patching j (threads w1 ! i)}" "{k, k'}"] by simp
    moreover have "card {i. i < length (threads w1) \<and> patching j (threads w1 ! i)} \<le> 1"
      using alone by (simp add: length_filter_conv_card)
    ultimately show False by simp
  qed
  show ?thesis
  proof (intro conjI allI impI)
    show "length (filter (patching j) (threads w1)) \<le> 1" for j using alone by blast
  next
    fix l w2
    assume held: "list_ex broadcasting (threads w1)" and step: "world_step ul J l w1 w2"
    show "members w2 = members w1" by (rule world_step_held(1) [OF step held])
    fix j
    from world_step_held(2) [OF step held, of j] unique
    show "pools (app_Stream (server w2)) ! j = pools (app_Stream (server w1)) ! j \<or>
        (\<exists>k now. l = Turn k now \<and> k < length (threads w1) \<and> patching j (threads w1 ! k) \<and>
          (\<forall>k' < length (threads w1). patching j (threads w1 ! k') \<longrightarrow> k' = k))"
      by blast
  qed
qed

lemma schedule_reaches:
  "run_schedule J turns w = Some w' \<Longrightarrow> world_reaches ul J (\<lambda>l w. True) w w'"
proof (induction J turns w rule: run_schedule.induct)
  case (2 J i now turns w)
  then obtain w1 where turn: "take_turn J now i w = Some w1" "run_schedule J turns w1 = Some w'"
    by (auto split: option.splits)
  have "world_reaches ul J (\<lambda>l w. True) w w1"
    by (rule world_more [OF world_refl]) (simp, rule world_turn [OF turn(1)])
  with 2(1) [OF turn] show ?case by (rule world_reaches_trans)
qed (simp add: world_refl)

text \<open>A worker that has read the data of a pool and not patched it yet.\<close>

theorem broadcast_holds_pools_witness:
  "\<exists>w app. threads w = [Working (PatchAt ''box'' 1 app), Working Receive] \<and>
    (\<forall>l w2. world_step id ref_wire l w w2 \<longrightarrow>
      map PoolKey (pools (app_Stream (server w2))) = ['''', ''box''] \<and>
      (pools (app_Stream (server w2)) ! 1 = pools (app_Stream (server w)) ! 1 \<or> (\<exists>now. l = Turn 0 now)))"
proof -
  let ?sm = "snd (Stream_setCache 9 ''box'' EmptyObject (app_Stream example_server))"
  let ?db = "\<lambda>evs. fresh_storage\<lparr>watcher := Some evs\<rparr>"
  let ?app = "\<lambda>evs. example_server\<lparr>app_Storage := ?db evs, app_Stream := ?sm\<rparr>"
  let ?v = "\<lparr>server = ?app [\<lparr>EvKey = ''box'', EvOperation = ''set''\<rparr>], threads = [Working Receive, Working Receive]\<rparr>"
  let ?at = "\<lambda>t. \<lparr>server = ?app [], threads = [Working t, Working Receive]\<rparr>"
  have pools: "pools ?sm = [\<lparr>PoolKey = '''', cache = zero_Cache, connections = []\<rparr>,
      \<lparr>PoolKey = ''box'', cache = \<lparr>Version = 9, CacheData = EmptyObject\<rparr>, connections = []\<rparr>]"
    by (simp add: Stream_setCache_def findPool_def example_server_value)
  have peer: "Peer ''box'' ''box''" by code_simp
  define raw where "raw = raw_data ref_wire (?db []) ''box''"
  have data: "getFilteredData ref_wire (?app []) ''box'' = Inr raw"
    unfolding raw_def using unfiltered_data(1) [where J = ref_wire and app = "?app []" and key = "''box''"]
    by (simp add: unfiltered_def example_server_value)
  have "take_turn ref_wire 0 0 ?v = Some (?at (Received ''box''))"
    "take_turn ref_wire 0 0 (?at (Received ''box'')) = Some (?at (BroadcastAt ''box'' 1))"
    "take_turn ref_wire 0 0 (?at (BroadcastAt ''box'' 1)) = Some (?at (PatchAt ''box'' 1 raw))"
    using data pools peer by (simp_all add: take_turn_def other_threads_def)
  then have "run_schedule ref_wire [(0, 0), (0, 0), (0, 0)] ?v = Some (?at (PatchAt ''box'' 1 raw))"
    by (simp only: run_schedule.simps option.case)
  then have run: "world_reaches id ref_wire (\<lambda>l w. True) ?v (?at (PatchAt ''box'' 1 raw))"
    by (rule schedule_reaches)
  have rest: "list_all resting (threads ?v)" by simp
  note held = broadcast_holds_pools [OF rest run, THEN conjunct2, rule_format]
  show ?thesis
  proof (intro exI conjI allI impI)
    fix l w2
    assume step: "world_step id ref_wire l (?at (PatchAt ''box'' 1 raw)) w2"
    have "list_ex broadcasting (threads (?at (PatchAt ''box'' 1 raw)))" by simp
    note kept = held [OF this step]
    from kept [THEN conjunct1]
    have "map (\<lambda>p. (PoolKey p, connections p)) (pools (app_Stream (server w2))) = [('''', []), (''box'', [])]"
      by (simp add: pools)
    from arg_cong [OF this, of "map fst"] show "map PoolKey (pools (app_Stream (server w2))) = ['''', ''box'']"
      by (simp add: comp_def)
    have "list_ex (patching 1) (threads (?at (PatchAt ''box'' 1 raw)))" by simp
    from kept [THEN conjunct2, rule_format, OF this]
    show "pools (app_Stream (server w2)) ! 1 = pools (app_Stream (server (?at (PatchAt ''box'' 1 raw)))) ! 1 \<or> (\<exists>now. l = Turn 0 now)"
    proof (elim disjE exE conjE)
      fix k now
      assume k: "l = Turn k now" "k < length (threads (?at (PatchAt ''box'' 1 raw)))"
        "patching 1 (threads (?at (PatchAt ''box'' 1 raw)) ! k)"
      from k(2,3) have "k = 0" by (cases k) simp_all
      with k(1) show ?thesis by simp
    qed (rule disjI1)
  qed simp
qed

end
