(* ===== verification/StoredTypes.thy ===== *)
theory StoredTypes
  imports ServerProperties
begin

text \<open>
  What a server stores has a type: every text in the memory is the encoding of an object that carries the
  last part of its key as its index.
\<close>

definition typed_contents :: "contents \<Rightarrow> bool" where
  "typed_contents c \<longleftrightarrow>
     (\<forall>k obj. c k = Some obj \<longrightarrow> k \<noteq> [] \<and> Index obj = LastIndex k \<and> safe_object obj)"

lemma typed_spec_op:
  assumes "typed_contents c" "op_storable op" "\<And>now path data. op = OpSet now path data \<Longrightarrow> path \<noteq> []"
  shows "typed_contents (spec_op op c)"
proof (cases op)
  case (OpSet now path data)
  with assms show ?thesis
    by (auto simp: typed_contents_def stamp_object_def safe_stamp_object [unfolded stamp_object_def])
next
  case (OpDel path)
  with assms(1) show ?thesis by (auto simp: typed_contents_def restrict_map_def split: if_splits)
qed

text \<open>A step of the server does one storage operation, or none.\<close>

lemma step_contents:
  assumes step: "server_step ul J l app app'" and up: "server_up J app" and b: "benign J l app"
  shows "mem_contents J (app_Storage app') = mem_contents J (app_Storage app) \<or>
    (\<exists>op. op_storable op \<and> (\<forall>now path data. op = OpSet now path data \<longrightarrow> path \<noteq> []) \<and>
      mem_contents J (app_Storage app') = spec_op op (mem_contents J (app_Storage app)))"
proof -
  have ready: "storage_ready J (app_Storage app)" and st: "started (app_Storage app)"
    using up by (auto simp: server_up_def storage_ready_def)
  show ?thesis
    using step
  proof cases
    case (step_publish b' n r resp)
    from step_publish(2) show ?thesis
    proof (cases rule: publish_cases)
      case (stored event data index db)
      have key: "IsValid (req_key r)" using stored(1) by (auto simp: publishable_iff)
      have "json_safe data" using b stored(2,3) by (simp add: step_publish(1))
      then have "storable (Build b' (req_key r)) data"
        using stored(1) by (simp add: storable_def publishable_iff json_safe_Build)
      with memory.set_spec [OF ready this, of n] stored(4,5) show ?thesis
        by (intro disjI2 exI [of _ "OpSet n (Build b' (req_key r)) data"]) (auto simp: Build_not_Nil [OF key])
    qed simp
  next
    case (step_unpublish r resp)
    from step_unpublish(2) show ?thesis
    proof (cases rule: unpublish_cases)
      case (deleted err db)
      with memory.del_spec [OF ready, of "req_key r"] show ?thesis
        by (intro disjI2 exI [of _ "OpDel (req_key r)"]) auto
    qed simp
  next
    case (step_work nows)
    from step_work(2) st show ?thesis
      by (rule watch_step_cases) (intro disjI1 mem_contents_cong, simp)
  next
    case (step_read now r resp)
    from read_server [OF step_read(2)] show ?thesis by auto
  next
    case (step_stats now r resp)
    from stats_server [OF step_stats(2)] show ?thesis by auto
  next
    case (step_tick now)
    then show ?thesis by (auto simp: tick_def sendTime_def bind_outcome_eq_Returns split: if_splits)
  next
    case (step_run i)
    then show ?thesis by (auto simp: run_spawned_def run_goroutine_call [of _ _ J] split: if_splits)
  next
    case (step_hangup key client)
    then show ?thesis by (auto simp: hangup_def bind_outcome_eq_Returns)
  next
    case (step_lose client)
    then show ?thesis by simp
  qed
qed

lemma reaches_typed:
  assumes run: "reaches ul J (benign J) app app'" and up: "server_up J app"
    and typed: "typed_contents (mem_contents J (app_Storage app))"
  shows "server_up J app' \<and> typed_contents (mem_contents J (app_Storage app'))"
proof (rule reaches_invariant [OF run, where I = "\<lambda>a. server_up J a \<and> typed_contents (mem_contents J (app_Storage a))"])
  show "server_up J app \<and> typed_contents (mem_contents J (app_Storage app))" using up typed ..
next
  fix l a b
  assume a: "server_up J a \<and> typed_contents (mem_contents J (app_Storage a))" "benign J l a" "server_step ul J l a b"
  then have "typed_contents (mem_contents J (app_Storage b))"
    using step_contents [OF a(3) _ a(2)] typed_spec_op by metis
  with a step_up show "server_up J b \<and> typed_contents (mem_contents J (app_Storage b))" by blast
qed

text \<open>
  C20: what a server stores and reads is well typed. After any history of a server that started with an empty
  memory, publishing texts that JSON writes unescaped, every stored text decodes to one object, whose index is the last part of its key; a
  key that is read gives such a text, and a pattern gives the encoding of a list of objects, each with the index
  of a key that the pattern covers.
\<close>

theorem stored_objects_typed:
  fixes J :: "('p, 'c) wire_scheme"
  assumes run: "reaches ul J (benign J) app app'" and up: "server_up J app" and new: "mem (app_Storage app) = []"
  shows "(\<forall>k v. map_of (mem (app_Storage app')) k = Some v \<longrightarrow>
      k \<noteq> [] \<and> (\<exists>obj. DecodeRaw J v = Inr obj \<and> Index obj = LastIndex k \<and> safe_object obj)) \<and>
    (\<forall>path s. star \<notin> set path \<and> MemoryStorage_Get J (app_Storage app') path = Inr s \<longrightarrow>
      (\<exists>obj. DecodeRaw J s = Inr obj \<and> Index obj = LastIndex path \<and> safe_object obj)) \<and>
    (\<forall>path. star \<in> set path \<longrightarrow>
      (\<exists>s objs. MemoryStorage_Get J (app_Storage app') path = Inr s \<and> unmarshal_objects J s = Inr objs \<and>
        (\<forall>obj \<in> set objs. \<exists>k. k \<noteq> [] \<and> Match path k \<and> Index obj = LastIndex k \<and> safe_object obj)))"
proof -
  have "typed_contents (mem_contents J (app_Storage app))" by (simp add: typed_contents_def mem_contents_def new)
  from reaches_typed [OF run up this] have ready: "storage_ready J (app_Storage app')"
    and typed: "typed_contents (mem_contents J (app_Storage app'))"
    by (auto simp: server_up_def)
  let ?c = "mem_contents J (app_Storage app')"
  have stored: "k \<noteq> [] \<and> (\<exists>obj. DecodeRaw J v = Inr obj \<and> Index obj = LastIndex k \<and> safe_object obj)"
    if "map_of (mem (app_Storage app')) k = Some v" for k v
    using mem_contents_Some [OF _ that] ready typed by (force simp: storage_ready_def typed_contents_def)
  moreover have "\<exists>obj. DecodeRaw J s = Inr obj \<and> Index obj = LastIndex path \<and> safe_object obj"
    if "star \<notin> set path" "MemoryStorage_Get J (app_Storage app') path = Inr s" for path s
    using that stored by (auto simp: MemoryStorage_Get_def split: option.splits)
  moreover have "\<exists>s objs. MemoryStorage_Get J (app_Storage app') path = Inr s \<and> unmarshal_objects J s = Inr objs \<and>
      (\<forall>obj \<in> set objs. \<exists>k. k \<noteq> [] \<and> Match path k \<and> Index obj = LastIndex k \<and> safe_object obj)"
    if star: "star \<in> set path" for path
  proof -
    obtain s objs where s: "MemoryStorage_Get J (app_Storage app') path = Inr s" "unmarshal_objects J s = Inr objs"
      and objs: "mset objs = image_mset (\<lambda>k. the (?c k)) (mset_set {k \<in> dom ?c. Match path k})"
      using memory.get_pattern [OF ready star] by blast
    have "\<exists>k. k \<noteq> [] \<and> Match path k \<and> Index obj = LastIndex k \<and> safe_object obj" if "obj \<in> set objs" for obj
    proof -
      have "obj \<in># image_mset (\<lambda>k. the (?c k)) (mset_set {k \<in> dom ?c. Match path k})"
        using that by (simp flip: objs)
      then obtain k where k: "k \<in># mset_set {k \<in> dom ?c. Match path k}" "obj = the (?c k)" by auto
      from k(1) have "k \<in> {k \<in> dom ?c. Match path k}"
        by (cases "finite {k \<in> dom ?c. Match path k}") simp_all
      with k(2) have "Match path k" "?c k = Some obj" by auto
      then show ?thesis using typed by (auto simp: typed_contents_def)
    qed
    with s show ?thesis by blast
  qed
  ultimately show ?thesis by blast
qed

theorem stored_objects_typed_witness:
  "\<exists>app s obj. reaches id ref_wire (benign ref_wire) example_server app \<and>
    MemoryStorage_Get ref_wire (app_Storage app) ''box'' = Inr s \<and> DecodeRaw ref_wire s = Inr obj \<and> Index obj = ''box''"
proof -
  obtain resp db obj where pub: "publish ref_wire 5 7 example_publish example_server = Returns (resp, example_server\<lparr>app_Storage := db\<rparr>)"
      and get: "MemoryStorage_Get ref_wire db ''box'' = Inr (object_text obj @ [newline])"
    using example_stored by blast
  have "benign ref_wire (Publish 5 7 example_publish) example_server"
    using example_publish_guards storable_example by (simp add: router_check_def example_server_value storable_def)
  then have run: "reaches id ref_wire (benign ref_wire) example_server (example_server\<lparr>app_Storage := db\<rparr>)"
    by (rule reaches_step [OF reaches_refl _ step_publish [OF pub]])
  have new: "mem (app_Storage example_server) = []"
    by (simp add: example_server_value fresh_storage_def Start_frame empty_MemoryStorage_def)
  have "star \<notin> set ''box''" by simp
  with stored_objects_typed [OF run example_server_up new, THEN conjunct2, THEN conjunct1, rule_format, of "''box''"] get
  show ?thesis using run example_publish_guards(5) by (auto intro!: exI [of _ "example_server\<lparr>app_Storage := db\<rparr>"])
qed

end
