(* ===== verification/Client.thy ===== *)
theory Client
  imports Key Messages
begin

text \<open>
  \<^verbatim>\<open>src/client/subscribe.go\<close>: the client of a subscription, a loop that dials, reads and patches
  until a read fails, then sleeps and dials again.

  The loop and the goroutine that waits for the context run against a network. What the network and the
  context do is a sequence of events: the outcome of a dial, a frame, a failed read, the end of a sleep, the
  end of the context and the moment the goroutine gets the lock and closes the connection. \<open>client_step\<close>
  is what the program does at each; it is \<open>None\<close> when the program is not at a point where the event can
  happen. Dialling holds the lock, so a dial is one event. Frames that had arrived can still be read from a
  connection that has been closed, so a frame can come in any read. Connections are numbered in the order
  they were made. The JSON decoder of the caller's item
  type is an argument; logging is left out.
\<close>

record 'a Meta =
  MetaCreated :: int64
  MetaUpdated :: int64
  MetaIndex :: string
  MetaData :: 'a

record Path =
  Protocol :: string
  Host :: string
  SubPath :: string

datatype client_phase =
    Dialing
  | Reading
  | Sleeping
  | Finished

datatype closer = Waiting | Swapped | Ended

record 'a client =
  retryCount :: int
  client_cache :: string
  isList :: bool
  closingTime :: bool
  wsClient :: "nat option"
  dialled :: nat
  hung_up :: "nat list"
  phase :: client_phase
  closing_goroutine :: closer
  slept :: "int list"
  calls :: "'a Meta list list"

datatype client_event =
    DialOk
  | DialFails
  | Frame string
  | ReadFails
  | Wake
  | Cancelled
  | Closing

text \<open>The state in which \<^verbatim>\<open>Subscribe\<close> enters its loop.\<close>

definition Subscribe_start :: "string \<Rightarrow> 'a client" where
  "Subscribe_start path =
     \<lparr>retryCount = 0, client_cache = '''', isList = (LastIndex path = ''*''), closingTime = False,
      wsClient = None, dialled = 0, hung_up = [], phase = Dialing, closing_goroutine = Waiting,
      slept = [], calls = []\<rparr>"

definition meta_of :: "Object \<Rightarrow> 'a \<Rightarrow> 'a Meta" where
  "meta_of obj item =
     \<lparr>MetaCreated = Created obj, MetaUpdated = Updated obj, MetaIndex = Index obj, MetaData = item\<rparr>"

text \<open>The loop over the decoded objects: an item that does not decode is skipped.\<close>

fun decode_items :: "(string \<Rightarrow> 'a result) \<Rightarrow> Object list \<Rightarrow> 'a Meta list" where
  "decode_items unmarshal [] = []"
| "decode_items unmarshal (obj # objs) =
     (case unmarshal (Data obj) of
        Inl err \<Rightarrow> decode_items unmarshal objs
      | Inr item \<Rightarrow> meta_of obj item # decode_items unmarshal objs)"

section \<open>The loop\<close>

text \<open>What follows the end of the read loop: the way out, or the wait before the next dial.\<close>

definition after_read :: "'a client \<Rightarrow> 'a client" where
  "after_read st0 =
     (if closingTime st0 then st0\<lparr>phase := Finished\<rparr>
      else
        (let st = st0\<lparr>retryCount := retryCount st0 + 1\<rparr>
         in if retryCount st < 30 then st\<lparr>slept := slept st @ [300 * millisecond], phase := Sleeping\<rparr>
            else if retryCount st < 100 then st\<lparr>slept := slept st @ [2 * second], phase := Sleeping\<rparr>
            else st\<lparr>slept := slept st @ [10 * second], phase := Sleeping\<rparr>))"

definition deliver_items :: "'a Meta list \<Rightarrow> 'a client \<Rightarrow> 'a client" where
  "deliver_items items st = st\<lparr>retryCount := 0, calls := calls st @ [items]\<rparr>"

text \<open>A message in the read loop, for a list and for a single object.\<close>

definition on_message ::
  "('p, 'c) wire_scheme \<Rightarrow> (string \<Rightarrow> 'a result) \<Rightarrow> string \<Rightarrow> 'a client \<Rightarrow> 'a client"
where
  "on_message J unmarshal message st0 =
     (if isList st0 then
        (case PatchList J message (client_cache st0) of
           (cache, Inl err) \<Rightarrow> after_read (st0\<lparr>client_cache := cache\<rparr>)
         | (cache, Inr objs) \<Rightarrow>
             deliver_items (decode_items unmarshal objs) (st0\<lparr>client_cache := cache\<rparr>))
      else
        (case Patch_message J message (client_cache st0) of
           (cache, Inl err) \<Rightarrow> after_read (st0\<lparr>client_cache := cache\<rparr>)
         | (cache, Inr obj) \<Rightarrow>
             (case unmarshal (Data obj) of
                Inl err \<Rightarrow> after_read (st0\<lparr>client_cache := cache\<rparr>)
              | Inr item \<Rightarrow> deliver_items [meta_of obj item] (st0\<lparr>client_cache := cache\<rparr>))))"

text \<open>Closing the connection in use, if there is one.\<close>

definition hang_up :: "'a client \<Rightarrow> 'a client" where
  "hang_up st = (case wsClient st of None \<Rightarrow> st | Some c \<Rightarrow> st\<lparr>hung_up := hung_up st @ [c]\<rparr>)"

fun client_step ::
  "('p, 'c) wire_scheme \<Rightarrow> (string \<Rightarrow> 'a result) \<Rightarrow> client_event \<Rightarrow> 'a client \<Rightarrow> 'a client option"
where
  "client_step J unmarshal DialFails st =
     (if phase st = Dialing
      then Some (st\<lparr>wsClient := None, slept := slept st @ [2 * second], phase := Sleeping\<rparr>)
      else None)"
| "client_step J unmarshal DialOk st =
     (if phase st = Dialing
      then Some (st\<lparr>wsClient := Some (dialled st), dialled := Suc (dialled st), phase := Reading\<rparr>)
      else None)"
| "client_step J unmarshal (Frame message) st =
     (if phase st = Reading then Some (on_message J unmarshal message st) else None)"
| "client_step J unmarshal ReadFails st =
     (if phase st = Reading then Some (after_read (hang_up st)) else None)"
| "client_step J unmarshal Wake st =
     (if phase st = Sleeping then Some (st\<lparr>phase := Dialing\<rparr>) else None)"
| "client_step J unmarshal Cancelled st =
     (if closing_goroutine st = Waiting then Some (st\<lparr>closingTime := True, closing_goroutine := Swapped\<rparr>)
      else None)"
| "client_step J unmarshal Closing st =
     (if closing_goroutine st = Swapped then Some (hang_up (st\<lparr>closing_goroutine := Ended\<rparr>)) else None)"

fun client_run ::
  "('p, 'c) wire_scheme \<Rightarrow> (string \<Rightarrow> 'a result) \<Rightarrow> client_event list \<Rightarrow> 'a client \<Rightarrow> 'a client option"
where
  "client_run J unmarshal [] st = Some st"
| "client_run J unmarshal (e # es) st =
     (case client_step J unmarshal e st of
        None \<Rightarrow> None
      | Some st' \<Rightarrow> client_run J unmarshal es st')"

end
