(* ===== verification/ClientMultiple.thy ===== *)
theory ClientMultiple
  imports Client
begin

text \<open>
  \<^verbatim>\<open>src/client/subscribeMultiple.go\<close>: several subscriptions with one callback. Each subscription puts
  its messages in a channel of its own, of capacity ten; one goroutine takes them, keeps the last message of
  every subscription and calls back with all of them.

  Each function of the source is a state and its events: a subscription offers a message (\<open>Offer\<close>), gives
  up because the context has ended (\<open>Skip\<close>), the goroutine takes a message (\<open>Take\<close>), the context ends
  (\<open>Done\<close>) and the goroutine returns (\<open>Return\<close>). A step that would wait is \<open>None\<close>. Where a
  \<^verbatim>\<open>select\<close> has several ready cases, each is an event that can happen.

  The locale \<open>slot\<close> is what one subscription sees of the whole; each of the nine channels is an
  interpretation of it.
\<close>

record 'a MultiState =
  StateData :: "'a Meta list"
  Updated_flag :: bool

definition capacity :: nat where
  "capacity = 10"

section \<open>One channel among others\<close>

text \<open>A run of a machine whose steps may not be possible.\<close>

fun run_events :: "('e \<Rightarrow> 's \<Rightarrow> 's option) \<Rightarrow> 'e list \<Rightarrow> 's \<Rightarrow> 's option" where
  "run_events step [] s = Some s"
| "run_events step (e # es) s =
     (case step e s of None \<Rightarrow> None | Some s' \<Rightarrow> run_events step es s')"

text \<open>The messages a column of calls announced as new.\<close>

definition announced :: "'a MultiState list \<Rightarrow> 'a Meta list list" where
  "announced xs = map StateData (filter Updated_flag xs)"

text \<open>A column repeats the last message until a new one is announced.\<close>

fun steady :: "'a Meta list \<Rightarrow> 'a MultiState list \<Rightarrow> bool" where
  "steady m [] = True"
| "steady m (x # xs) \<longleftrightarrow> (Updated_flag x \<or> StateData x = m) \<and> steady (StateData x) xs"

fun final :: "'a Meta list \<Rightarrow> 'a MultiState list \<Rightarrow> 'a Meta list" where
  "final m [] = m"
| "final m (x # xs) = final (StateData x) xs"

lemma steady_snoc: "steady m (xs @ [x]) \<longleftrightarrow> steady m xs \<and> (Updated_flag x \<or> StateData x = final m xs)"
  by (induction xs arbitrary: m) auto

lemma final_snoc: "final m (xs @ [x]) = StateData x"
  by (induction xs arbitrary: m) auto

text \<open>
  A slot of the goroutine: its channel, the last message taken from it, and the column of the calls so far
  that it filled. A step leaves the slot or puts a message in the channel, or fills the column with the
  last message, or takes the oldest message and announces it.
\<close>

locale slot =
  fixes step :: "'e \<Rightarrow> 's \<Rightarrow> 's option"
    and chan :: "'s \<Rightarrow> 'a Meta list list"
    and last_state :: "'s \<Rightarrow> 'a Meta list"
    and column :: "'s \<Rightarrow> 'a MultiState list"
    and offered :: "'e \<Rightarrow> 'a Meta list list"
  assumes step_cases: "step e s = Some s' \<Longrightarrow>
      (chan s' = chan s @ offered e \<and> length (chan s') \<le> max capacity (length (chan s)) \<and>
         last_state s' = last_state s \<and>
         (column s' = column s \<or>
          offered e = [] \<and> column s' = column s @ [\<lparr>StateData = last_state s, Updated_flag = False\<rparr>])) \<or>
      (\<exists>m. offered e = [] \<and> chan s = m # chan s' \<and> last_state s' = m \<and>
         column s' = column s @ [\<lparr>StateData = m, Updated_flag = True\<rparr>])"
begin

text \<open>Messages are neither lost nor reordered: what was offered is what was announced and what waits.\<close>

lemma step_announced:
  "step e s = Some s' \<Longrightarrow> announced (column s') @ chan s' = announced (column s) @ chan s @ offered e"
  using step_cases [of e s s'] by (auto simp: announced_def)

lemma run_announced:
  "run_events step es s = Some s' \<Longrightarrow>
     announced (column s') @ chan s' = announced (column s) @ chan s @ concat (map offered es)"
proof (induction es arbitrary: s)
  case (Cons e es)
  then obtain s1 where s1: "step e s = Some s1" "run_events step es s1 = Some s'"
    by (auto split: option.splits)
  from Cons.IH [OF s1(2)] step_announced [OF s1(1)] show ?case by simp
qed simp

definition slot_ok :: "'s \<Rightarrow> bool" where
  "slot_ok s \<longleftrightarrow>
     steady [] (column s) \<and> last_state s = final [] (column s) \<and> length (chan s) \<le> capacity"

lemma step_slot_ok: "step e s = Some s' \<Longrightarrow> slot_ok s \<Longrightarrow> slot_ok s'"
  using step_cases [of e s s'] by (auto simp: slot_ok_def steady_snoc final_snoc)

lemma run_slot_ok: "run_events step es s = Some s' \<Longrightarrow> slot_ok s \<Longrightarrow> slot_ok s'"
  by (induction es arbitrary: s) (auto split: option.splits intro: step_slot_ok)

text \<open>A run from the start.\<close>

lemma run_from_start:
  assumes "run_events step es s = Some s'" "chan s = []" "last_state s = []" "column s = []"
  shows "announced (column s') @ chan s' = concat (map offered es) \<and> steady [] (column s') \<and>
    last_state s' = final [] (column s') \<and> length (chan s') \<le> capacity"
  using run_announced [OF assms(1)] run_slot_ok [OF assms(1)] assms(2-4)
  by (simp add: slot_ok_def announced_def)

end

section \<open>\<^verbatim>\<open>SubscribeMultiple2\<close>\<close>

record ('a, 'b) multi2 =
  ch2_1 :: "'a Meta list list"
  ch2_2 :: "'b Meta list list"
  state2_1 :: "'a Meta list"
  state2_2 :: "'b Meta list"
  calls2 :: "('a MultiState \<times> 'b MultiState) list"
  done2 :: bool
  returned2 :: bool

datatype ('a, 'b) event2 =
    Offer2_1 "'a Meta list"
  | Offer2_2 "'b Meta list"
  | Skip2_1
  | Skip2_2
  | Take2_1
  | Take2_2
  | Done2
  | Return2

definition SubscribeMultiple2_start :: "('a, 'b) multi2" where
  "SubscribeMultiple2_start =
     \<lparr>ch2_1 = [], ch2_2 = [],
      state2_1 = [], state2_2 = [], calls2 = [], done2 = False, returned2 = False\<rparr>"

fun SubscribeMultiple2_step ::
  "('a, 'b) event2 \<Rightarrow> ('a, 'b) multi2 \<Rightarrow> ('a, 'b) multi2 option" where
  "SubscribeMultiple2_step (Offer2_1 messages) s =
     (if length (ch2_1 s) < capacity then Some (s\<lparr>ch2_1 := ch2_1 s @ [messages]\<rparr>) else None)"
| "SubscribeMultiple2_step (Offer2_2 messages) s =
     (if length (ch2_2 s) < capacity then Some (s\<lparr>ch2_2 := ch2_2 s @ [messages]\<rparr>) else None)"
| "SubscribeMultiple2_step Skip2_1 s = (if done2 s then Some s else None)"
| "SubscribeMultiple2_step Skip2_2 s = (if done2 s then Some s else None)"
| "SubscribeMultiple2_step Take2_1 s =
     (if returned2 s then None
      else
        (case ch2_1 s of
           [] \<Rightarrow> None
         | messages # rest \<Rightarrow>
             Some (s\<lparr>ch2_1 := rest, state2_1 := messages,
               calls2 := calls2 s @ [(\<lparr>StateData = messages, Updated_flag = True\<rparr>,
                 \<lparr>StateData = state2_2 s, Updated_flag = False\<rparr>)]\<rparr>)))"
| "SubscribeMultiple2_step Take2_2 s =
     (if returned2 s then None
      else
        (case ch2_2 s of
           [] \<Rightarrow> None
         | messages # rest \<Rightarrow>
             Some (s\<lparr>ch2_2 := rest, state2_2 := messages,
               calls2 := calls2 s @ [(\<lparr>StateData = state2_1 s, Updated_flag = False\<rparr>,
                 \<lparr>StateData = messages, Updated_flag = True\<rparr>)]\<rparr>)))"
| "SubscribeMultiple2_step Done2 s = Some (s\<lparr>done2 := True\<rparr>)"
| "SubscribeMultiple2_step Return2 s =
     (if done2 s \<and> \<not> returned2 s then Some (s\<lparr>returned2 := True\<rparr>) else None)"

fun offered2_1 :: "('a, 'b) event2 \<Rightarrow> 'a Meta list list" where
  "offered2_1 (Offer2_1 messages) = [messages]"
| "offered2_1 _ = []"

fun offered2_2 :: "('a, 'b) event2 \<Rightarrow> 'b Meta list list" where
  "offered2_2 (Offer2_2 messages) = [messages]"
| "offered2_2 _ = []"

definition column2_1 :: "('a, 'b) multi2 \<Rightarrow> 'a MultiState list" where
  "column2_1 s = map fst (calls2 s)"

definition column2_2 :: "('a, 'b) multi2 \<Rightarrow> 'b MultiState list" where
  "column2_2 s = map snd (calls2 s)"

lemmas columns2 = column2_1_def column2_2_def

interpretation slot2_1: slot SubscribeMultiple2_step ch2_1 state2_1 column2_1 offered2_1
  by unfold_locales (erule SubscribeMultiple2_step.elims; auto simp: columns2 split: if_splits list.splits)

interpretation slot2_2: slot SubscribeMultiple2_step ch2_2 state2_2 column2_2 offered2_2
  by unfold_locales (erule SubscribeMultiple2_step.elims; auto simp: columns2 split: if_splits list.splits)

lemma SubscribeMultiple2_start_columns [simp]:
  "column2_1 SubscribeMultiple2_start = []" "column2_2 SubscribeMultiple2_start = []"
  "ch2_1 SubscribeMultiple2_start = []" "ch2_2 SubscribeMultiple2_start = []"
  "state2_1 SubscribeMultiple2_start = []" "state2_2 SubscribeMultiple2_start = []"
  by (simp_all add: columns2 SubscribeMultiple2_start_def)

section \<open>\<^verbatim>\<open>SubscribeMultiple3\<close>\<close>

record ('a, 'b, 'c) multi3 =
  ch3_1 :: "'a Meta list list"
  ch3_2 :: "'b Meta list list"
  ch3_3 :: "'c Meta list list"
  state3_1 :: "'a Meta list"
  state3_2 :: "'b Meta list"
  state3_3 :: "'c Meta list"
  calls3 :: "('a MultiState \<times> 'b MultiState \<times> 'c MultiState) list"
  done3 :: bool
  returned3 :: bool

datatype ('a, 'b, 'c) event3 =
    Offer3_1 "'a Meta list"
  | Offer3_2 "'b Meta list"
  | Offer3_3 "'c Meta list"
  | Skip3_1
  | Skip3_2
  | Skip3_3
  | Take3_1
  | Take3_2
  | Take3_3
  | Done3
  | Return3

definition SubscribeMultiple3_start :: "('a, 'b, 'c) multi3" where
  "SubscribeMultiple3_start =
     \<lparr>ch3_1 = [], ch3_2 = [], ch3_3 = [],
      state3_1 = [], state3_2 = [], state3_3 = [], calls3 = [], done3 = False, returned3 = False\<rparr>"

fun SubscribeMultiple3_step ::
  "('a, 'b, 'c) event3 \<Rightarrow> ('a, 'b, 'c) multi3 \<Rightarrow> ('a, 'b, 'c) multi3 option" where
  "SubscribeMultiple3_step (Offer3_1 messages) s =
     (if length (ch3_1 s) < capacity then Some (s\<lparr>ch3_1 := ch3_1 s @ [messages]\<rparr>) else None)"
| "SubscribeMultiple3_step (Offer3_2 messages) s =
     (if length (ch3_2 s) < capacity then Some (s\<lparr>ch3_2 := ch3_2 s @ [messages]\<rparr>) else None)"
| "SubscribeMultiple3_step (Offer3_3 messages) s =
     (if length (ch3_3 s) < capacity then Some (s\<lparr>ch3_3 := ch3_3 s @ [messages]\<rparr>) else None)"
| "SubscribeMultiple3_step Skip3_1 s = (if done3 s then Some s else None)"
| "SubscribeMultiple3_step Skip3_2 s = (if done3 s then Some s else None)"
| "SubscribeMultiple3_step Skip3_3 s = (if done3 s then Some s else None)"
| "SubscribeMultiple3_step Take3_1 s =
     (if returned3 s then None
      else
        (case ch3_1 s of
           [] \<Rightarrow> None
         | messages # rest \<Rightarrow>
             Some (s\<lparr>ch3_1 := rest, state3_1 := messages,
               calls3 := calls3 s @ [(\<lparr>StateData = messages, Updated_flag = True\<rparr>,
                 \<lparr>StateData = state3_2 s, Updated_flag = False\<rparr>,
                 \<lparr>StateData = state3_3 s, Updated_flag = False\<rparr>)]\<rparr>)))"
| "SubscribeMultiple3_step Take3_2 s =
     (if returned3 s then None
      else
        (case ch3_2 s of
           [] \<Rightarrow> None
         | messages # rest \<Rightarrow>
             Some (s\<lparr>ch3_2 := rest, state3_2 := messages,
               calls3 := calls3 s @ [(\<lparr>StateData = state3_1 s, Updated_flag = False\<rparr>,
                 \<lparr>StateData = messages, Updated_flag = True\<rparr>,
                 \<lparr>StateData = state3_3 s, Updated_flag = False\<rparr>)]\<rparr>)))"
| "SubscribeMultiple3_step Take3_3 s =
     (if returned3 s then None
      else
        (case ch3_3 s of
           [] \<Rightarrow> None
         | messages # rest \<Rightarrow>
             Some (s\<lparr>ch3_3 := rest, state3_3 := messages,
               calls3 := calls3 s @ [(\<lparr>StateData = state3_1 s, Updated_flag = False\<rparr>,
                 \<lparr>StateData = state3_2 s, Updated_flag = False\<rparr>,
                 \<lparr>StateData = messages, Updated_flag = True\<rparr>)]\<rparr>)))"
| "SubscribeMultiple3_step Done3 s = Some (s\<lparr>done3 := True\<rparr>)"
| "SubscribeMultiple3_step Return3 s =
     (if done3 s \<and> \<not> returned3 s then Some (s\<lparr>returned3 := True\<rparr>) else None)"

fun offered3_1 :: "('a, 'b, 'c) event3 \<Rightarrow> 'a Meta list list" where
  "offered3_1 (Offer3_1 messages) = [messages]"
| "offered3_1 _ = []"

fun offered3_2 :: "('a, 'b, 'c) event3 \<Rightarrow> 'b Meta list list" where
  "offered3_2 (Offer3_2 messages) = [messages]"
| "offered3_2 _ = []"

fun offered3_3 :: "('a, 'b, 'c) event3 \<Rightarrow> 'c Meta list list" where
  "offered3_3 (Offer3_3 messages) = [messages]"
| "offered3_3 _ = []"

definition column3_1 :: "('a, 'b, 'c) multi3 \<Rightarrow> 'a MultiState list" where
  "column3_1 s = map (\<lambda>x. fst x) (calls3 s)"

definition column3_2 :: "('a, 'b, 'c) multi3 \<Rightarrow> 'b MultiState list" where
  "column3_2 s = map (\<lambda>x. fst (snd x)) (calls3 s)"

definition column3_3 :: "('a, 'b, 'c) multi3 \<Rightarrow> 'c MultiState list" where
  "column3_3 s = map (\<lambda>x. snd (snd x)) (calls3 s)"

lemmas columns3 = column3_1_def column3_2_def column3_3_def

interpretation slot3_1: slot SubscribeMultiple3_step ch3_1 state3_1 column3_1 offered3_1
  by unfold_locales (erule SubscribeMultiple3_step.elims; auto simp: columns3 split: if_splits list.splits)

interpretation slot3_2: slot SubscribeMultiple3_step ch3_2 state3_2 column3_2 offered3_2
  by unfold_locales (erule SubscribeMultiple3_step.elims; auto simp: columns3 split: if_splits list.splits)

interpretation slot3_3: slot SubscribeMultiple3_step ch3_3 state3_3 column3_3 offered3_3
  by unfold_locales (erule SubscribeMultiple3_step.elims; auto simp: columns3 split: if_splits list.splits)

lemma SubscribeMultiple3_start_columns [simp]:
  "column3_1 SubscribeMultiple3_start = []" "column3_2 SubscribeMultiple3_start = []" "column3_3 SubscribeMultiple3_start = []"
  "ch3_1 SubscribeMultiple3_start = []" "ch3_2 SubscribeMultiple3_start = []" "ch3_3 SubscribeMultiple3_start = []"
  "state3_1 SubscribeMultiple3_start = []" "state3_2 SubscribeMultiple3_start = []" "state3_3 SubscribeMultiple3_start = []"
  by (simp_all add: columns3 SubscribeMultiple3_start_def)

section \<open>\<^verbatim>\<open>SubscribeMultiple4\<close>\<close>

record ('a, 'b, 'c, 'd) multi4 =
  ch4_1 :: "'a Meta list list"
  ch4_2 :: "'b Meta list list"
  ch4_3 :: "'c Meta list list"
  ch4_4 :: "'d Meta list list"
  state4_1 :: "'a Meta list"
  state4_2 :: "'b Meta list"
  state4_3 :: "'c Meta list"
  state4_4 :: "'d Meta list"
  calls4 :: "('a MultiState \<times> 'b MultiState \<times> 'c MultiState \<times> 'd MultiState) list"
  done4 :: bool
  returned4 :: bool

datatype ('a, 'b, 'c, 'd) event4 =
    Offer4_1 "'a Meta list"
  | Offer4_2 "'b Meta list"
  | Offer4_3 "'c Meta list"
  | Offer4_4 "'d Meta list"
  | Skip4_1
  | Skip4_2
  | Skip4_3
  | Skip4_4
  | Take4_1
  | Take4_2
  | Take4_3
  | Take4_4
  | Done4
  | Return4

definition SubscribeMultiple4_start :: "('a, 'b, 'c, 'd) multi4" where
  "SubscribeMultiple4_start =
     \<lparr>ch4_1 = [], ch4_2 = [], ch4_3 = [], ch4_4 = [],
      state4_1 = [], state4_2 = [], state4_3 = [], state4_4 = [], calls4 = [], done4 = False, returned4 = False\<rparr>"

fun SubscribeMultiple4_step ::
  "('a, 'b, 'c, 'd) event4 \<Rightarrow> ('a, 'b, 'c, 'd) multi4 \<Rightarrow> ('a, 'b, 'c, 'd) multi4 option" where
  "SubscribeMultiple4_step (Offer4_1 messages) s =
     (if length (ch4_1 s) < capacity then Some (s\<lparr>ch4_1 := ch4_1 s @ [messages]\<rparr>) else None)"
| "SubscribeMultiple4_step (Offer4_2 messages) s =
     (if length (ch4_2 s) < capacity then Some (s\<lparr>ch4_2 := ch4_2 s @ [messages]\<rparr>) else None)"
| "SubscribeMultiple4_step (Offer4_3 messages) s =
     (if length (ch4_3 s) < capacity then Some (s\<lparr>ch4_3 := ch4_3 s @ [messages]\<rparr>) else None)"
| "SubscribeMultiple4_step (Offer4_4 messages) s =
     (if length (ch4_4 s) < capacity then Some (s\<lparr>ch4_4 := ch4_4 s @ [messages]\<rparr>) else None)"
| "SubscribeMultiple4_step Skip4_1 s = (if done4 s then Some s else None)"
| "SubscribeMultiple4_step Skip4_2 s = (if done4 s then Some s else None)"
| "SubscribeMultiple4_step Skip4_3 s = (if done4 s then Some s else None)"
| "SubscribeMultiple4_step Skip4_4 s = (if done4 s then Some s else None)"
| "SubscribeMultiple4_step Take4_1 s =
     (if returned4 s then None
      else
        (case ch4_1 s of
           [] \<Rightarrow> None
         | messages # rest \<Rightarrow>
             Some (s\<lparr>ch4_1 := rest, state4_1 := messages,
               calls4 := calls4 s @ [(\<lparr>StateData = messages, Updated_flag = True\<rparr>,
                 \<lparr>StateData = state4_2 s, Updated_flag = False\<rparr>,
                 \<lparr>StateData = state4_3 s, Updated_flag = False\<rparr>,
                 \<lparr>StateData = state4_4 s, Updated_flag = False\<rparr>)]\<rparr>)))"
| "SubscribeMultiple4_step Take4_2 s =
     (if returned4 s then None
      else
        (case ch4_2 s of
           [] \<Rightarrow> None
         | messages # rest \<Rightarrow>
             Some (s\<lparr>ch4_2 := rest, state4_2 := messages,
               calls4 := calls4 s @ [(\<lparr>StateData = state4_1 s, Updated_flag = False\<rparr>,
                 \<lparr>StateData = messages, Updated_flag = True\<rparr>,
                 \<lparr>StateData = state4_3 s, Updated_flag = False\<rparr>,
                 \<lparr>StateData = state4_4 s, Updated_flag = False\<rparr>)]\<rparr>)))"
| "SubscribeMultiple4_step Take4_3 s =
     (if returned4 s then None
      else
        (case ch4_3 s of
           [] \<Rightarrow> None
         | messages # rest \<Rightarrow>
             Some (s\<lparr>ch4_3 := rest, state4_3 := messages,
               calls4 := calls4 s @ [(\<lparr>StateData = state4_1 s, Updated_flag = False\<rparr>,
                 \<lparr>StateData = state4_2 s, Updated_flag = False\<rparr>,
                 \<lparr>StateData = messages, Updated_flag = True\<rparr>,
                 \<lparr>StateData = state4_4 s, Updated_flag = False\<rparr>)]\<rparr>)))"
| "SubscribeMultiple4_step Take4_4 s =
     (if returned4 s then None
      else
        (case ch4_4 s of
           [] \<Rightarrow> None
         | messages # rest \<Rightarrow>
             Some (s\<lparr>ch4_4 := rest, state4_4 := messages,
               calls4 := calls4 s @ [(\<lparr>StateData = state4_1 s, Updated_flag = False\<rparr>,
                 \<lparr>StateData = state4_2 s, Updated_flag = False\<rparr>,
                 \<lparr>StateData = state4_3 s, Updated_flag = False\<rparr>,
                 \<lparr>StateData = messages, Updated_flag = True\<rparr>)]\<rparr>)))"
| "SubscribeMultiple4_step Done4 s = Some (s\<lparr>done4 := True\<rparr>)"
| "SubscribeMultiple4_step Return4 s =
     (if done4 s \<and> \<not> returned4 s then Some (s\<lparr>returned4 := True\<rparr>) else None)"

fun offered4_1 :: "('a, 'b, 'c, 'd) event4 \<Rightarrow> 'a Meta list list" where
  "offered4_1 (Offer4_1 messages) = [messages]"
| "offered4_1 _ = []"

fun offered4_2 :: "('a, 'b, 'c, 'd) event4 \<Rightarrow> 'b Meta list list" where
  "offered4_2 (Offer4_2 messages) = [messages]"
| "offered4_2 _ = []"

fun offered4_3 :: "('a, 'b, 'c, 'd) event4 \<Rightarrow> 'c Meta list list" where
  "offered4_3 (Offer4_3 messages) = [messages]"
| "offered4_3 _ = []"

fun offered4_4 :: "('a, 'b, 'c, 'd) event4 \<Rightarrow> 'd Meta list list" where
  "offered4_4 (Offer4_4 messages) = [messages]"
| "offered4_4 _ = []"

definition column4_1 :: "('a, 'b, 'c, 'd) multi4 \<Rightarrow> 'a MultiState list" where
  "column4_1 s = map (\<lambda>x. fst x) (calls4 s)"

definition column4_2 :: "('a, 'b, 'c, 'd) multi4 \<Rightarrow> 'b MultiState list" where
  "column4_2 s = map (\<lambda>x. fst (snd x)) (calls4 s)"

definition column4_3 :: "('a, 'b, 'c, 'd) multi4 \<Rightarrow> 'c MultiState list" where
  "column4_3 s = map (\<lambda>x. fst (snd (snd x))) (calls4 s)"

definition column4_4 :: "('a, 'b, 'c, 'd) multi4 \<Rightarrow> 'd MultiState list" where
  "column4_4 s = map (\<lambda>x. snd (snd (snd x))) (calls4 s)"

lemmas columns4 = column4_1_def column4_2_def column4_3_def column4_4_def

interpretation slot4_1: slot SubscribeMultiple4_step ch4_1 state4_1 column4_1 offered4_1
  by unfold_locales (erule SubscribeMultiple4_step.elims; auto simp: columns4 split: if_splits list.splits)

interpretation slot4_2: slot SubscribeMultiple4_step ch4_2 state4_2 column4_2 offered4_2
  by unfold_locales (erule SubscribeMultiple4_step.elims; auto simp: columns4 split: if_splits list.splits)

interpretation slot4_3: slot SubscribeMultiple4_step ch4_3 state4_3 column4_3 offered4_3
  by unfold_locales (erule SubscribeMultiple4_step.elims; auto simp: columns4 split: if_splits list.splits)

interpretation slot4_4: slot SubscribeMultiple4_step ch4_4 state4_4 column4_4 offered4_4
  by unfold_locales (erule SubscribeMultiple4_step.elims; auto simp: columns4 split: if_splits list.splits)

lemma SubscribeMultiple4_start_columns [simp]:
  "column4_1 SubscribeMultiple4_start = []" "column4_2 SubscribeMultiple4_start = []" "column4_3 SubscribeMultiple4_start = []" "column4_4 SubscribeMultiple4_start = []"
  "ch4_1 SubscribeMultiple4_start = []" "ch4_2 SubscribeMultiple4_start = []" "ch4_3 SubscribeMultiple4_start = []" "ch4_4 SubscribeMultiple4_start = []"
  "state4_1 SubscribeMultiple4_start = []" "state4_2 SubscribeMultiple4_start = []" "state4_3 SubscribeMultiple4_start = []" "state4_4 SubscribeMultiple4_start = []"
  by (simp_all add: columns4 SubscribeMultiple4_start_def)

section \<open>What the callback sees\<close>

text \<open>Exactly one of the flags of a call is set.\<close>

definition one_of :: "bool list \<Rightarrow> bool" where
  "one_of flags \<longleftrightarrow> length (filter id flags) = 1"

lemma one_of_simps [simp]:
  "one_of (True # bs) \<longleftrightarrow> True \<notin> set bs" "one_of (False # bs) \<longleftrightarrow> one_of bs"
  by (auto simp: one_of_def filter_empty_conv)

text \<open>A column announces the offered messages in order, as far as they have been taken, and otherwise
  repeats the last one.\<close>

definition column_follows :: "'a Meta list list \<Rightarrow> 'a Meta list list \<Rightarrow> 'a MultiState list \<Rightarrow> bool" where
  "column_follows offered waiting column \<longleftrightarrow>
     announced column @ waiting = offered \<and> steady [] column \<and> length waiting \<le> capacity"

lemma step2_one:
  "SubscribeMultiple2_step e s = Some s' \<Longrightarrow> list_all (\<lambda>(a, b). one_of [Updated_flag a, Updated_flag b]) (calls2 s) \<Longrightarrow>
     list_all (\<lambda>(a, b). one_of [Updated_flag a, Updated_flag b]) (calls2 s')"
  by (erule SubscribeMultiple2_step.elims) (auto split: if_splits list.splits)

lemma run2_one:
  "run_events SubscribeMultiple2_step es s = Some s' \<Longrightarrow> list_all (\<lambda>(a, b). one_of [Updated_flag a, Updated_flag b]) (calls2 s) \<Longrightarrow>
     list_all (\<lambda>(a, b). one_of [Updated_flag a, Updated_flag b]) (calls2 s')"
  by (induction es arbitrary: s) (auto split: option.splits intro: step2_one)

lemma step3_one:
  "SubscribeMultiple3_step e s = Some s' \<Longrightarrow> list_all (\<lambda>(a, b, c). one_of [Updated_flag a, Updated_flag b, Updated_flag c]) (calls3 s) \<Longrightarrow>
     list_all (\<lambda>(a, b, c). one_of [Updated_flag a, Updated_flag b, Updated_flag c]) (calls3 s')"
  by (erule SubscribeMultiple3_step.elims) (auto split: if_splits list.splits)

lemma run3_one:
  "run_events SubscribeMultiple3_step es s = Some s' \<Longrightarrow> list_all (\<lambda>(a, b, c). one_of [Updated_flag a, Updated_flag b, Updated_flag c]) (calls3 s) \<Longrightarrow>
     list_all (\<lambda>(a, b, c). one_of [Updated_flag a, Updated_flag b, Updated_flag c]) (calls3 s')"
  by (induction es arbitrary: s) (auto split: option.splits intro: step3_one)

lemma step4_one:
  "SubscribeMultiple4_step e s = Some s' \<Longrightarrow> list_all (\<lambda>(a, b, c, d). one_of [Updated_flag a, Updated_flag b, Updated_flag c, Updated_flag d]) (calls4 s) \<Longrightarrow>
     list_all (\<lambda>(a, b, c, d). one_of [Updated_flag a, Updated_flag b, Updated_flag c, Updated_flag d]) (calls4 s')"
  by (erule SubscribeMultiple4_step.elims) (auto split: if_splits list.splits)

lemma run4_one:
  "run_events SubscribeMultiple4_step es s = Some s' \<Longrightarrow> list_all (\<lambda>(a, b, c, d). one_of [Updated_flag a, Updated_flag b, Updated_flag c, Updated_flag d]) (calls4 s) \<Longrightarrow>
     list_all (\<lambda>(a, b, c, d). one_of [Updated_flag a, Updated_flag b, Updated_flag c, Updated_flag d]) (calls4 s')"
  by (induction es arbitrary: s) (auto split: option.splits intro: step4_one)

end
