(* ===== verification/ClientProperties.thy ===== *)
theory ClientProperties
  imports Client ClientMultiple RefCodec
begin

text \<open>
  The properties of the subscription client: what it has after a run of frames, how it waits between
  dials, and what the end of its context does to it.
\<close>

section \<open>Runs\<close>

lemma client_run_append:
  "client_run J um (es @ fs) st =
     (case client_run J um es st of None \<Rightarrow> None | Some st' \<Rightarrow> client_run J um fs st')"
  by (induction es arbitrary: st) (auto split: option.split)

lemma client_run_Cons_Some:
  "client_run J um (e # es) st = Some st'' \<longleftrightarrow>
     (\<exists>st'. client_step J um e st = Some st' \<and> client_run J um es st' = Some st'')"
  by (auto split: option.splits)

text \<open>An invariant of the steps is an invariant of the runs.\<close>

lemma client_run_invariant:
  assumes "client_run J um es st = Some st'" "I st"
    and "\<And>e a b. I a \<Longrightarrow> client_step J um e a = Some b \<Longrightarrow> I b"
  shows "I st'"
  using assms(1,2)
  by (induction es arbitrary: st) (use assms(3) in \<open>auto split: option.splits\<close>)

lemma after_read_frame [simp]:
  "client_cache (after_read st) = client_cache st" "isList (after_read st) = isList st"
  "closingTime (after_read st) = closingTime st" "wsClient (after_read st) = wsClient st"
  "dialled (after_read st) = dialled st" "hung_up (after_read st) = hung_up st"
  "closing_goroutine (after_read st) = closing_goroutine st" "calls (after_read st) = calls st"
  "phase (after_read st) = (if closingTime st then Finished else Sleeping)"
  by (simp_all add: after_read_def Let_def)

lemma after_read_slept:
  "\<exists>ds. slept (after_read st) = slept st @ ds \<and> set ds \<subseteq> {300 * millisecond, 2 * second, 10 * second}"
  by (simp add: after_read_def Let_def)

lemma hang_up_frame [simp]:
  "client_cache (hang_up st) = client_cache st" "isList (hang_up st) = isList st"
  "closingTime (hang_up st) = closingTime st" "wsClient (hang_up st) = wsClient st"
  "dialled (hang_up st) = dialled st" "phase (hang_up st) = phase st" "slept (hang_up st) = slept st"
  "closing_goroutine (hang_up st) = closing_goroutine st" "calls (hang_up st) = calls st"
  "retryCount (hang_up st) = retryCount st"
  by (auto simp: hang_up_def split: option.split)

lemma on_message_frame [simp]:
  "isList (on_message J um m st) = isList st" "closingTime (on_message J um m st) = closingTime st"
  "wsClient (on_message J um m st) = wsClient st" "dialled (on_message J um m st) = dialled st"
  "hung_up (on_message J um m st) = hung_up st"
  "closing_goroutine (on_message J um m st) = closing_goroutine st"
  by (auto simp: on_message_def deliver_items_def split: prod.split sum.split)

text \<open>The connection in use is still open.\<close>

definition connected :: "'a client \<Rightarrow> bool" where
  "connected st \<longleftrightarrow> (case wsClient st of None \<Rightarrow> False | Some c \<Rightarrow> c \<notin> set (hung_up st))"

lemma on_message_connected [simp]: "connected (on_message J um m st) = connected st"
  by (simp add: connected_def split: option.split)

section \<open>Connections\<close>

text \<open>Connections are numbered in the order they are made, the current one is the last.\<close>

definition client_ok :: "'a client \<Rightarrow> bool" where
  "client_ok st \<longleftrightarrow>
     list_all (\<lambda>c. c < dialled st) (hung_up st) \<and>
     (\<forall>c. wsClient st = Some c \<longrightarrow> Suc c = dialled st)"

lemma client_ok_start: "client_ok (Subscribe_start path)"
  by (simp add: client_ok_def Subscribe_start_def)

lemma client_step_ok:
  assumes "client_ok st" "client_step J um e st = Some st'"
  shows "client_ok st'"
proof (cases e)
  case DialOk
  then show ?thesis using assms by (auto simp: client_ok_def list_all_iff less_SucI split: if_splits)
next
  case DialFails
  then show ?thesis using assms by (auto simp: client_ok_def split: if_splits)
next
  case (Frame m)
  then have "st' = on_message J um m st" using assms(2) by (simp split: if_splits)
  then show ?thesis using assms(1) by (auto simp: client_ok_def split: option.splits)
next
  case ReadFails
  then show ?thesis using assms
    by (auto simp: client_ok_def hang_up_def split: if_splits option.splits)
next
  case Closing
  then show ?thesis using assms
    by (auto simp: client_ok_def hang_up_def split: if_splits option.splits)
qed (use assms in \<open>auto simp: client_ok_def split: if_splits\<close>)

lemma client_run_ok: "client_run J um es st = Some st' \<Longrightarrow> client_ok st \<Longrightarrow> client_ok st'"
  by (rule client_run_invariant [where I = client_ok]) (auto intro: client_step_ok)

text \<open>A step closes no connection but the current one.\<close>

lemma client_step_hung_up:
  "client_step J um e a = Some b \<Longrightarrow>
     dialled a \<le> dialled b \<and> set (hung_up b) \<subseteq> set (hung_up a) \<union> {x. wsClient a = Some x}"
  by (cases e) (auto simp: hang_up_def split: if_splits option.splits)

section \<open>Frames\<close>

text \<open>What one accepted frame does.\<close>

lemma on_message_Reading:
  assumes "phase st = Reading" "phase (on_message J um m st) = Reading"
  shows "client_cache (on_message J um m st) = fst (PatchCache J m (client_cache st)) \<and>
    retryCount (on_message J um m st) = 0 \<and>
    (\<exists>items. calls (on_message J um m st) = calls st @ [items] \<and>
      (if isList st
       then \<exists>objs. DecodeList J (client_cache (on_message J um m st)) = Inr objs \<and> items = decode_items um objs
       else \<exists>obj item. Decode_object J (client_cache (on_message J um m st)) = Inr obj \<and>
         um (Data obj) = Inr item \<and> items = [meta_of obj item]))"
  using assms
  by (auto simp: on_message_def PatchList_def Patch_message_def deliver_items_def
      split: prod.splits sum.splits option.splits if_splits)

lemma frames_Reading:
  assumes "client_run J um (map Frame frames) st = Some st'" "phase st' = Reading" "frames \<noteq> []"
  shows "phase st = Reading"
  using assms by (cases frames) (auto split: if_splits)

lemma client_frames:
  assumes "client_run J um (map Frame frames) st = Some st'" "phase st' = Reading"
  shows "client_cache st' = replay J frames (client_cache st) \<and>
    length (calls st') = length (calls st) + length frames \<and> isList st' = isList st \<and>
    (frames \<noteq> [] \<longrightarrow> retryCount st' = 0 \<and>
      (if isList st
       then \<exists>objs. DecodeList J (client_cache st') = Inr objs \<and> last (calls st') = decode_items um objs
       else \<exists>obj item. Decode_object J (client_cache st') = Inr obj \<and>
         um (Data obj) = Inr item \<and> last (calls st') = [meta_of obj item]))"
  using assms
proof (induction frames arbitrary: st' rule: rev_induct)
  case (snoc m frames)
  obtain st1 where st1: "client_run J um (map Frame frames) st = Some st1" "client_step J um (Frame m) st1 = Some st'"
    using snoc.prems(1) by (auto simp: client_run_append split: option.splits)
  then have r: "phase st1 = Reading" and st': "st' = on_message J um m st1"
    by (auto split: if_splits)
  from snoc.IH [OF st1(1) r] on_message_Reading [OF r, of J um m] snoc.prems(2)
  show ?case by (auto simp: st')
qed simp

section \<open>Properties\<close>

text \<open>
  C14: one callback for each message, with the patched document. When a subscription has read some frames
  and is still reading, its cache is the result of applying the frames in order to the cache it had, it has
  called back once for each, and the last call has the items of the cached document: the decodable ones of
  the list, in its order, or the single object; and the count of retries is back to zero.
\<close>

theorem client_follows_frames:
  assumes "client_run J um (map Frame frames) st = Some st'" "phase st' = Reading" "frames \<noteq> []"
  shows "client_cache st' = replay J frames (client_cache st) \<and>
    length (calls st') = length (calls st) + length frames \<and> retryCount st' = 0 \<and>
    (if isList st
     then \<exists>objs. DecodeList J (client_cache st') = Inr objs \<and> last (calls st') = decode_items um objs
     else \<exists>obj item. Decode_object J (client_cache st') = Inr obj \<and>
       um (Data obj) = Inr item \<and> last (calls st') = [meta_of obj item])"
  using client_frames [OF assms(1,2)] assms(3) by blast

text \<open>A subscription of \<^verbatim>\<open>box\<close> that has connected, and a first frame for it.\<close>

definition example_client :: "string client" where
  "example_client = (Subscribe_start ''box'')\<lparr>wsClient := Some 0, dialled := 1, phase := Reading\<rparr>"

definition example_object :: Object where
  "example_object = \<lparr>Created = 7, Updated = 0, Index = ''box'', Data = ''e30=''\<rparr>"

definition example_frame :: string where
  "example_frame = frame (Encode ref_wire (object_text example_object)) True 7"

lemma example_object_safe: "safe_object example_object"
  by (simp add: safe_object_def example_object_def json_safe_def json_safe_char_def)

lemma decode_braces: "DecodeString ''e30='' = Some ''{}''"
  by code_simp

lemma object_text_trim: "strings_Trim (object_text obj) newline = object_text obj"
  by (rule strings_Trim_id) (simp add: object_text_def)

lemma ref_decode_object_text:
  "safe_object obj \<Longrightarrow> Decode_object ref_wire (object_text obj) =
     (case DecodeString (Data obj) of None \<Rightarrow> Inl (Error ''illegal base64 data'') | Some raw \<Rightarrow> Inr (obj\<lparr>Data := raw\<rparr>))"
proof -
  assume safe: "safe_object obj"
  have "ref_unmarshal_object (object_text obj) = Inr obj" using safe by (rule ref_unmarshal_object_plain)
  then show ?thesis by (simp add: Decode_object_def ref_wire_def split: option.split)
qed

lemma example_frame_patch: "PatchCache ref_wire example_frame document = (object_text example_object, None)"
  unfolding example_frame_def
  by (simp add: PatchCache_frame_snapshot [OF ref_wire_laws] object_text_trim)

lemma LastIndex_box: "LastIndex ''box'' = ''box''"
  by code_simp

lemma example_decoded: "Decode_object ref_wire (object_text example_object) = Inr (example_object\<lparr>Data := ''{}''\<rparr>)"
proof -
  have "Data example_object = ''e30=''" by (simp add: example_object_def)
  with ref_decode_object_text [OF example_object_safe] decode_braces show ?thesis by (simp only: option.case)
qed

lemma example_client_frame:
  "on_message ref_wire Inr example_frame example_client =
     example_client\<lparr>client_cache := object_text example_object,
       calls := [[\<lparr>MetaCreated = 7, MetaUpdated = 0, MetaIndex = ''box'', MetaData = ''{}''\<rparr>]]\<rparr>"
proof -
  have fields: "Created example_object = 7" "Updated example_object = 0" "Index example_object = ''box''"
    by (simp_all add: example_object_def)
  have "Patch_message ref_wire example_frame document =
      (object_text example_object, Inr (example_object\<lparr>Data := ''{}''\<rparr>))" for document
    by (simp add: Patch_message_def example_frame_patch example_decoded)
  then show ?thesis
    by (simp add: on_message_def example_client_def Subscribe_start_def LastIndex_box deliver_items_def meta_of_def fields)
qed

lemma example_client_connected: "connected example_client" "phase example_client = Reading"
  by (simp_all add: connected_def example_client_def Subscribe_start_def)

theorem client_follows_frames_witness:
  "\<exists>st. client_run ref_wire Inr (map Frame [example_frame]) example_client = Some st \<and> length (calls st) = 1 \<and>
    client_cache st = replay ref_wire [example_frame] ''''"
proof -
  have run: "client_run ref_wire Inr (map Frame [example_frame]) example_client =
      Some (on_message ref_wire Inr example_frame example_client)"
    using example_client_connected by simp
  have "phase (on_message ref_wire Inr example_frame example_client) = Reading"
    by (simp add: example_client_frame example_client_connected)
  from client_follows_frames [OF run this] run show ?thesis
    by (simp add: example_client_def Subscribe_start_def)
qed

section \<open>Retries\<close>

definition retry_delay :: "int \<Rightarrow> int" where
  "retry_delay n = (if n < 30 then 300 * millisecond else if n < 100 then 2 * second else 10 * second)"

lemma lost_connection:
  assumes "phase st = Dialing" "\<not> closingTime st"
  shows "\<exists>st'. client_run J um [DialOk, ReadFails, Wake] st = Some st' \<and> phase st' = Dialing \<and> \<not> closingTime st' \<and>
    retryCount st' = retryCount st + 1 \<and> slept st' = slept st @ [retry_delay (retryCount st + 1)] \<and>
    dialled st' = Suc (dialled st) \<and> calls st' = calls st \<and> client_cache st' = client_cache st \<and>
    hung_up st' = hung_up st @ [dialled st]"
  using assms by (simp add: after_read_def Let_def retry_delay_def hang_up_def)

text \<open>
  C23: the waits between dials. While the context lasts, every connection that is lost before a message
  arrives counts one retry, is closed, and is followed by a wait of 300 ms up to the 29th retry in a row,
  2 s up to the 99th and 10 s from then on, after which the client dials again, without a call in between
  and with its cache kept.
\<close>

theorem reconnect_delays:
  assumes "phase st = Dialing" "\<not> closingTime st"
  shows "\<exists>st'. client_run J um (concat (replicate n [DialOk, ReadFails, Wake])) st = Some st' \<and>
    phase st' = Dialing \<and> \<not> closingTime st' \<and> retryCount st' = retryCount st + int n \<and>
    slept st' = slept st @ map (\<lambda>k. let r = retryCount st + int k in
      if r < 30 then 300 * millisecond else if r < 100 then 2 * second else 10 * second) [1..<Suc n] \<and>
    dialled st' = dialled st + n \<and> hung_up st' = hung_up st @ [dialled st..<dialled st + n] \<and>
    calls st' = calls st \<and> client_cache st' = client_cache st"
proof (induction n)
  case 0
  then show ?case using assms by simp
next
  case (Suc n)
  then obtain st1 where st1: "client_run J um (concat (replicate n [DialOk, ReadFails, Wake])) st = Some st1"
      "phase st1 = Dialing" "\<not> closingTime st1" "retryCount st1 = retryCount st + int n"
      "slept st1 = slept st @ map (\<lambda>k. let r = retryCount st + int k in
        if r < 30 then 300 * millisecond else if r < 100 then 2 * second else 10 * second) [1..<Suc n]"
      "dialled st1 = dialled st + n" "hung_up st1 = hung_up st @ [dialled st..<dialled st + n]"
      "calls st1 = calls st" "client_cache st1 = client_cache st"
    by blast
  obtain st2 where st2: "client_run J um [DialOk, ReadFails, Wake] st1 = Some st2"
      "phase st2 = Dialing" "\<not> closingTime st2" "retryCount st2 = retryCount st1 + 1"
      "slept st2 = slept st1 @ [retry_delay (retryCount st1 + 1)]" "dialled st2 = Suc (dialled st1)"
      "calls st2 = calls st1" "client_cache st2 = client_cache st1" "hung_up st2 = hung_up st1 @ [dialled st1]"
    using lost_connection [OF st1(2,3), of J um] by blast
  have "replicate (Suc n) [DialOk, ReadFails, Wake] = replicate n [DialOk, ReadFails, Wake] @ [[DialOk, ReadFails, Wake]]"
    by (simp add: replicate_append_same)
  then have "client_run J um (concat (replicate (Suc n) [DialOk, ReadFails, Wake])) st = Some st2"
    using st1(1) st2(1) by (simp only: concat_append concat.simps append_Nil2 client_run_append option.case)
  then show ?case
    using st1 st2 by (intro exI [of _ st2]) (simp add: Let_def retry_delay_def add.commute add.left_commute)
qed

theorem reconnect_delays_witness:
  "\<exists>st. client_run ref_wire (Inr :: string \<Rightarrow> string result) (concat (replicate 2 [DialOk, ReadFails, Wake]))
      (Subscribe_start ''box'') = Some st \<and> slept st = [300 * millisecond, 300 * millisecond]"
proof -
  have start: "phase (Subscribe_start ''box'' :: string client) = Dialing" "\<not> closingTime (Subscribe_start ''box'' :: string client)"
    by (simp_all add: Subscribe_start_def)
  from reconnect_delays [where n = 2, OF start, of ref_wire Inr] show ?thesis
    by (auto simp: Subscribe_start_def upt_rec)
qed

section \<open>The end of the context\<close>

text \<open>A finished subscription never does anything again, whatever happens.\<close>

lemma Finished_stays:
  assumes "client_run J um es st = Some st'" "phase st = Finished"
  shows "phase st' = Finished \<and> calls st' = calls st \<and> slept st' = slept st \<and> dialled st' = dialled st"
proof (rule client_run_invariant [where I = "\<lambda>a. phase a = Finished \<and> calls a = calls st \<and> slept a = slept st \<and>
      dialled a = dialled st", OF assms(1)])
  fix e and a b :: "'a client"
  assume "phase a = Finished \<and> calls a = calls st \<and> slept a = slept st \<and> dialled a = dialled st"
    "client_step J um e a = Some b"
  then show "phase b = Finished \<and> calls b = calls st \<and> slept b = slept st \<and> dialled b = dialled st"
    by (cases e) (auto split: if_splits)
qed (use assms(2) in simp)

lemma closing_after_read: "closingTime st \<Longrightarrow> after_read st = st\<lparr>phase := Finished\<rparr>"
  by (simp add: after_read_def)

lemma on_message_closing:
  "closingTime st \<Longrightarrow> phase st = Reading \<Longrightarrow>
     phase (on_message J um m st) \<in> {Reading, Finished} \<and> slept (on_message J um m st) = slept st"
  by (auto simp: on_message_def deliver_items_def closing_after_read split: prod.split sum.split)

text \<open>
  C24: the end of the context ends a subscription that is reading. The waiting goroutine closes the
  connection. Frames that had arrived may still be read; the first read that fails, or the first frame that
  cannot be applied, ends the loop with no other wait or dial, and after that there is no wait, dial or call
  any more, whatever happens.
\<close>

theorem cancel_ends_reading:
  assumes "phase st = Reading" "wsClient st = Some c" "closing_goroutine st = Waiting"
    and "client_run J um ([Cancelled, Closing] @ map Frame frames) st = Some st1"
  shows "c \<in> set (hung_up st1) \<and> slept st1 = slept st \<and> dialled st1 = dialled st \<and>
    (phase st1 = Finished \<or>
     (\<exists>st2. phase st1 = Reading \<and> client_step J um ReadFails st1 = Some st2 \<and> phase st2 = Finished \<and>
        calls st2 = calls st1 \<and> slept st2 = slept st \<and>
        (\<forall>es st3. client_run J um es st2 = Some st3 \<longrightarrow>
           phase st3 = Finished \<and> calls st3 = calls st2 \<and> slept st3 = slept st \<and> dialled st3 = dialled st)))"
proof -
  let ?st = "hang_up (st\<lparr>closingTime := True, closing_goroutine := Ended\<rparr>)"
  let ?I = "\<lambda>a. closingTime a \<and> wsClient a = Some c \<and> c \<in> set (hung_up a) \<and> slept a = slept st \<and>
    dialled a = dialled st \<and> phase a \<in> {Reading, Finished}"
  have run: "client_run J um (map Frame frames) ?st = Some st1" using assms(3,4) by simp
  have start: "?I ?st" using assms(1,2) by (simp add: hang_up_def)
  have "?I a \<Longrightarrow> client_run J um (map Frame frames) a = Some st1 \<Longrightarrow> ?I st1" for a
  proof (induction frames arbitrary: a)
    case (Cons m frames)
    then have r: "phase a = Reading" by (auto split: if_splits)
    with Cons.prems on_message_closing [of a J um m] show ?case by (intro Cons.IH [of "on_message J um m a"]) simp_all
  qed simp
  from this [OF start run] have I: "?I st1" .
  let ?st2 = "after_read (hang_up st1)"
  have "phase ?st2 = Finished" "slept ?st2 = slept st" "dialled ?st2 = dialled st" "calls ?st2 = calls st1"
    using I by (simp_all add: closing_after_read)
  with I Finished_stays [where st = ?st2 and J = J and um = um] show ?thesis by auto
qed

theorem cancel_ends_reading_witness:
  "\<exists>st. client_run ref_wire Inr [Cancelled, Closing, Frame example_frame, ReadFails] example_client = Some st \<and>
    phase st = Finished \<and> length (calls st) = 1"
proof -
  let ?closed = "hang_up (example_client\<lparr>closingTime := True, closing_goroutine := Ended\<rparr>)"
  let ?st = "on_message ref_wire Inr example_frame ?closed"
  have st: "phase example_client = Reading" "wsClient example_client = Some 0"
      "closing_goroutine example_client = Waiting"
    by (simp_all add: example_client_def Subscribe_start_def)
  have run: "client_run ref_wire Inr ([Cancelled, Closing] @ map Frame [example_frame]) example_client = Some ?st"
    using st by simp
  have "\<not> isList ?closed" "phase ?closed = Reading" "calls ?closed = []"
    by (simp_all add: example_client_def Subscribe_start_def LastIndex_box)
  then have r: "phase ?st = Reading" "length (calls ?st) = 1"
    by (simp_all add: on_message_def Patch_message_def example_frame_patch example_decoded deliver_items_def)
  from cancel_ends_reading [OF st run] r(1) obtain st2 where st2: "client_step ref_wire Inr ReadFails ?st = Some st2"
      "phase st2 = Finished" "calls st2 = calls ?st"
    by auto
  have "client_run ref_wire Inr (([Cancelled, Closing] @ map Frame [example_frame]) @ [ReadFails]) example_client = Some st2"
    by (simp only: client_run_append [of _ _ "[Cancelled, Closing] @ map Frame [example_frame]"] run option.case)
      (simp only: client_run.simps st2(1) option.case)
  with st2(2,3) r(2) show ?thesis by auto
qed

text \<open>
  C37: the end of the context is missed between connections. The loop looks at the context only when a
  read loop has ended, and the goroutine closes only the connection there is. When the context ends while
  there is none, the client goes on dialling for as long as dials fail; and when a dial succeeds, it reads
  and calls back as before, on a connection nothing will close.
\<close>

theorem cancel_missed_while_dialling:
  assumes "client_ok st" "phase st = Dialing" "closing_goroutine st = Waiting"
  shows "(\<exists>st'. client_run J um (Cancelled # Closing # concat (replicate n [DialFails, Wake])) st = Some st' \<and>
      closingTime st' \<and> phase st' = Dialing \<and> length (slept st') = length (slept st) + n) \<and>
    (\<exists>st'. client_run J um [Cancelled, Closing, DialOk] st = Some st' \<and> closingTime st' \<and>
      closing_goroutine st' = Ended \<and> phase st' = Reading \<and> connected st' \<and>
      client_step J um (Frame m) st' = Some (on_message J um m st') \<and>
      client_cache st' = client_cache st \<and> isList st' = isList st)"
proof
  let ?st1 = "hang_up (st\<lparr>closingTime := True, closing_goroutine := Ended\<rparr>)"
  have run: "client_run J um (Cancelled # Closing # es) st = client_run J um es ?st1" for es
    using assms(3) by simp
  have fails: "\<exists>st'. client_run J um (concat (replicate n [DialFails, Wake])) a = Some st' \<and> closingTime st' \<and>
      phase st' = Dialing \<and> length (slept st') = length (slept a) + n"
    if "phase a = Dialing" "closingTime a" for a :: "'a client"
    using that
  proof (induction n arbitrary: a)
    case (Suc n)
    let ?a = "a\<lparr>wsClient := None, slept := slept a @ [2 * second], phase := Dialing\<rparr>"
    from Suc.IH [of ?a] Suc.prems show ?case by auto
  qed simp
  show "\<exists>st'. client_run J um (Cancelled # Closing # concat (replicate n [DialFails, Wake])) st = Some st' \<and>
      closingTime st' \<and> phase st' = Dialing \<and> length (slept st') = length (slept st) + n"
    using fails [of ?st1] assms(2) unfolding run by simp
  have new: "dialled st \<notin> set (hung_up ?st1)"
    using assms(1) by (auto simp: client_ok_def hang_up_def list_all_iff split: option.split)
  show "\<exists>st'. client_run J um [Cancelled, Closing, DialOk] st = Some st' \<and> closingTime st' \<and>
      closing_goroutine st' = Ended \<and> phase st' = Reading \<and> connected st' \<and>
      client_step J um (Frame m) st' = Some (on_message J um m st') \<and>
      client_cache st' = client_cache st \<and> isList st' = isList st"
    using assms(2,3) new by (simp add: connected_def)
qed

theorem cancel_missed_while_dialling_witness:
  "\<exists>st. client_run ref_wire Inr [Cancelled, Closing, DialOk, Frame example_frame] (Subscribe_start ''box'') = Some st \<and>
    closingTime st \<and> phase st = Reading \<and> length (calls st) = 1"
proof -
  let ?st = "Subscribe_start ''box'' :: string client"
  have st: "client_ok ?st" "phase ?st = Dialing" "closing_goroutine ?st = Waiting"
    by (rule client_ok_start) (simp_all add: Subscribe_start_def)
  obtain st1 where st1: "client_run ref_wire Inr [Cancelled, Closing, DialOk] ?st = Some st1" "closingTime st1"
      "client_step ref_wire Inr (Frame example_frame) st1 = Some (on_message ref_wire Inr example_frame st1)"
      "client_cache st1 = ''''" "isList st1 = isList ?st" "phase st1 = Reading"
    using cancel_missed_while_dialling [where J = ref_wire and um = Inr and m = example_frame, OF st]
    by (auto simp: Subscribe_start_def)
  have "calls st1 = []" using st1(1) by (auto simp: Subscribe_start_def hang_up_def)
  moreover have "\<not> isList st1" using st1(5) by (simp add: Subscribe_start_def LastIndex_box)
  ultimately have "phase (on_message ref_wire Inr example_frame st1) = Reading \<and>
      length (calls (on_message ref_wire Inr example_frame st1)) = 1"
    using st1(6) by (simp add: on_message_def Patch_message_def example_frame_patch example_decoded deliver_items_def)
  moreover have "client_run ref_wire Inr ([Cancelled, Closing, DialOk] @ [Frame example_frame]) ?st =
      Some (on_message ref_wire Inr example_frame st1)"
    unfolding client_run_append st1(1) using st1(3) by simp
  ultimately show ?thesis using st1(2) by auto
qed

text \<open>
  C38: a message that cannot be applied leaks its connection. The read loop ends without closing the
  connection; the client waits, dials again and forgets the old one, which no later event closes.
\<close>

theorem bad_message_leaks_connection:
  assumes "client_ok st" "phase st = Reading" "wsClient st = Some c" "c \<notin> set (hung_up st)" "\<not> closingTime st"
    and "(if isList st then \<exists>err. snd (PatchList J m (client_cache st)) = Inl err
      else \<exists>err. snd (Patch_message J m (client_cache st)) = Inl err)"
  shows "\<exists>st'. client_run J um [Frame m, Wake, DialOk] st = Some st' \<and> wsClient st' = Some (Suc c) \<and>
    (\<forall>es st''. client_run J um es st' = Some st'' \<longrightarrow> c \<notin> set (hung_up st''))"
proof -
  have bad: "phase (on_message J um m st) = Sleeping"
    using assms(5,6) by (auto simp: on_message_def split: prod.splits)
  have d: "dialled st = Suc c" using assms(1,3) by (simp add: client_ok_def)
  let ?st' = "(on_message J um m st)\<lparr>wsClient := Some (Suc c), dialled := Suc (Suc c), phase := Reading\<rparr>"
  have run: "client_run J um [Frame m, Wake, DialOk] st = Some ?st'"
    using assms(2-4) bad d by (simp add: connected_def)
  have "c \<notin> set (hung_up st'')" if "client_run J um es ?st' = Some st''" for es st''
  proof -
    let ?I = "\<lambda>a. client_ok a \<and> Suc c < dialled a \<and> c \<notin> set (hung_up a)"
    have "?I ?st'" using assms(1,4) d by (auto simp: client_ok_def list_all_iff less_SucI)
    moreover have "?I b" if "?I a" "client_step J um e a = Some b" for e and a b :: "'a client"
    proof -
      have "Suc x = dialled a" if "wsClient a = Some x" for x
        using \<open>?I a\<close> that by (simp add: client_ok_def)
      then show ?thesis
        using that client_step_ok [of a J um e b] client_step_hung_up [of J um e a b] by fastforce
    qed
    ultimately have "?I st''" by (intro client_run_invariant [where I = ?I, OF that]) blast+
    then show ?thesis by simp
  qed
  with run show ?thesis by (intro exI [of _ ?st']) simp
qed

theorem bad_message_leaks_connection_witness:
  "\<exists>st. client_run ref_wire (Inr :: string \<Rightarrow> string result) [Frame ''junk'', Wake, DialOk] example_client = Some st \<and>
    wsClient st = Some 1 \<and> hung_up st = []"
proof -
  have st: "client_ok example_client" "phase example_client = Reading" "wsClient example_client = Some 0"
      "0 \<notin> set (hung_up example_client)" "\<not> closingTime example_client"
    by (simp_all add: client_ok_def example_client_def Subscribe_start_def)
  have "snd (Patch_message ref_wire ''junk'' '''') = Inl json_error"
    by (simp add: Patch_message_def PatchCache_def DecodeBuffer_def ref_wire_def ref_unmarshal_message_def)
  then have bad: "if isList example_client then \<exists>err. snd (PatchList ref_wire ''junk'' (client_cache example_client)) = Inl err
      else \<exists>err. snd (Patch_message ref_wire ''junk'' (client_cache example_client)) = Inl err"
    by (simp add: example_client_def Subscribe_start_def LastIndex_box)
  from bad_message_leaks_connection [OF st bad, of Inr] show ?thesis
    using st by (auto simp: example_client_def Subscribe_start_def split: if_splits)
qed

section \<open>Several subscriptions\<close>

text \<open>
  C21: the callback of several subscriptions. In every run of two, three or four of them, each call
  announces exactly one new message; the calls announce the messages of each subscription once and in the
  order in which it offered them, those not yet announced wait in its channel, ten at most; and between its
  announcements the state of a subscription is the last announced one, empty before the first.
\<close>

theorem multiple_subscriptions:
  assumes "run_events SubscribeMultiple2_step es2 SubscribeMultiple2_start = Some s2"
    and "run_events SubscribeMultiple3_step es3 SubscribeMultiple3_start = Some s3"
    and "run_events SubscribeMultiple4_step es4 SubscribeMultiple4_start = Some s4"
  shows "list_all (\<lambda>(a, b). one_of [Updated_flag a, Updated_flag b]) (calls2 s2) \<and>
    column_follows (concat (map offered2_1 es2)) (ch2_1 s2) (column2_1 s2) \<and>
    column_follows (concat (map offered2_2 es2)) (ch2_2 s2) (column2_2 s2) \<and>
    list_all (\<lambda>(a, b, c). one_of [Updated_flag a, Updated_flag b, Updated_flag c]) (calls3 s3) \<and>
    column_follows (concat (map offered3_1 es3)) (ch3_1 s3) (column3_1 s3) \<and>
    column_follows (concat (map offered3_2 es3)) (ch3_2 s3) (column3_2 s3) \<and>
    column_follows (concat (map offered3_3 es3)) (ch3_3 s3) (column3_3 s3) \<and>
    list_all (\<lambda>(a, b, c, d). one_of [Updated_flag a, Updated_flag b, Updated_flag c, Updated_flag d]) (calls4 s4) \<and>
    column_follows (concat (map offered4_1 es4)) (ch4_1 s4) (column4_1 s4) \<and>
    column_follows (concat (map offered4_2 es4)) (ch4_2 s4) (column4_2 s4) \<and>
    column_follows (concat (map offered4_3 es4)) (ch4_3 s4) (column4_3 s4) \<and>
    column_follows (concat (map offered4_4 es4)) (ch4_4 s4) (column4_4 s4)"
proof -
  have "list_all (\<lambda>(a, b). one_of [Updated_flag a, Updated_flag b]) (calls2 s2)"
    by (rule run2_one [OF assms(1)]) (simp add: SubscribeMultiple2_start_def)
  moreover note slot2_1.run_from_start [OF assms(1)] slot2_2.run_from_start [OF assms(1)]
  moreover have "list_all (\<lambda>(a, b, c). one_of [Updated_flag a, Updated_flag b, Updated_flag c]) (calls3 s3)"
    by (rule run3_one [OF assms(2)]) (simp add: SubscribeMultiple3_start_def)
  moreover note slot3_1.run_from_start [OF assms(2)] slot3_2.run_from_start [OF assms(2)] slot3_3.run_from_start [OF assms(2)]
  moreover have "list_all (\<lambda>(a, b, c, d). one_of [Updated_flag a, Updated_flag b, Updated_flag c, Updated_flag d]) (calls4 s4)"
    by (rule run4_one [OF assms(3)]) (simp add: SubscribeMultiple4_start_def)
  moreover note slot4_1.run_from_start [OF assms(3)] slot4_2.run_from_start [OF assms(3)] slot4_3.run_from_start [OF assms(3)] slot4_4.run_from_start [OF assms(3)]
  ultimately show ?thesis by (simp add: column_follows_def)
qed

definition example_meta :: "string Meta" where
  "example_meta = \<lparr>MetaCreated = 7, MetaUpdated = 0, MetaIndex = ''box'', MetaData = ''{}''\<rparr>"

theorem multiple_subscriptions_witness:
  "\<exists>s. run_events SubscribeMultiple2_step [Offer2_1 [example_meta], Offer2_2 [example_meta], Take2_2]
      (SubscribeMultiple2_start :: (string, string) multi2) = Some s \<and>
    length (calls2 s) = 1 \<and> ch2_1 s = [[example_meta]] \<and> column_follows [[example_meta]] [] (column2_2 s)"
proof -
  let ?es = "[Offer2_1 [example_meta], Offer2_2 [example_meta], Take2_2] :: (string, string) event2 list"
  obtain s where s: "run_events SubscribeMultiple2_step ?es SubscribeMultiple2_start = Some s"
      "length (calls2 s) = 1" "ch2_1 s = [[example_meta]]" "ch2_2 s = []"
    by (simp add: SubscribeMultiple2_start_def capacity_def)
  have three: "run_events SubscribeMultiple3_step [] SubscribeMultiple3_start = Some SubscribeMultiple3_start"
    and four: "run_events SubscribeMultiple4_step [] SubscribeMultiple4_start = Some SubscribeMultiple4_start"
    by simp_all
  have "column_follows (concat (map offered2_2 ?es)) (ch2_2 s) (column2_2 s)"
    using multiple_subscriptions [OF s(1) three four] by blast
  then have "column_follows [[example_meta]] [] (column2_2 s)" by (simp add: s(4))
  with s show ?thesis by blast
qed

end
