(* ===== verification/TypedIO.thy ===== *)
theory TypedIO
  imports Client Base64 Server
begin

text \<open>
  \<^verbatim>\<open>src/io/local.go\<close> and \<^verbatim>\<open>src/io/remote.go\<close>: typed access to a server's storage, from the same
  process and over HTTP.

  The JSON codec of the item type is a pair of arguments, \<open>marshal\<close> and \<open>unmarshal\<close>. The base64 is
  the standard library's. The HTTP client is a record of two functions over the state of the world it acts
  on: a post gives an error if the request fails, a get gives an error if the request fails, then what
  reading its body gives. A function that returns an error returns an empty value with it. The storage of the
  server is the default one. Logging is left out.
\<close>

section \<open>Local access\<close>

definition Local_GetList ::
  "'c codec_scheme \<Rightarrow> (string \<Rightarrow> 'a result) \<Rightarrow> Server \<Rightarrow> string \<Rightarrow> 'a Meta list result"
where
  "Local_GetList J unmarshal server path =
     (let lastPath = LastIndex path
      in if lastPath \<noteq> ''*'' then Inl (Error (''GetList['' @ path @ '']: path is not a list''))
         else
           (case MemoryStorage_Get J (app_Storage server) path of
              Inl err \<Rightarrow> Inl err
            | Inr raw \<Rightarrow>
                (case DecodeList J raw of
                   Inl err \<Rightarrow> Inl err
                 | Inr objs \<Rightarrow> Inr (decode_items unmarshal objs))))"

definition Local_Get ::
  "'c codec_scheme \<Rightarrow> (string \<Rightarrow> 'a result) \<Rightarrow> Server \<Rightarrow> string \<Rightarrow> 'a Meta result"
where
  "Local_Get J unmarshal server path =
     (let lastPath = LastIndex path
      in if lastPath = ''*'' then Inl (Error (''Get['' @ path @ '']: path is a list''))
         else
           (case MemoryStorage_Get J (app_Storage server) path of
              Inl err \<Rightarrow> Inl err
            | Inr raw \<Rightarrow>
                (case Decode_object J raw of
                   Inl err \<Rightarrow> Inl err
                 | Inr obj \<Rightarrow>
                     (case unmarshal (Data obj) of
                        Inl err \<Rightarrow> Inl err
                      | Inr item \<Rightarrow> Inr (meta_of obj item)))))"

definition Local_Set ::
  "'c codec_scheme \<Rightarrow> ('a \<Rightarrow> string result) \<Rightarrow> int64 \<Rightarrow> Server \<Rightarrow> string \<Rightarrow> 'a \<Rightarrow> (error option \<times> Server) outcome"
where
  "Local_Set J marshal now server path item =
     (let lastPath = LastIndex path
      in if lastPath = ''*'' then Returns (Some (Error (''Set['' @ path @ '']: path is a list'')), server)
         else
           (case marshal item of
              Inl err \<Rightarrow> Returns (Some err, server)
            | Inr jsonData \<Rightarrow>
                (let encoded = EncodeToString jsonData
                 in bind_outcome (MemoryStorage_Set J now (app_Storage server) path encoded)
                      (\<lambda>(index, db). Returns (None, server\<lparr>app_Storage := db\<rparr>)))))"

definition Local_Push ::
  "'c codec_scheme \<Rightarrow> ('a \<Rightarrow> string result) \<Rightarrow> int64 \<Rightarrow> int64 \<Rightarrow> Server \<Rightarrow> string \<Rightarrow> 'a \<Rightarrow>
     (error option \<times> Server) outcome"
where
  "Local_Push J marshal build_now now server path item =
     (let lastPath = LastIndex path
      in if lastPath \<noteq> ''*'' then Returns (Some (Error (''Push['' @ path @ '']: path is not a list'')), server)
         else
           (let builtPath = Build build_now path
            in case marshal item of
                 Inl err \<Rightarrow> Returns (Some err, server)
               | Inr jsonData \<Rightarrow>
                   (let encoded = EncodeToString jsonData
                    in bind_outcome (MemoryStorage_Set J now (app_Storage server) builtPath encoded)
                         (\<lambda>(index, db). Returns (None, server\<lparr>app_Storage := db\<rparr>)))))"

section \<open>Remote access\<close>

record PostBody =
  BodyData :: string

record 'w http_client =
  client_Post :: "string \<Rightarrow> string \<Rightarrow> string \<Rightarrow> 'w \<Rightarrow> error option \<times> 'w"
  client_Get :: "string \<Rightarrow> 'w \<Rightarrow> string result result \<times> 'w"

definition remote_url :: "bool \<Rightarrow> string \<Rightarrow> string \<Rightarrow> string" where
  "remote_url ssl host path =
     (if ssl then ''https://'' @ host @ ''/'' @ path else ''http://'' @ host @ ''/'' @ path)"

definition RemoteSet ::
  "(PostBody \<Rightarrow> string result) \<Rightarrow> ('a \<Rightarrow> string result) \<Rightarrow> 'w http_client \<Rightarrow> bool \<Rightarrow> string \<Rightarrow> string \<Rightarrow> 'a \<Rightarrow>
     'w \<Rightarrow> error option \<times> 'w"
where
  "RemoteSet marshal_body marshal client ssl host path item world =
     (let lastPath = LastIndex path
      in if lastPath = ''*'' then (Some (Error (''RemoteSet['' @ path @ '']: path is a list'')), world)
         else
           (case marshal item of
              Inl err \<Rightarrow> (Some err, world)
            | Inr jsonData \<Rightarrow>
                (let encoded = EncodeToString jsonData
                 in case marshal_body \<lparr>BodyData = encoded\<rparr> of
                      Inl err \<Rightarrow> (Some err, world)
                    | Inr jsonPostBodyData \<Rightarrow>
                        client_Post client (remote_url ssl host path) ''application/json'' jsonPostBodyData world)))"

definition RemotePush ::
  "(PostBody \<Rightarrow> string result) \<Rightarrow> ('a \<Rightarrow> string result) \<Rightarrow> int64 \<Rightarrow> 'w http_client \<Rightarrow> bool \<Rightarrow> string \<Rightarrow> string \<Rightarrow>
     'a \<Rightarrow> 'w \<Rightarrow> error option \<times> 'w"
where
  "RemotePush marshal_body marshal build_now client ssl host path item world =
     (let lastPath = LastIndex path
      in if lastPath \<noteq> ''*'' then (Some (Error (''RemotePush['' @ path @ '']: path is not a list'')), world)
         else
           (let builtPath = Build build_now path
            in case marshal item of
                 Inl err \<Rightarrow> (Some err, world)
               | Inr jsonData \<Rightarrow>
                   (let encoded = EncodeToString jsonData
                    in case marshal_body \<lparr>BodyData = encoded\<rparr> of
                         Inl err \<Rightarrow> (Some err, world)
                       | Inr jsonPostBodyData \<Rightarrow>
                           client_Post client (remote_url ssl host builtPath) ''application/json'' jsonPostBodyData world)))"

definition RemoteGet ::
  "'c codec_scheme \<Rightarrow> (string \<Rightarrow> 'a result) \<Rightarrow> 'w http_client \<Rightarrow> bool \<Rightarrow> string \<Rightarrow> string \<Rightarrow> 'w \<Rightarrow>
     'a Meta result \<times> 'w"
where
  "RemoteGet J unmarshal client ssl host path world0 =
     (let lastPath = LastIndex path
      in if lastPath = ''*'' then (Inl (Error (''GetFrom['' @ path @ '']: path is a list'')), world0)
         else
           (case client_Get client (remote_url ssl host path) world0 of
              (Inl err, world) \<Rightarrow> (Inl err, world)
            | (Inr (Inl err), world) \<Rightarrow> (Inl err, world)
            | (Inr (Inr body), world) \<Rightarrow>
                ((case Decode_object J body of
                    Inl err \<Rightarrow> Inl err
                  | Inr obj \<Rightarrow>
                      (case unmarshal (Data obj) of
                         Inl err \<Rightarrow> Inl err
                       | Inr item \<Rightarrow> Inr (meta_of obj item))), world)))"

definition RemoteGetList ::
  "'c codec_scheme \<Rightarrow> (string \<Rightarrow> 'a result) \<Rightarrow> 'w http_client \<Rightarrow> bool \<Rightarrow> string \<Rightarrow> string \<Rightarrow> 'w \<Rightarrow>
     'a Meta list result \<times> 'w"
where
  "RemoteGetList J unmarshal client ssl host path world0 =
     (let lastPath = LastIndex path
      in if lastPath \<noteq> ''*'' then (Inl (Error (''GetListFrom['' @ path @ '']: path is not a list'')), world0)
         else
           (case client_Get client (remote_url ssl host path) world0 of
              (Inl err, world) \<Rightarrow> (Inl err, world)
            | (Inr (Inl err), world) \<Rightarrow> (Inl err, world)
            | (Inr (Inr body), world) \<Rightarrow>
                ((case DecodeList J body of
                    Inl err \<Rightarrow> Inl err
                  | Inr objs \<Rightarrow> Inr (decode_items unmarshal objs)), world)))"

end
