(* ===== verification/IoProperties.thy ===== *)
theory IoProperties
  imports TypedIO ServerProperties
begin

text \<open>
  The properties of the typed access, locally and through the handlers of a server.
\<close>

section \<open>Encoding an item\<close>

text \<open>The base64 package decodes what the standard library encodes.\<close>

definition std_base64_law :: "'c codec_scheme \<Rightarrow> bool" where
  "std_base64_law J \<longleftrightarrow> (\<forall>s. base64_decode J (EncodeToString s) = Inr s)"

lemma ref_std_base64_law: "std_base64_law ref_wire"
  by (simp add: std_base64_law_def ref_wire_def DecodeString_EncodeToString)

lemma json_safe_EncodeToString: "json_safe (EncodeToString s)"
  using EncodeToString_set [of s] alphabet_safe by (auto simp: json_safe_def list_all_iff)

lemma LastIndex_no_star: "star \<notin> set path \<Longrightarrow> LastIndex path \<noteq> ''*''"
proof
  assume "star \<notin> set path" "LastIndex path = ''*''"
  moreover have "set (LastIndex path) \<subseteq> set path" by (simp add: LastIndex_def set_drop_subset)
  ultimately show False by auto
qed

lemma LastIndex_list: "LastIndex (p @ ''/*'') = ''*''"
  using LastIndex_append [of "''*''" p] by simp

lemma Decode_object_std:
  assumes "std_base64_law J" "DecodeRaw J s = Inr obj" "Data obj = EncodeToString raw"
  shows "Decode_object J s = Inr (obj\<lparr>Data := raw\<rparr>)"
  using assms by (simp add: Decode_object_def DecodeRaw_def std_base64_law_def)

section \<open>Decoding lists\<close>

definition decodable :: "'c codec_scheme \<Rightarrow> Object \<Rightarrow> bool" where
  "decodable J obj \<longleftrightarrow> (\<exists>raw. base64_decode J (Data obj) = Inr raw)"

definition decoded_data :: "'c codec_scheme \<Rightarrow> Object \<Rightarrow> Object" where
  "decoded_data J obj = obj\<lparr>Data := (case base64_decode J (Data obj) of Inl err \<Rightarrow> [] | Inr raw \<Rightarrow> raw)\<rparr>"

lemma DecodeListData_Inr:
  "list_all (decodable J) objs \<Longrightarrow> DecodeListData J objs = Inr (map (decoded_data J) objs)"
  by (induction objs) (auto simp: decodable_def decoded_data_def)

lemma DecodeListData_decodable: "DecodeListData J objs = Inr res \<Longrightarrow> list_all (decodable J) objs"
  by (induction objs arbitrary: res) (auto simp: decodable_def split: sum.splits)

lemma DecodeListData_iff:
  "DecodeListData J objs = Inr res \<longleftrightarrow> list_all (decodable J) objs \<and> res = map (decoded_data J) objs"
  using DecodeListData_Inr [of J objs] DecodeListData_decodable [of J objs res] by auto

lemma mset_decode_items:
  "mset (decode_items um objs) = (\<Sum>obj \<in># mset objs. mset (decode_items um [obj]))"
  by (induction objs) (auto split: sum.splits)

lemma decode_items_add:
  assumes "mset objs = add_mset obj (mset objs')" "um (Data obj) = Inr item"
  shows "mset (decode_items um objs) = add_mset (meta_of obj item) (mset (decode_items um objs'))"
  unfolding mset_decode_items [of um objs] mset_decode_items [of um objs'] assms(1) using assms(2) by simp

section \<open>Local round trips\<close>

text \<open>
  C22: a typed write reads back. Setting an item whose JSON decodes to it, at a key without a star,
  returns no error, and getting the key then gives the item with the key's last segment and the times of the
  first and of this write; getting any other key gives what it gave before.
\<close>

theorem local_set_then_get:
  assumes "storage_ready J (app_Storage server)" "std_base64_law J" "json_safe path" "star \<notin> set path"
    and "marshal item = Inr raw" "unmarshal raw = Inr item"
  shows "\<exists>server'. Local_Set J marshal now server path item = Returns (None, server') \<and>
    storage_ready J (app_Storage server') \<and>
    Local_Get J unmarshal server' path =
      Inr \<lparr>MetaCreated = (case mem_contents J (app_Storage server) path of None \<Rightarrow> now | Some old \<Rightarrow> Created old),
        MetaUpdated = (case mem_contents J (app_Storage server) path of None \<Rightarrow> 0 | Some old \<Rightarrow> now),
        MetaIndex = LastIndex path, MetaData = item\<rparr> \<and>
    (\<forall>other. other \<noteq> path \<longrightarrow> star \<notin> set other \<longrightarrow>
       Local_Get J unmarshal server' other = Local_Get J unmarshal server other)"
proof -
  have safe: "storable path (EncodeToString raw)"
    using assms(3) json_safe_EncodeToString by (simp add: storable_def)
  obtain db s where db: "MemoryStorage_Set J now (app_Storage server) path (EncodeToString raw) = Returns (LastIndex path, db)"
      "storage_ready J db" "MemoryStorage_Get J db path = Inr s"
      "DecodeRaw J s = Inr (stamp_object now (mem_contents J (app_Storage server) path) path (EncodeToString raw))"
    using memory.get_after_set [OF assms(1) safe assms(4), of now] by blast
  have set: "Local_Set J marshal now server path item = Returns (None, server\<lparr>app_Storage := db\<rparr>)"
    using LastIndex_no_star [OF assms(4)] assms(5) by (simp add: Local_Set_def Let_def db(1))
  have "Local_Get J unmarshal (server\<lparr>app_Storage := db\<rparr>) path =
      Inr (meta_of (stamp_object now (mem_contents J (app_Storage server) path) path raw) item)"
    using LastIndex_no_star [OF assms(4)] Decode_object_std [OF assms(2) db(4)] db(3) assms(6)
    by (simp add: Local_Get_def Let_def stamp_object_def)
  moreover have "Local_Get J unmarshal (server\<lparr>app_Storage := db\<rparr>) other = Local_Get J unmarshal server other"
    if "other \<noteq> path" "star \<notin> set other" for other
    using Set_other_key [OF db(1) that] by (simp add: Local_Get_def Let_def)
  ultimately show ?thesis
    using set db(2) by (intro exI [of _ "server\<lparr>app_Storage := db\<rparr>"]) (simp add: meta_of_def stamp_object_def)
qed

theorem local_set_then_get_witness:
  "\<exists>server. Local_Set ref_wire Inr 7 example_server ''box'' ''{}'' = Returns (None, server) \<and>
    Local_Get ref_wire Inr server ''box'' =
      Inr \<lparr>MetaCreated = 7, MetaUpdated = 0, MetaIndex = ''box'', MetaData = ''{}''\<rparr>"
proof -
  have ready: "storage_ready ref_wire (app_Storage example_server)"
    using fresh_storage_ready by (simp add: example_server_value)
  have path: "json_safe ''box''" "star \<notin> set ''box''" by (simp_all add: json_safe_def json_safe_char_def)
  have codec: "(Inr :: string \<Rightarrow> string result) ''{}'' = Inr ''{}''" by simp
  from local_set_then_get [where marshal = Inr and unmarshal = Inr and now = 7 and item = "''{}''" and raw = "''{}''",
      OF ready ref_std_base64_law path codec codec] show ?thesis
    using example_publish_guards(5) by (auto simp: example_server_value)
qed

text \<open>
  A typed push adds one element. Pushing an item whose JSON decodes to it to a list \<open>p/*\<close> that can
  be read returns no error; the list can then be read and has exactly the elements it had and the item,
  created now, with the clock in base 16 as index.
\<close>

theorem local_push_then_get_list:
  assumes "storage_ready J (app_Storage server)" "std_base64_law J" "json_safe p" "star \<notin> set p"
    and "marshal item = Inr raw" "unmarshal raw = Inr item"
    and "mem_contents J (app_Storage server) (p @ slash # FormatInt build_now 16) = None"
    and "plain_pattern p" "0 \<le> sint build_now"
    and "Local_GetList J unmarshal server (p @ ''/*'') = Inr before"
  shows "\<exists>server' after. Local_Push J marshal build_now now server (p @ ''/*'') item = Returns (None, server') \<and>
    Local_GetList J unmarshal server' (p @ ''/*'') = Inr after \<and>
    mset after = add_mset \<lparr>MetaCreated = now, MetaUpdated = 0, MetaIndex = FormatInt build_now 16, MetaData = item\<rparr>
      (mset before)"
proof -
  let ?list = "p @ ''/*''" and ?key = "p @ slash # FormatInt build_now 16"
  let ?c = "mem_contents J (app_Storage server)"
  have b: "Build build_now ?list = ?key" using Build_list [OF assms(4)] .
  have last: "LastIndex ?key = FormatInt build_now 16" using LastIndex_Build_list [OF assms(4), of build_now] b by simp
  have star: "star \<in> set ?list" by simp
  have safe: "storable ?key (EncodeToString raw)"
    using assms(3) json_safe_EncodeToString json_safe_FormatInt
    by (simp add: storable_def json_safe_char_def)
  obtain db where db: "MemoryStorage_Set J now (app_Storage server) ?key (EncodeToString raw) = Returns (LastIndex ?key, db)"
      "storage_ready J db" "mem_contents J db = spec_op (OpSet now ?key (EncodeToString raw)) ?c"
    using memory.set_spec [OF assms(1) safe, of now] by blast
  let ?obj = "stamp_object now None ?key (EncodeToString raw)"
  obtain s objs where s: "MemoryStorage_Get J (app_Storage server) ?list = Inr s" "unmarshal_objects J s = Inr objs"
      "mset objs = image_mset (\<lambda>k. the (?c k)) (mset_set {k \<in> dom ?c. Match ?list k})"
    using memory.get_pattern [OF assms(1) star] by blast
  obtain s' objs' where s': "MemoryStorage_Get J db ?list = Inr s'" "unmarshal_objects J s' = Inr objs'"
      "mset objs' = image_mset (\<lambda>k. the (mem_contents J db k)) (mset_set {k \<in> dom (mem_contents J db). Match ?list k})"
    using memory.get_pattern [OF db(2) star] by blast
  have objs': "mset objs' = add_mset ?obj (mset objs)"
    unfolding s'(3) s(3) db(3)
    using list_grows [OF _ assms(7) finite_dom_mem_contents] Match_Build_list [OF assms(4) assms(8), of build_now] b assms(7,9)
    by simp
  have before: "list_all (decodable J) objs" "before = decode_items unmarshal (map (decoded_data J) objs)"
    using assms(10) s(1,2) by (auto simp: Local_GetList_def Let_def LastIndex_list DecodeList_def DecodeListData_iff
        split: sum.splits if_splits)
  have "decodable J ?obj" "decoded_data J ?obj = stamp_object now None ?key raw"
    using assms(2) by (simp_all add: decodable_def decoded_data_def std_base64_law_def stamp_object_def)
  moreover have "set objs' = insert ?obj (set objs)" using arg_cong [OF objs', of set_mset] by simp
  ultimately have all: "list_all (decodable J) objs'" using before(1) by (auto simp: list_all_iff)
  have "mset (map (decoded_data J) objs') = add_mset (stamp_object now None ?key raw) (mset (map (decoded_data J) objs))"
    using objs' \<open>decoded_data J ?obj = _\<close> by simp
  then have "mset (decode_items unmarshal (map (decoded_data J) objs')) =
      add_mset (meta_of (stamp_object now None ?key raw) item) (mset before)"
    unfolding before(2) by (rule decode_items_add) (simp add: assms(6) stamp_object_def)
  moreover have "Local_GetList J unmarshal (server\<lparr>app_Storage := db\<rparr>) ?list =
      Inr (decode_items unmarshal (map (decoded_data J) objs'))"
    using all s'(1,2)
    by (simp add: Local_GetList_def Let_def LastIndex_list DecodeList_def DecodeListData_Inr)
  moreover have "Local_Push J marshal build_now now server ?list item = Returns (None, server\<lparr>app_Storage := db\<rparr>)"
    by (simp add: Local_Push_def Let_def LastIndex_list b assms(5) db(1))
  ultimately show ?thesis by (simp add: meta_of_def stamp_object_def last)
qed

theorem local_push_then_get_list_witness:
  "\<exists>server. Local_Push ref_wire Inr 5 7 example_server ''box/*'' ''{}'' = Returns (None, server) \<and>
    Local_GetList ref_wire Inr server ''box/*'' =
      Inr [\<lparr>MetaCreated = 7, MetaUpdated = 0, MetaIndex = FormatInt 5 16, MetaData = ''{}''\<rparr>]"
proof -
  have ready: "storage_ready ref_wire (app_Storage example_server)"
    using fresh_storage_ready by (simp add: example_server_value)
  have path: "json_safe ''box''" "star \<notin> set ''box''" "plain_pattern ''box''" "0 \<le> sint (5 :: int64)"
    by (simp_all add: json_safe_def json_safe_char_def)
  have codec: "(Inr :: string \<Rightarrow> string result) ''{}'' = Inr ''{}''" by simp
  have unused: "mem_contents ref_wire (app_Storage example_server) (''box'' @ slash # FormatInt 5 16) = None"
    by (simp add: example_server_value)
  have "star \<in> set (''box'' @ ''/*'')" by simp
  from memory.get_pattern [OF ready this] obtain s where
      s: "MemoryStorage_Get ref_wire (app_Storage example_server) (''box'' @ ''/*'') = Inr s" "unmarshal_objects ref_wire s = Inr []"
    by (auto simp: example_server_value)
  have before: "Local_GetList ref_wire Inr example_server (''box'' @ ''/*'') = Inr ([] :: string Meta list)"
    unfolding Local_GetList_def Let_def LastIndex_list s(1) by (simp add: DecodeList_def s(2))
  from local_push_then_get_list [where marshal = Inr and unmarshal = Inr and now = 7 and item = "''{}''" and raw = "''{}''"
      and build_now = 5, OF ready ref_std_base64_law path(1,2) codec codec unused path(3,4) before]
  show ?thesis by auto
qed

section \<open>The kind of the path\<close>

text \<open>
  The kind of the path is checked first. On a path whose last segment is the star, \<open>Get\<close>,
  \<open>Set\<close> and their remote versions return an error, and on any other path \<open>GetList\<close>, \<open>Push\<close> and
  theirs do, without touching the storage or the network; the message names the function and the path.
\<close>

theorem path_kind_errors:
  fixes client :: "'w http_client" and world :: 'w
  shows "if LastIndex path = ''*'' then
      Local_Get J unmarshal server path = Inl (Error (''Get['' @ path @ '']: path is a list'')) \<and>
      Local_Set J marshal now server path item = Returns (Some (Error (''Set['' @ path @ '']: path is a list'')), server) \<and>
      RemoteGet J unmarshal client ssl host path world =
        (Inl (Error (''GetFrom['' @ path @ '']: path is a list'')), world) \<and>
      RemoteSet marshal_body marshal client ssl host path item world =
        (Some (Error (''RemoteSet['' @ path @ '']: path is a list'')), world)
    else
      Local_GetList J unmarshal server path = Inl (Error (''GetList['' @ path @ '']: path is not a list'')) \<and>
      Local_Push J marshal build_now now server path item =
        Returns (Some (Error (''Push['' @ path @ '']: path is not a list'')), server) \<and>
      RemoteGetList J unmarshal client ssl host path world =
        (Inl (Error (''GetListFrom['' @ path @ '']: path is not a list'')), world) \<and>
      RemotePush marshal_body marshal build_now client ssl host path item world =
        (Some (Error (''RemotePush['' @ path @ '']: path is not a list'')), world)"
  by (simp add: Local_Get_def Local_Set_def Local_GetList_def Local_Push_def RemoteGet_def RemoteSet_def
      RemoteGetList_def RemotePush_def Let_def)

section \<open>Through the handlers of a server\<close>

text \<open>
  An HTTP client whose world is a server, for one host and plain HTTP: the key is what follows the
  host, a post runs \<open>publish\<close> and a get runs \<open>read\<close>, at given times. A request with no answer (a
  handler that panics) fails. The router, which matches the key, and the transport are not modelled.
\<close>

definition url_key :: "string \<Rightarrow> string \<Rightarrow> string" where
  "url_key host url = drop (length (''http://'' @ host @ ''/'')) url"

definition plain_request :: "string \<Rightarrow> string \<Rightarrow> request" where
  "plain_request key body =
     \<lparr>req_key = key, req_body = body, req_websocket = False, req_v = '''', req_upgrade = None, req_token = ''''\<rparr>"

definition body_of :: "response \<Rightarrow> string" where
  "body_of answer = (case answer of Reply status kind body \<Rightarrow> body | _ \<Rightarrow> '''')"

definition handler_client ::
  "('p, 'c) wire_scheme \<Rightarrow> string \<Rightarrow> int64 \<Rightarrow> int64 \<Rightarrow> Server http_client"
where
  "handler_client J host build_now now =
     \<lparr>client_Post = (\<lambda>url kind body app.
        case publish J build_now now (plain_request (url_key host url) body) app of
          Returns (answer, app') \<Rightarrow> (None, app')
        | _ \<Rightarrow> (Some (Error ''EOF''), app)),
      client_Get = (\<lambda>url app.
        case read J now (plain_request (url_key host url) '''') app of
          (answer, app') \<Rightarrow> (Inr (Inr (body_of answer)), app'))\<rparr>"

lemma url_key_remote [simp]: "url_key host (remote_url False host path) = path"
  by (simp add: url_key_def remote_url_def)

text \<open>The body of a post is a message with the data and nothing else.\<close>

definition body_law :: "('p, 'c) wire_scheme \<Rightarrow> (PostBody \<Rightarrow> string result) \<Rightarrow> bool" where
  "body_law J marshal_body \<longleftrightarrow>
     (\<forall>data. json_safe data \<longrightarrow> (\<exists>s. marshal_body \<lparr>BodyData = data\<rparr> = Inr s \<and>
        decoder_message J s = Inr \<lparr>MsgData = data, MsgVersion = '''', MsgSnapshot = False\<rparr>))"

lemma EncodeToString_not_Nil: "raw \<noteq> [] \<Longrightarrow> EncodeToString raw \<noteq> []"
  using length_EncodeToString [of raw] by (cases raw) auto

text \<open>
  C15: a remote write reads back. Over the handlers of a server, setting an item whose JSON is not empty
  and decodes to it, at a valid key without a star that is authorized and that no filter covers, returns no
  error; getting the key then gives the item, with the key's last segment and the times of the server.
\<close>

theorem remote_set_then_get:
  fixes J :: "('p, 'c) wire_scheme" and app :: Server
  assumes J: "storage_ready J (app_Storage app)" "empty_law J" "std_base64_law J" "body_law J marshal_body"
    and key: "IsValid path" "star \<notin> set path" "unfiltered app path"
    and written: "list_all (\<lambda>f. \<not> covers filter_path path f) (Write_filters (app_filters app))"
    and audit: "list_all (\<lambda>body. audit_ok app (plain_request path body)) ['''', posted]"
    and item: "marshal item = Inr raw" "raw \<noteq> []" "unmarshal raw = Inr item"
    and posted: "marshal_body \<lparr>BodyData = EncodeToString raw\<rparr> = Inr posted"
  shows "\<exists>app'. RemoteSet marshal_body marshal (handler_client J host build_now now) False host path item app =
      (None, app') \<and>
    fst (RemoteGet J unmarshal (handler_client J host build_now now) False host path app') =
      Inr \<lparr>MetaCreated = (case mem_contents J (app_Storage app) path of None \<Rightarrow> now | Some old \<Rightarrow> Created old),
        MetaUpdated = (case mem_contents J (app_Storage app) path of None \<Rightarrow> 0 | Some old \<Rightarrow> now),
        MetaIndex = LastIndex path, MetaData = item\<rparr>"
proof -
  let ?r = "plain_request path posted" and ?q = "plain_request path ''''"
  let ?data = "EncodeToString raw"
  have r: "req_key ?r = path" "req_body ?r = posted" "req_key ?q = path" "\<not> req_websocket ?q"
    by (simp_all add: plain_request_def)
  have star: "LastIndex path \<noteq> ''*''" by (rule LastIndex_no_star [OF key(2)])
  have "decoder_message J posted = Inr \<lparr>MsgData = ?data, MsgVersion = '''', MsgSnapshot = False\<rparr>"
    using J(4) posted json_safe_EncodeToString [of raw] unfolding body_law_def by fastforce
  then have event: "DecodeReader J (req_body ?r) = Inr \<lparr>MsgData = ?data, MsgVersion = '''', MsgSnapshot = False\<rparr>"
    using J(3) EncodeToString_not_Nil [OF item(2)] by (simp add: r DecodeReader_def std_base64_law_def)
  have guard: "publishable path" using key(1,2) by (simp add: publishable_iff)
  have check: "router_check (Write_filters (app_filters app)) (Build build_now (req_key ?r))
      (MsgData \<lparr>MsgData = ?data, MsgVersion = '''', MsgSnapshot = False\<rparr>) (app_Static app) = Inr ?data"
    using written key(3) key(2) by (simp add: r router_check_uncovered list_all_iff unfiltered_def)
  have safe: "storable (Build build_now (req_key ?r)) ?data"
    using json_safe_IsValid [OF key(1)] json_safe_EncodeToString key(2) by (simp add: r storable_def)
  have ok: "audit_ok app ?r" "audit_ok app ?q" using audit by simp_all
  have pub: "publishable (req_key ?r)" using guard by (simp add: r)
  obtain app' db where app': "publish J build_now now ?r app =
        Returns (Reply StatusOK (Some ''application/json'') (index_body (LastIndex (Build build_now (req_key ?r)))), app')"
      "app_Storage app' = db" "storage_ready J db" "app_filters app' = app_filters app" "app_Static app' = app_Static app"
      "Audit app' = Audit app"
      "mem_contents J db = spec_op (OpSet now (Build build_now (req_key ?r)) ?data) (mem_contents J (app_Storage app))"
    using publish_stores [where set_now = now, OF J(1) pub ok(1) event check safe] by force
  let ?obj = "stamp_object now (mem_contents J (app_Storage app) path) path ?data"
  have there: "mem_contents J (app_Storage app') (req_key ?q) = Some ?obj" "Index ?obj \<noteq> []"
    using app'(2,7) key(2) LastIndex_not_Nil [OF key(1)] by (simp_all add: r stamp_object_def)
  have q: "IsValid (req_key ?q)" "audit_ok app' ?q" "unfiltered app' (req_key ?q)" "star \<notin> set (req_key ?q)"
    using key ok(2) app'(4-6) by (simp_all add: r audit_ok_def unfiltered_def)
  obtain s where s: "fst (read J now ?q app') = Reply StatusOK (Some ''application/json'') s" "DecodeRaw J s = Inr ?obj"
    using read_present [OF _ J(2) q(1,2) r(4) q(3,4) there, of now] app'(2,3) by blast
  have set: "RemoteSet marshal_body marshal (handler_client J host build_now now) False host path item app = (None, app')"
    using star item(1) posted app'(1) by (simp add: RemoteSet_def Let_def handler_client_def)
  have "Decode_object J s = Inr (?obj\<lparr>Data := raw\<rparr>)"
    by (rule Decode_object_std [OF J(3) s(2)]) (simp add: stamp_object_def)
  then have "fst (RemoteGet J unmarshal (handler_client J host build_now now) False host path app') =
      Inr (meta_of (?obj\<lparr>Data := raw\<rparr>) item)"
    using star s(1) item(3) by (simp add: RemoteGet_def Let_def handler_client_def case_prod_beta body_of_def stamp_object_def)
  with set show ?thesis by (simp add: meta_of_def stamp_object_def)
qed

definition ref_marshal_body :: "PostBody \<Rightarrow> string result" where
  "ref_marshal_body b =
     Inr (''{'' @ quote # ''data'' @ quote # '':'' @ quote # BodyData b @ quote # ''}'')"

lemma ref_body_law: "body_law ref_wire ref_marshal_body"
proof -
  have sep: "strings_Split (s @ quote # t) quote = s # strings_Split t quote" if "quote \<notin> set s" for s t
    using that by (rule strings_Split_sep)
  have "ref_unmarshal_message (''{'' @ quote # ''data'' @ quote # '':'' @ quote # data @ quote # ''}'') =
      Inr \<lparr>MsgData = data, MsgVersion = '''', MsgSnapshot = False\<rparr>" if "json_safe data" for data
  proof -
    have "strings_Split (''{'' @ quote # ''data'' @ quote # '':'' @ quote # data @ quote # ''}'') quote =
        [''{'', ''data'', '':'', data, ''}'']"
      using json_safe_no_quote [OF that]
      by (simp add: sep strings_Split_no_sep del: append_Cons append_assoc append_Nil strings_Split.simps)
    then show ?thesis by (simp add: ref_unmarshal_message_def)
  qed
  then show ?thesis by (simp add: body_law_def ref_marshal_body_def ref_wire_def)
qed

theorem remote_set_then_get_witness:
  "\<exists>app. RemoteSet ref_marshal_body Inr (handler_client ref_wire ''host'' 5 7) False ''host'' ''box'' ''{}'' example_server =
      (None, app) \<and>
    fst (RemoteGet ref_wire Inr (handler_client ref_wire ''host'' 5 7) False ''host'' ''box'' app) =
      Inr \<lparr>MetaCreated = 7, MetaUpdated = 0, MetaIndex = ''box'', MetaData = ''{}''\<rparr>"
proof -
  have ready: "storage_ready ref_wire (app_Storage example_server)"
    using fresh_storage_ready by (simp add: example_server_value)
  have star: "star \<notin> set ''box''" by simp
  have open_key: "unfiltered example_server ''box''"
      "list_all (\<lambda>f. \<not> covers filter_path ''box'' f) (Write_filters (app_filters example_server))"
    by (simp_all add: unfiltered_def example_server_value)
  obtain posted where posted: "ref_marshal_body \<lparr>BodyData = EncodeToString ''{}''\<rparr> = Inr posted"
    by (simp add: ref_marshal_body_def)
  have audit: "list_all (\<lambda>body. audit_ok example_server (plain_request ''box'' body)) ['''', posted]" by simp
  have codec: "(Inr :: string \<Rightarrow> string result) ''{}'' = Inr ''{}''" and some: "''{}'' \<noteq> []" by simp_all
  from remote_set_then_get [where marshal = Inr and unmarshal = Inr and now = 7 and build_now = 5 and host = "''host''"
      and item = "''{}''" and raw = "''{}''", OF ready ref_empty_law ref_std_base64_law ref_body_law
      example_publish_guards(2) star open_key audit codec some codec posted]
  show ?thesis using example_publish_guards(5) by (auto simp: example_server_value)
qed

text \<open>
  C39: a remote write does not report a refusal. Over the handlers of a server, whenever the publish is
  answered, \<open>RemoteSet\<close> and \<open>RemotePush\<close> return no error, whatever the status: a request that the audit
  denies stores nothing and returns no error.
\<close>

theorem remote_set_hides_refusal:
  fixes J :: "('p, 'c) wire_scheme"
  assumes "star \<notin> set path" "marshal item = Inr raw" "marshal_body \<lparr>BodyData = EncodeToString raw\<rparr> = Inr posted"
    and "publishable path" "\<not> audit_ok app (plain_request path posted)"
  shows "publish J build_now now (plain_request path posted) app = Returns (unauthorized, app) \<and>
    RemoteSet marshal_body marshal (handler_client J host build_now now) False host path item app = (None, app)"
proof -
  have "publish J build_now now (plain_request path posted) app = Returns (unauthorized, app)"
    using assms(4,5) by (simp add: publish_refused plain_request_def)
  moreover have "LastIndex path \<noteq> ''*''" by (rule LastIndex_no_star [OF assms(1)])
  ultimately show ?thesis
    using assms(2,3) by (simp add: RemoteSet_def Let_def handler_client_def)
qed

theorem remote_set_hides_refusal_witness:
  "RemoteSet ref_marshal_body Inr (handler_client ref_wire ''host'' 5 7) False ''host'' ''box'' ''{}''
      (example_server\<lparr>Audit := Some (\<lambda>r. False)\<rparr>) =
    (None, example_server\<lparr>Audit := Some (\<lambda>r. False)\<rparr>)"
proof -
  have star: "star \<notin> set ''box''" and codec: "(Inr :: string \<Rightarrow> string result) ''{}'' = Inr ''{}''" by simp_all
  obtain posted where posted: "ref_marshal_body \<lparr>BodyData = EncodeToString ''{}''\<rparr> = Inr posted"
    by (simp add: ref_marshal_body_def)
  have denied: "\<not> audit_ok (example_server\<lparr>Audit := Some (\<lambda>r. False)\<rparr>) (plain_request ''box'' posted)"
    by (simp add: audit_ok_def)
  from remote_set_hides_refusal [where marshal_body = ref_marshal_body and marshal = Inr and item = "''{}''" and raw = "''{}''", OF star codec posted example_publish_guards(1) denied]
  show ?thesis by blast
qed

end
