(* ===== verification/StorageSuite.thy ===== *)
theory StorageSuite
  imports StorageProperties "HOL-Library.Monad_Syntax"
begin

text \<open>
  \<^verbatim>\<open>src/storageTest.go\<close>: the checks every storage has to pass, run on \<^verbatim>\<open>MemoryStorage\<close>. A check is a
  program in the option monad: \<open>None\<close> is a requirement that fails, a panic or a wait. The clock is read
  through arguments, and \<^verbatim>\<open>TEST_DATA\<close> is an argument as well. The check on lists, which also posts to the server,
  is in \<open>ServerSuite\<close>.
\<close>

definition require :: "bool \<Rightarrow> unit option" where
  "require b = (if b then Some () else None)"

definition returning :: "'a outcome \<Rightarrow> 'a option" where
  "returning m = (case m of Returns x \<Rightarrow> Some x | _ \<Rightarrow> None)"

definition no_error :: "'a result \<Rightarrow> 'a option" where
  "no_error r = (case r of Inl err \<Rightarrow> None | Inr x \<Rightarrow> Some x)"

text \<open>The bytes of an answer whose error is ignored.\<close>

definition bytes_of :: "string result \<Rightarrow> string" where
  "bytes_of r = (case r of Inl err \<Rightarrow> [] | Inr data \<Rightarrow> data)"

lemma require_simps [simp]: "require True = Some ()" "require False = None"
  by (simp_all add: require_def)

lemma returning_simps [simp]: "returning (Returns x) = Some x"
  by (simp add: returning_def)

lemma no_error_simps [simp]: "no_error (Inr x) = Some x" "no_error (Inl err) = None"
  by (simp_all add: no_error_def)

section \<open>The checks\<close>

definition StorageObjectTest ::
  "'c codec_scheme \<Rightarrow> int64 \<Rightarrow> int64 \<Rightarrow> MemoryStorage \<Rightarrow> MemoryStorage option" where
  "StorageObjectTest J now1 now2 db0 =
     (let db1 = MemoryStorage_Clear db0 in
      do {
        (index1, db2) \<leftarrow> returning (MemoryStorage_Set J now1 db1 ''test'' ''test'');
        require (index1 \<noteq> []);
        testObject1 \<leftarrow> no_error (DecodeRaw J (bytes_of (MemoryStorage_Get J db2 ''test'')));
        require (Data testObject1 = ''test'');
        require (Updated testObject1 = 0);
        (index2, db3) \<leftarrow> returning (MemoryStorage_Set J now2 db2 ''test'' ''test_update'');
        require (index2 \<noteq> []);
        data2 \<leftarrow> no_error (MemoryStorage_Get J db3 ''test'');
        testObject2 \<leftarrow> no_error (DecodeRaw J data2);
        require (Data testObject2 = ''test_update'');
        (err, db4) \<leftarrow> returning (MemoryStorage_Del db3 ''test'');
        require (err = None);
        require (bytes_of (MemoryStorage_Get J db4 ''test'') = []);
        Some db4
      })"

text \<open>One round for each pair of times, of the key and of the write.\<close>

fun StorageSetGetDelTest ::
  "'c codec_scheme \<Rightarrow> string \<Rightarrow> (int64 \<times> int64) list \<Rightarrow> MemoryStorage \<Rightarrow> MemoryStorage option" where
  "StorageSetGetDelTest J test_data [] db = Some db"
| "StorageSetGetDelTest J test_data ((build_now, now) # rounds) db =
     (let testData = base64_encode J test_data;
          built = Build build_now ''test/*''
      in do {
        (index, db1) \<leftarrow> returning (MemoryStorage_Set J now db (''test/'' @ built) testData);
        fetched \<leftarrow> no_error (MemoryStorage_Get J db1 (''test/'' @ built));
        decoded \<leftarrow> no_error (Decode_object J fetched);
        require (Data decoded = test_data);
        (err, db2) \<leftarrow> returning (MemoryStorage_Del db1 (''test/'' @ built));
        require (err = None);
        result \<leftarrow> no_error (MemoryStorage_Get J db2 ''test/*'');
        require (result = ''[]'');
        StorageSetGetDelTest J test_data rounds db2
      })"

definition Itoa :: "nat \<Rightarrow> string" where
  "Itoa i = FormatInt (word_of_nat i) 10"

fun GetNTest_fill ::
  "'c codec_scheme \<Rightarrow> string \<Rightarrow> (nat \<Rightarrow> int64) \<Rightarrow> nat list \<Rightarrow> MemoryStorage \<Rightarrow> MemoryStorage option" where
  "GetNTest_fill J testData nows [] db = Some db"
| "GetNTest_fill J testData nows (i # is) db =
     do {
       (index, db1) \<leftarrow> returning (MemoryStorage_Set J (nows i) db (''test/'' @ Itoa i) testData);
       require (index = Itoa i);
       GetNTest_fill J testData nows is db1
     }"

definition StorageGetNTest ::
  "'c codec_scheme \<Rightarrow> string \<Rightarrow> (nat \<Rightarrow> int64) \<Rightarrow> nat \<Rightarrow> MemoryStorage \<Rightarrow> MemoryStorage option" where
  "StorageGetNTest J test_data nows n db0 =
     (let db1 = MemoryStorage_Clear db0;
          testData = base64_encode J test_data;
          limit = 1
      in do {
        db2 \<leftarrow> GetNTest_fill J testData nows [0..<n] db1;
        testObjects \<leftarrow> no_error (MemoryStorage_GetN J db2 ''test/*'' limit);
        require (int (length testObjects) = limit);
        require (Index (testObjects ! 0) = Itoa (n - 1));
        Some db2
      })"

fun KeysRangeTest_fill ::
  "'c codec_scheme \<Rightarrow> string \<Rightarrow> (nat \<Rightarrow> int64) \<Rightarrow> (nat \<Rightarrow> int64) \<Rightarrow> nat list \<Rightarrow> string \<Rightarrow> MemoryStorage \<Rightarrow>
     (string \<times> MemoryStorage) option"
where
  "KeysRangeTest_fill J testData builds nows [] first db = Some (first, db)"
| "KeysRangeTest_fill J testData builds nows (i # is) first db =
     (let path = Build (builds i) ''test/*'' in
      do {
        (key, db1) \<leftarrow> returning (MemoryStorage_Set J (nows i) db path testData);
        require (path = ''test/'' @ key);
        KeysRangeTest_fill J testData builds nows is (if first = '''' then key else first) db1
      })"

definition StorageKeysRangeTest ::
  "'c codec_scheme \<Rightarrow> string \<Rightarrow> (nat \<Rightarrow> int64) \<Rightarrow> (nat \<Rightarrow> int64) \<Rightarrow> nat \<Rightarrow> MemoryStorage \<Rightarrow> MemoryStorage option"
where
  "StorageKeysRangeTest J test_data builds nows n db0 =
     do {
       (first, db1) \<leftarrow> KeysRangeTest_fill J test_data builds nows [0..<n] '''' (MemoryStorage_Clear db0);
       keys \<leftarrow> no_error (MemoryStorage_KeysRange db1 ''test/*'' 0 (Decode first));
       require (length keys = 1);
       require (keys ! 0 = ''test/'' @ first);
       Some db1
     }"

section \<open>They pass\<close>

lemma Clear_ready:
  assumes "storage_ready J db"
  shows "storage_ready J (MemoryStorage_Clear db) \<and> mem_contents J (MemoryStorage_Clear db) = Map.empty"
proof -
  have "started (MemoryStorage_Clear db)" using assms by (simp add: storage_ready_def MemoryStorage_Clear_def)
  then show ?thesis using assms
    by (simp add: storage_ready_def Clear_empty mem_ok_def mem_contents_def fun_eq_iff)
qed

lemma object_test_passes:
  assumes "storage_ready J db"
  shows "\<exists>db'. StorageObjectTest J now1 now2 db = Some db' \<and> storage_ready J db'"
proof -
  let ?db1 = "MemoryStorage_Clear db"
  have ready1: "storage_ready J ?db1" "mem_contents J ?db1 = Map.empty" using Clear_ready [OF assms] by auto
  have star: "star \<notin> set ''test''" by simp
  have idx: "LastIndex ''test'' = ''test''" by code_simp
  have safe: "storable ''test'' ''test''" "storable ''test'' ''test_update''"
    by (simp_all add: storable_def json_safe_char_def)
  obtain db2 s1 where db2: "MemoryStorage_Set J now1 ?db1 ''test'' ''test'' = Returns (''test'', db2)" "storage_ready J db2"
      "MemoryStorage_Get J db2 ''test'' = Inr s1"
      "DecodeRaw J s1 = Inr (stamp_object now1 (mem_contents J ?db1 ''test'') ''test'' ''test'')"
    using memory.get_after_set [OF ready1(1) safe(1) star, of now1] idx by auto
  obtain db3 s2 where db3: "MemoryStorage_Set J now2 db2 ''test'' ''test_update'' = Returns (''test'', db3)" "storage_ready J db3"
      "MemoryStorage_Get J db3 ''test'' = Inr s2"
      "DecodeRaw J s2 = Inr (stamp_object now2 (mem_contents J db2 ''test'') ''test'' ''test_update'')"
    using memory.get_after_set [OF db2(2) safe(2) star, of now2] idx by auto
  have "mem_contents J db3 ''test'' \<noteq> None"
    using memory.get_key [OF db3(2) star] db3(3) by (auto simp: not_found_def split: option.splits)
  then obtain db4 where db4: "MemoryStorage_Del db3 ''test'' = Returns (None, db4)" "storage_ready J db4"
      "mem_contents J db4 = spec_op (OpDel ''test'') (mem_contents J db3)"
    using memory.del_spec [OF db3(2), of "''test''"] by auto
  then have "MemoryStorage_Get J db4 ''test'' = Inl not_found"
    using memory.get_key [OF db4(2) star] by simp
  then have "StorageObjectTest J now1 now2 db = Some db4"
    using ready1(2) by (simp add: StorageObjectTest_def Let_def db2(1,3,4) db3(1,3,4) db4(1) bytes_of_def stamp_object_def)
  then show ?thesis using db4(2) by blast
qed

lemma LastIndex_element: "slash \<notin> set s \<Longrightarrow> LastIndex (''test/'' @ s) = s"
  using LastIndex_append [of s "''test''"] by simp

lemma Match_element: "slash \<notin> set s \<Longrightarrow> Match ''test/*'' (''test/'' @ s)"
proof -
  assume s: "slash \<notin> set s"
  have "globs ''/*'' (slash # s)" using s by (simp add: globs_lit_iff globs_star_only)
  then have "globs (''test'' @ ''/*'') (''test'' @ slash # s)"
    using globs_append [OF globs_refl [of "''test''"]] by simp
  then show ?thesis by (simp add: Match_plain)
qed

lemma FormatInt_plain: "2 \<le> base \<Longrightarrow> base \<le> 36 \<Longrightarrow> slash \<notin> set (FormatInt t base) \<and> star \<notin> set (FormatInt t base)"
  using FormatInt_chars [of base slash t] FormatInt_chars [of base star t] by (auto simp: is_alnum_def)

lemma Itoa_plain: "slash \<notin> set (Itoa i)" "star \<notin> set (Itoa i)"
  using FormatInt_plain [of 10] by (simp_all add: Itoa_def)

lemma Itoa_inject: "i < 2 ^ 63 \<Longrightarrow> j < 2 ^ 63 \<Longrightarrow> Itoa i = Itoa j \<longleftrightarrow> i = j"
proof -
  assume "i < 2 ^ 63" "j < 2 ^ 63"
  then have "(word_of_nat i :: int64) = word_of_nat j \<longleftrightarrow> i = j"
    by (simp add: word_of_nat_eq_iff take_bit_nat_eq_self)
  then show ?thesis by (simp add: Itoa_def FormatInt_inject)
qed

lemma storable_element:
  "json_safe data \<Longrightarrow> 2 \<le> base \<Longrightarrow> base \<le> 36 \<Longrightarrow> storable (''test/'' @ FormatInt t base) data"
proof -
  assume data: "json_safe data" and base: "2 \<le> base" "base \<le> 36"
  have "json_safe_char c" if "c \<in> set (FormatInt t base)" for c
    using FormatInt_chars [OF base that] by (auto simp: json_safe_char_def is_alnum_def Let_def)
  then have "json_safe (FormatInt t base)" by (simp add: json_safe_def list_all_iff)
  moreover have "json_safe ''test/''" by (simp add: json_safe_def json_safe_char_def)
  ultimately show ?thesis using data by (simp add: storable_def json_safe_append del: append.simps)
qed

text \<open>A round of the loops: one element more.\<close>

lemma add_element:
  assumes "storage_ready J db" "json_safe data" "2 \<le> base" "base \<le> 36"
    and "mem_contents J db (''test/'' @ FormatInt t base) = None"
  shows "\<exists>db'. MemoryStorage_Set J now db (''test/'' @ FormatInt t base) data = Returns (FormatInt t base, db') \<and>
    storage_ready J db' \<and> mem_contents J db' = (mem_contents J db)(''test/'' @ FormatInt t base \<mapsto>
      \<lparr>Created = now, Updated = 0, Index = FormatInt t base, Data = data\<rparr>)"
proof -
  have "LastIndex (''test/'' @ FormatInt t base) = FormatInt t base"
    using LastIndex_element FormatInt_plain [OF assms(3,4)] by blast
  with memory.set_spec [OF assms(1) storable_element [OF assms(2-4)], of now t] assms(5) show ?thesis
    by (auto simp: stamp_object_def)
qed

text \<open>The numbered keys of the checks.\<close>

definition tested :: "nat \<Rightarrow> string" where
  "tested i = ''test/'' @ Itoa i"

lemma tested_facts:
  "LastIndex (tested i) = Itoa i" "star \<notin> set (tested i)" "Match ''test/*'' (tested i)"
  unfolding tested_def using LastIndex_element [OF Itoa_plain(1)] Itoa_plain(2) [of i] Match_element [OF Itoa_plain(1)]
  by auto

lemma tested_inject: "i < 2 ^ 63 \<Longrightarrow> j < 2 ^ 63 \<Longrightarrow> tested i = tested j \<longleftrightarrow> i = j"
  by (simp add: tested_def Itoa_inject)

lemma add_tested:
  assumes "storage_ready J db" "json_safe data" "mem_contents J db (tested i) = None"
  shows "\<exists>db'. MemoryStorage_Set J now db (tested i) data = Returns (Itoa i, db') \<and> storage_ready J db' \<and>
    mem_contents J db' = (mem_contents J db)(tested i \<mapsto>
      \<lparr>Created = now, Updated = 0, Index = Itoa i, Data = data\<rparr>)"
  using add_element [of J db data 10 "word_of_nat i" now] assms by (simp add: tested_def Itoa_def)

lemma GetNTest_fill_contents:
  assumes "storage_ready J db" "json_safe data" "distinct is" "\<forall>i \<in> set is. i < 2 ^ 63"
    and "\<forall>i \<in> set is. mem_contents J db (tested i) = None"
  shows "\<exists>db'. GetNTest_fill J data nows is db = Some db' \<and> storage_ready J db' \<and>
    (\<forall>i \<in> set is. mem_contents J db' (tested i) =
       Some \<lparr>Created = nows i, Updated = 0, Index = Itoa i, Data = data\<rparr>) \<and>
    (\<forall>k. k \<notin> tested ` set is \<longrightarrow> mem_contents J db' k = mem_contents J db k)"
  using assms
proof (induction "is" arbitrary: db)
  case Nil
  then show ?case by simp
next
  case (Cons i "is")
  obtain db1 where db1: "MemoryStorage_Set J (nows i) db (tested i) data = Returns (Itoa i, db1)"
      "storage_ready J db1" "mem_contents J db1 = (mem_contents J db)(tested i \<mapsto>
        \<lparr>Created = nows i, Updated = 0, Index = Itoa i, Data = data\<rparr>)"
    using add_tested [OF Cons.prems(1,2), of i "nows i"] Cons.prems(5) by auto
  have other: "tested j \<noteq> tested i" if "j \<in> set is" for j
    using that Cons.prems(3,4) tested_inject [of j i] by auto
  then have fresh: "\<forall>j \<in> set is. mem_contents J db1 (tested j) = None"
    using Cons.prems(5) by (simp add: db1(3))
  have "distinct is" "\<forall>j \<in> set is. j < 2 ^ 63" using Cons.prems(3,4) by simp_all
  from Cons.IH [OF db1(2) Cons.prems(2) this fresh]
  obtain db' where db': "GetNTest_fill J data nows is db1 = Some db'" "storage_ready J db'"
      "\<forall>i \<in> set is. mem_contents J db' (tested i) =
         Some \<lparr>Created = nows i, Updated = 0, Index = Itoa i, Data = data\<rparr>"
      "\<forall>k. k \<notin> tested ` set is \<longrightarrow> mem_contents J db' k = mem_contents J db1 k"
    by blast
  have "tested i \<notin> tested ` set is" using other by (metis imageE)
  then have "mem_contents J db' (tested i) =
      Some \<lparr>Created = nows i, Updated = 0, Index = Itoa i, Data = data\<rparr>"
    using db'(4) db1(3) by simp
  then have all: "\<forall>i \<in> set (i # is). mem_contents J db' (tested i) =
      Some \<lparr>Created = nows i, Updated = 0, Index = Itoa i, Data = data\<rparr>"
    using db'(3) by simp
  have rest: "\<forall>k. k \<notin> tested ` set (i # is) \<longrightarrow> mem_contents J db' k = mem_contents J db k"
    using db'(4) db1(3) by simp
  have "GetNTest_fill J data nows (i # is) db = Some db'"
    using db1(1) db'(1) by (simp add: tested_def)
  with db'(2) all rest show ?case by blast
qed

lemma Get_visit_set: "x \<in> set (Get_visit decode path m) \<longleftrightarrow> (\<exists>kv \<in> set m. Match path (fst kv) \<and> decode (snd kv) = Inr x)"
proof (induction m)
  case (Cons kv m)
  then show ?case by (cases kv; cases "decode (snd kv)") auto
qed simp

text \<open>What \<^verbatim>\<open>GetN\<close> finds, from the contents.\<close>

lemma found_contents_if:
  assumes "storage_ready J db"
  shows "x \<in> set (Get_visit (Decode_object J) path (filter (\<lambda>kv. P (fst kv)) (mem db))) \<longleftrightarrow>
    (\<exists>k obj raw. mem_contents J db k = Some obj \<and> P k \<and> Match path k \<and> base64_decode J (Data obj) = Inr raw \<and>
      x = obj\<lparr>Data := raw\<rparr>)"
proof -
  have ok: "mem_ok J (mem db)" and dist: "distinct (map fst (mem db))"
    using assms by (auto simp: storage_ready_def mem_ok_def)
  have stored: "kv \<in> set (mem db) \<longleftrightarrow> map_of (mem db) (fst kv) = Some (snd kv)" for kv
    using dist by (metis map_of_eq_Some_iff prod.collapse)
  have decode: "Decode_object J v = Inr x \<longleftrightarrow>
      (\<exists>obj raw. DecodeRaw J v = Inr obj \<and> base64_decode J (Data obj) = Inr raw \<and> x = obj\<lparr>Data := raw\<rparr>)" for v
    by (auto simp: Decode_object_def DecodeRaw_def split: sum.splits)
  have contents: "mem_contents J db k = Some obj \<longleftrightarrow> (\<exists>v. map_of (mem db) k = Some v \<and> DecodeRaw J v = Inr obj)" for k obj
    by (auto simp: mem_contents_def split: option.splits sum.splits)
  show ?thesis
    unfolding Get_visit_set using stored by (simp add: decode contents) (metis fst_conv snd_conv)
qed

lemma found_contents:
  "storage_ready J db \<Longrightarrow> x \<in> set (Get_visit (Decode_object J) path (mem db)) \<longleftrightarrow>
    (\<exists>k obj raw. mem_contents J db k = Some obj \<and> Match path k \<and> base64_decode J (Data obj) = Inr raw \<and>
      x = obj\<lparr>Data := raw\<rparr>)"
  using found_contents_if [of J db x path "\<lambda>_. True"] by simp

lemma getn_test_passes:
  assumes ready: "storage_ready J db" and J: "base64_law J"
    and n: "0 < n" "n < 2 ^ 63" and clock: "\<forall>i < n. 0 \<le> sint (nows i)" "\<forall>i < n. \<forall>j < n. i < j \<longrightarrow> sint (nows i) < sint (nows j)"
  shows "\<exists>db'. StorageGetNTest J test_data nows n db = Some db' \<and> storage_ready J db'"
proof -
  let ?db1 = "MemoryStorage_Clear db" and ?data = "base64_encode J test_data"
  have ready1: "storage_ready J ?db1" "mem_contents J ?db1 = Map.empty" using Clear_ready [OF ready] by auto
  have data: "json_safe ?data" "base64_decode J ?data = Inr test_data" using J by (simp_all add: base64_law_def)
  have bound: "\<forall>i \<in> set [0..<n]. i < 2 ^ 63" using n(2) by auto
  obtain db2 where db2: "GetNTest_fill J ?data nows [0..<n] ?db1 = Some db2" "storage_ready J db2"
      "\<forall>i < n. mem_contents J db2 (tested i) =
        Some \<lparr>Created = nows i, Updated = 0, Index = Itoa i, Data = ?data\<rparr>"
      "\<forall>k. k \<notin> tested ` set [0..<n] \<longrightarrow> mem_contents J db2 k = None"
    using GetNTest_fill_contents [where nows = nows, OF ready1(1) data(1) distinct_upt bound] ready1(2) by auto
  let ?obj = "\<lambda>i. \<lparr>Created = nows i, Updated = 0, Index = Itoa i, Data = test_data\<rparr>"
  let ?found = "Get_visit (Decode_object J) ''test/*'' (mem db2)"
  have found: "x \<in> set ?found \<longleftrightarrow> (\<exists>i < n. x = ?obj i)" for x
  proof
    assume "x \<in> set ?found"
    then obtain k obj raw where k: "mem_contents J db2 k = Some obj" "base64_decode J (Data obj) = Inr raw"
        "x = obj\<lparr>Data := raw\<rparr>"
      unfolding found_contents [OF db2(2)] by blast
    then obtain i where "i < n" "k = tested i" using db2(4) by force
    with k db2(3) data(2) show "\<exists>i < n. x = ?obj i" by auto
  next
    assume "\<exists>i < n. x = ?obj i"
    then obtain i where i: "i < n" "x = ?obj i" by blast
    then have "mem_contents J db2 (tested i) = Some (?obj i\<lparr>Data := ?data\<rparr>)" using db2(3) by simp
    then show "x \<in> set ?found"
      unfolding found_contents [OF db2(2)] using i(2) data(2) tested_facts(3) by fastforce
  qed
  have star: "star \<in> set ''test/*''" by simp
  obtain res omitted where res: "MemoryStorage_GetN J db2 ''test/*'' 1 = Inr res" "length res = min (nat 1) (length ?found)"
      "mset (res @ omitted) = mset ?found" "\<forall>x \<in> set res. \<forall>y \<in> set omitted. \<not> object_less y x"
    using GetN_result [OF star, of 1 J db2] by auto
  have all: "set res \<union> set omitted = set ?found" using res(3) by (metis set_append set_mset_mset)
  have newest: "?obj (n - 1) \<in> set ?found" unfolding found using n(1) by (intro exI [of _ "n - 1"]) simp
  then have "length res = 1" using res(2) by (cases ?found) auto
  then obtain x where x: "res = [x]" by (cases res) auto
  obtain i where i: "i < n" "x = ?obj i" using all found x by auto
  have "i = n - 1"
  proof (rule ccontr)
    assume "i \<noteq> n - 1"
    then have less: "sint (nows i) < sint (nows (n - 1))" using i(1) clock(2) by auto
    then have "?obj (n - 1) \<noteq> x" using i(2) by auto
    then have "?obj (n - 1) \<in> set omitted" using newest all x by auto
    then have "\<not> object_less (?obj (n - 1)) x" using res(4) x by simp
    then show False using less i clock(1) n(1)
      by (simp add: object_less_def sint_max_int64)
  qed
  then have "StorageGetNTest J test_data nows n db = Some db2"
    using res(1) x i by (simp add: StorageGetNTest_def Let_def db2(1))
  then show ?thesis using db2(2) by blast
qed

text \<open>A write to a new key adds the key, whatever the data is.\<close>

lemma Set_adds_key:
  assumes "started db" "path \<notin> set (map fst (mem db))"
  shows "\<exists>db'. MemoryStorage_Set J now db path data = Returns (LastIndex path, db') \<and> started db' \<and>
    map fst (mem db') = map fst (mem db) @ [path]"
proof -
  obtain created updated where peek: "MemoryStorage_Peek J db path now = (created, updated)"
    by fastforce
  let ?obj = "\<lparr>Created = created, Updated = updated, Index = LastIndex path, Data = data\<rparr>"
  let ?db1 = "db\<lparr>mem := AList.update path (New J ?obj) (mem db)\<rparr>"
  have "started ?db1" using assms(1) by (simp add: started_def MemoryStorage_Active_def)
  then obtain db' where db': "broadcast_event path ''set'' ?db1 = Returns db'" "started db'" "mem db' = mem ?db1"
    using broadcast_event_started by blast
  have "map fst (AList.update path v m) = map fst m @ [path]" if "path \<notin> set (map fst m)"
    for v and m :: "(string \<times> string) list"
    using that by (induction m) auto
  then have "map fst (mem db') = map fst (mem db) @ [path]" using db'(3) assms(2) by simp
  with db'(1,2) show ?thesis by (simp add: MemoryStorage_Set_def Let_def peek)
qed

lemma Build_test: "Build t ''test/*'' = ''test/'' @ FormatInt t 16"
  using Build_list [of "''test''" t] by simp

lemma Build_test_inject: "Build s ''test/*'' = Build t ''test/*'' \<longleftrightarrow> s = t"
  by (simp add: Build_test FormatInt_inject)

lemma KeysRangeTest_fill_keys:
  assumes "started db" "distinct (map builds is)"
    and "\<forall>i \<in> set is. Build (builds i) ''test/*'' \<notin> set (map fst (mem db))"
  shows "\<exists>db'. KeysRangeTest_fill J data builds nows is first db =
      Some (if first = [] \<and> is \<noteq> [] then FormatInt (builds (hd is)) 16 else first, db') \<and>
    map fst (mem db') = map fst (mem db) @ map (\<lambda>i. Build (builds i) ''test/*'') is"
  using assms
proof (induction "is" arbitrary: db first)
  case (Cons i "is")
  let ?path = "\<lambda>i. Build (builds i) ''test/*''" and ?key = "FormatInt (builds i) 16"
  have last: "LastIndex (?path i) = ?key" using LastIndex_Build_list [of "''test''" "builds i"] by simp
  obtain db1 where db1: "MemoryStorage_Set J (nows i) db (?path i) data = Returns (?key, db1)" "started db1"
      "map fst (mem db1) = map fst (mem db) @ [?path i]"
    using Set_adds_key [OF Cons.prems(1), of "?path i" J "nows i" data] Cons.prems(3) last by auto
  have "\<forall>j \<in> set is. ?path j \<notin> set (map fst (mem db1))"
  proof
    fix j assume "j \<in> set is"
    then have "?path j \<notin> set (map fst (mem db))" "builds j \<in> builds ` set is" using Cons.prems(3) by auto
    moreover have "builds i \<notin> builds ` set is" using Cons.prems(2) by simp
    ultimately have "?path j \<notin> set (map fst (mem db))" "builds j \<noteq> builds i" by auto
    then show "?path j \<notin> set (map fst (mem db1))" by (simp add: db1(3) Build_test_inject del: set_map)
  qed
  then obtain db' where db': "KeysRangeTest_fill J data builds nows is (if first = [] then ?key else first) db1 =
        Some (if first = [] then ?key else first, db')"
      "map fst (mem db') = map fst (mem db1) @ map ?path is"
    using Cons.IH [OF db1(2), of "if first = [] then ?key else first"] Cons.prems(2) by auto
  have "KeysRangeTest_fill J data builds nows (i # is) first db = Some (if first = [] then ?key else first, db')"
    using db1(1) db'(1) by (simp add: Build_test)
  with db'(2) show ?case by (simp add: db1(3))
qed simp

lemma in_range_Build:
  "in_range from_time to_time (Build t ''test/*'') \<longleftrightarrow> sint from_time \<le> sint t \<and> sint t \<le> sint to_time"
  using LastIndex_Build_list [of "''test''" t] by (simp add: in_range_def)

lemma keys_range_test_passes:
  assumes st: "started db" and n: "0 < n"
    and clock: "\<forall>i < n. 0 \<le> sint (builds i)" "\<forall>i < n. \<forall>j < n. i < j \<longrightarrow> sint (builds i) < sint (builds j)"
  shows "\<exists>db'. StorageKeysRangeTest J test_data builds nows n db = Some db'"
proof -
  let ?db1 = "MemoryStorage_Clear db" and ?path = "\<lambda>i. Build (builds i) ''test/*''"
    and ?first = "FormatInt (builds 0) 16"
  have st1: "started ?db1" using st by (simp add: MemoryStorage_Clear_def)
  have "inj_on builds {0..<n}"
  proof (rule inj_onI)
    fix i j assume "i \<in> {0..<n}" "j \<in> {0..<n}" "builds i = builds j"
    then show "i = j" using clock(2) by (metis atLeastLessThan_iff less_irrefl nat_neq_iff)
  qed
  then have dist: "distinct (map builds [0..<n])" by (simp add: distinct_map)
  have head: "hd [0..<n] = 0" "[0..<n] \<noteq> []" using n by (simp_all add: upt_rec)
  obtain db2 where db2: "KeysRangeTest_fill J test_data builds nows [0..<n] [] ?db1 = Some (?first, db2)"
      "map fst (mem db2) = map ?path [0..<n]"
    using KeysRangeTest_fill_keys [where J = J and data = test_data and nows = nows and first = "[]", OF st1 dist] head
    by (auto simp: Clear_empty)
  have covered: "Match ''test/*'' (?path i)" for i
    using Match_element [of "FormatInt (builds i) 16"] by (simp add: Build_test FormatInt_no_slash_star)
  have only: "sint 0 \<le> sint (builds i) \<and> sint (builds i) \<le> sint (builds 0) \<longleftrightarrow> i = 0" if "i < n" for i
    using that clock n by (cases "i = 0") (auto simp: not_le)
  have hit: "(Match ''test/*'' (?path i) \<and> in_range 0 (builds 0) (?path i)) = (i = 0)" if "i < n" for i
    using covered [of i] only [OF that] by (simp only: in_range_Build) simp
  have star: "star \<in> set ''test/*''" by simp
  define asked where "asked = (\<lambda>k. Match ''test/*'' k \<and> in_range 0 (builds 0) k)"
  have "filter asked (map fst (mem db2)) = map ?path (filter (asked \<circ> ?path) [0..<n])"
    by (simp only: db2(2) filter_map)
  also have "filter (asked \<circ> ?path) [0..<n] = filter (\<lambda>i. i = 0) [0..<n]"
    by (rule filter_cong [OF refl]) (auto simp: asked_def hit)
  also have "filter (\<lambda>i. i = 0) [0..<n] = [0]"
    using n by (simp add: upt_conv_Cons filter_empty_conv)
  finally have "MemoryStorage_KeysRange db2 ''test/*'' 0 (Decode ?first) = Inr [?path 0]"
    using KeysRange_result [OF star, of 0 "builds 0" db2, folded asked_def] clock(1) n by simp
  then have "StorageKeysRangeTest J test_data builds nows n db = Some db2"
    by (simp add: StorageKeysRangeTest_def db2(1) Build_test)
  then show ?thesis by blast
qed

lemma Decode_object_raw:
  "DecodeRaw J s = Inr obj \<Longrightarrow> base64_decode J (Data obj) = Inr raw \<Longrightarrow> Decode_object J s = Inr (obj\<lparr>Data := raw\<rparr>)"
  by (auto simp: Decode_object_def DecodeRaw_def split: sum.splits)

lemma no_contents_no_entries: "storage_ready J db \<Longrightarrow> mem_contents J db = Map.empty \<Longrightarrow> mem db = []"
  using dom_mem_contents [of J db] by (auto simp: storage_ready_def)

text \<open>
  The keys of the benchmark have the prefix \<^verbatim>\<open>test/\<close> twice, so the list that is read in the end does
  not cover them.
\<close>

lemma set_get_del_passes:
  assumes J: "base64_law J" "marshal_objects J [] = Inr ''[]''"
    and "storage_ready J db" "mem_contents J db = Map.empty"
  shows "\<exists>db'. StorageSetGetDelTest J test_data rounds db = Some db' \<and> storage_ready J db' \<and>
    mem_contents J db' = Map.empty"
  using assms(3,4)
proof (induction rounds arbitrary: db)
  case (Cons r rounds)
  obtain build_now now where r: "r = (build_now, now)" by (cases r)
  define path where "path = ''test/'' @ Build build_now ''test/*''"
  let ?data = "base64_encode J test_data"
  let ?obj = "stamp_object now None path ?data"
  have data: "json_safe ?data" "base64_decode J ?data = Inr test_data" using J by (simp_all add: base64_law_def)
  have path: "path = ''test/test/'' @ FormatInt build_now 16" by (simp add: path_def Build_test)
  have star: "star \<notin> set path" by (simp add: path FormatInt_no_slash_star)
  have "storable path ?data" using storable_element [OF data(1), of 16 build_now]
    by (simp add: path storable_def json_safe_char_def)
  then obtain db1 where db1: "MemoryStorage_Set J now db path ?data = Returns (LastIndex path, db1)" "storage_ready J db1"
      "mem_contents J db1 = [path \<mapsto> ?obj]"
    using memory.set_spec [OF Cons.prems(1), of path ?data now] Cons.prems(2) by auto
  obtain s where s: "MemoryStorage_Get J db1 path = Inr s" "DecodeRaw J s = Inr ?obj"
    using memory.get_key [OF db1(2) star] db1(3) by auto
  have decoded: "Decode_object J s = Inr (?obj\<lparr>Data := test_data\<rparr>)"
    using Decode_object_raw [OF s(2)] data(2) by (simp add: stamp_object_def)
  obtain db2 where db2: "MemoryStorage_Del db1 path = Returns (None, db2)" "storage_ready J db2"
      "mem_contents J db2 = Map.empty"
    using memory.del_spec [OF db1(2), of path] db1(3) star by (auto simp: fun_eq_iff)
  have listed: "MemoryStorage_Get J db2 ''test/*'' = Inr ''[]''"
    using no_contents_no_entries [OF db2(2,3)] J(2) by (simp add: MemoryStorage_Get_def Encode_json_def)
  obtain db' where "StorageSetGetDelTest J test_data rounds db2 = Some db'" "storage_ready J db'"
      "mem_contents J db' = Map.empty"
    using Cons.IH [OF db2(2,3)] by blast
  then show ?case
    by (simp add: r path_def [symmetric] db1(1) s(1) decoded db2(1) listed Let_def del: append.simps)
qed simp

section \<open>Ranges of elements\<close>

fun GetNRangeTest_fill ::
  "'c codec_scheme \<Rightarrow> string \<Rightarrow> nat list \<Rightarrow> MemoryStorage \<Rightarrow> MemoryStorage option" where
  "GetNRangeTest_fill J testData [] db = Some db"
| "GetNRangeTest_fill J testData (i # is) db =
     do {
       (index, db1) \<leftarrow> returning (MemoryStorage_Pivot J db (''test/'' @ Itoa i) testData (word_of_nat i) 0);
       require (index = Itoa i);
       GetNRangeTest_fill J testData is db1
     }"

definition StorageGetNRangeTest ::
  "'c codec_scheme \<Rightarrow> string \<Rightarrow> nat \<Rightarrow> MemoryStorage \<Rightarrow> MemoryStorage option" where
  "StorageGetNRangeTest J test_data n db0 =
     (let testData = base64_encode J test_data;
          limit = 1
      in do {
        db1 \<leftarrow> GetNRangeTest_fill J testData [1..<n] (MemoryStorage_Clear db0);
        (index, db2) \<leftarrow> returning (MemoryStorage_Pivot J db1 ''test/0'' testData 0 0);
        testObjects \<leftarrow> no_error (MemoryStorage_GetNRange J db2 ''test/*'' limit 0 1);
        require (int (length testObjects) = limit);
        require (Created (testObjects ! 0) = 1);
        require (Index (testObjects ! 0) = ''1'');
        Some db2
      })"

lemma pivot_tested:
  assumes "storage_ready J db" "json_safe data"
  shows "\<exists>db'. MemoryStorage_Pivot J db (tested i) data created 0 = Returns (Itoa i, db') \<and> storage_ready J db' \<and>
    mem_contents J db' = (mem_contents J db)(tested i \<mapsto>
      \<lparr>Created = created, Updated = 0, Index = Itoa i, Data = data\<rparr>)"
proof -
  have "storable (tested i) data"
    unfolding tested_def Itoa_def by (rule storable_element [OF assms(2)]) simp_all
  from pivot_stores_given_stamps [OF assms(1) this] show ?thesis by (force simp: tested_facts(1))
qed

lemma GetNRangeTest_fill_contents:
  assumes "storage_ready J db" "json_safe data" "distinct is" "\<forall>i \<in> set is. i < 2 ^ 63"
  shows "\<exists>db'. GetNRangeTest_fill J data is db = Some db' \<and> storage_ready J db' \<and>
    (\<forall>i \<in> set is. mem_contents J db' (tested i) =
       Some \<lparr>Created = word_of_nat i, Updated = 0, Index = Itoa i, Data = data\<rparr>) \<and>
    (\<forall>k. k \<notin> tested ` set is \<longrightarrow> mem_contents J db' k = mem_contents J db k)"
  using assms
proof (induction "is" arbitrary: db)
  case (Cons i "is")
  obtain db1 where db1: "MemoryStorage_Pivot J db (tested i) data (word_of_nat i) 0 = Returns (Itoa i, db1)"
      "storage_ready J db1" "mem_contents J db1 = (mem_contents J db)(tested i \<mapsto>
        \<lparr>Created = word_of_nat i, Updated = 0, Index = Itoa i, Data = data\<rparr>)"
    using pivot_tested [OF Cons.prems(1,2), of i "word_of_nat i"] by auto
  obtain db' where db': "GetNRangeTest_fill J data is db1 = Some db'" "storage_ready J db'"
      "\<forall>i \<in> set is. mem_contents J db' (tested i) =
         Some \<lparr>Created = word_of_nat i, Updated = 0, Index = Itoa i, Data = data\<rparr>"
      "\<forall>k. k \<notin> tested ` set is \<longrightarrow> mem_contents J db' k = mem_contents J db1 k"
    using Cons.IH [OF db1(2) Cons.prems(2)] Cons.prems(3,4) by auto
  have "tested i \<notin> tested ` set is"
    using Cons.prems(3,4) tested_inject by auto
  then have "mem_contents J db' (tested i) =
      Some \<lparr>Created = word_of_nat i, Updated = 0, Index = Itoa i, Data = data\<rparr>"
    using db'(4) db1(3) by simp
  moreover have "\<forall>k. k \<notin> tested ` set (i # is) \<longrightarrow> mem_contents J db' k = mem_contents J db k"
    using db'(4) db1(3) by simp
  moreover have "GetNRangeTest_fill J data (i # is) db = Some db'"
    using db1(1) db'(1) by (simp add: tested_def)
  ultimately show ?case using db'(2,3) by (intro exI [of _ db']) simp
qed simp

text \<open>Of the first ten numbers, in decimal, only two are between 0 and 1 when read as hexadecimal.\<close>

lemma sint_small: "i < 10 \<Longrightarrow> sint (word_of_nat i :: int64) = int i"
  by (simp add: signed_of_nat signed_take_bit_int_eq_self)

lemma Itoa_digit: "i < 10 \<Longrightarrow> Itoa i = FormatInt (word_of_nat i) 16"
  by (simp add: Itoa_def FormatInt_def sint_small format_nat.simps [of 10 i] format_nat.simps [of 16 i])

lemma in_range_tested: "i < 10 \<Longrightarrow> in_range 0 1 (tested i) \<longleftrightarrow> i < 2"
  using sint_small [of i]
  by (simp add: in_range_def tested_facts(1) Itoa_digit Decode_def ParseInt_FormatInt) linarith

lemma getnrange_test_passes:
  assumes ready: "storage_ready J db" and J: "base64_law J" and n: "2 \<le> n" "n \<le> 10"
  shows "\<exists>db'. StorageGetNRangeTest J test_data n db = Some db' \<and> storage_ready J db'"
proof -
  let ?db1 = "MemoryStorage_Clear db" and ?data = "base64_encode J test_data"
  have ready1: "storage_ready J ?db1" "mem_contents J ?db1 = Map.empty" using Clear_ready [OF ready] by auto
  have data: "json_safe ?data" "base64_decode J ?data = Inr test_data" using J by (simp_all add: base64_law_def)
  have bound: "\<forall>i \<in> set [1..<n]. i < 2 ^ 63" using n(2) by auto
  obtain db2 where db2: "GetNRangeTest_fill J ?data [1..<n] ?db1 = Some db2" "storage_ready J db2"
      "\<forall>i \<in> set [1..<n]. mem_contents J db2 (tested i) =
        Some \<lparr>Created = word_of_nat i, Updated = 0, Index = Itoa i, Data = ?data\<rparr>"
      "\<forall>k. k \<notin> tested ` set [1..<n] \<longrightarrow> mem_contents J db2 k = None"
    using GetNRangeTest_fill_contents [OF ready1(1) data(1) distinct_upt bound] ready1(2) by auto
  have zero: "tested 0 = ''test/0''" "Itoa 0 = ''0''" "Itoa 1 = ''1''"
    by (simp_all add: tested_def Itoa_def FormatInt_def format_nat.simps digit_chars_def)
  obtain db3 where db3: "MemoryStorage_Pivot J db2 ''test/0'' ?data 0 0 = Returns (''0'', db3)" "storage_ready J db3"
      "mem_contents J db3 = (mem_contents J db2)(tested 0 \<mapsto> \<lparr>Created = 0, Updated = 0, Index = Itoa 0, Data = ?data\<rparr>)"
    using pivot_tested [OF db2(2) data(1), of 0 0] zero by auto
  let ?obj = "\<lambda>i. \<lparr>Created = word_of_nat i, Updated = 0, Index = Itoa i, Data = test_data\<rparr>"
  let ?mem = "filter (\<lambda>kv. in_range 0 1 (fst kv)) (mem db3)"
  let ?found = "Get_visit (Decode_object J) ''test/*'' ?mem"
  have stored: "mem_contents J db3 k = Some obj \<longleftrightarrow> (\<exists>i < n. k = tested i \<and> obj = ?obj i\<lparr>Data := ?data\<rparr>)" for k obj
  proof (cases "\<exists>i < n. k = tested i")
    case True
    then obtain i where i: "i < n" "k = tested i" by blast
    have here: "mem_contents J db3 k = Some (?obj i\<lparr>Data := ?data\<rparr>)"
      using db2(3) db3(3) i n(2) tested_inject [of i 0] by (cases "i = 0") auto
    have only: "j = i" if "j < n" "k = tested j" for j using that i n(2) tested_inject [of j i] by simp
    show ?thesis
    proof
      assume "mem_contents J db3 k = Some obj"
      with here i show "\<exists>i < n. k = tested i \<and> obj = ?obj i\<lparr>Data := ?data\<rparr>" by (metis option.inject)
    next
      assume "\<exists>i < n. k = tested i \<and> obj = ?obj i\<lparr>Data := ?data\<rparr>"
      with only here show "mem_contents J db3 k = Some obj" by metis
    qed
  next
    case False
    then have "k \<notin> tested ` set [1..<n]" "k \<noteq> tested 0" using n(1) by auto
    then have "mem_contents J db3 k = None" using db2(4) db3(3) by simp
    with False show ?thesis by (metis option.distinct(1))
  qed
  have "x \<in> set ?found \<longleftrightarrow> x = ?obj 0 \<or> x = ?obj 1" for x
  proof -
    have "x \<in> set ?found \<longleftrightarrow> (\<exists>i < n. i < 2 \<and> x = ?obj i)"
    proof
      assume "x \<in> set ?found"
      then obtain k obj raw where k: "mem_contents J db3 k = Some obj" "in_range 0 1 k" "base64_decode J (Data obj) = Inr raw"
          "x = obj\<lparr>Data := raw\<rparr>"
        unfolding found_contents_if [OF db3(2), of x _ "in_range 0 1"] by blast
      then obtain i where i: "i < n" "k = tested i" "obj = ?obj i\<lparr>Data := ?data\<rparr>" unfolding stored by blast
      have "i < 2" using in_range_tested [of i] i(1,2) k(2) n(2) by simp
      then show "\<exists>i < n. i < 2 \<and> x = ?obj i" using i k(3,4) data(2) by auto
    next
      assume "\<exists>i < n. i < 2 \<and> x = ?obj i"
      then obtain i where i: "i < n" "i < 2" "x = ?obj i" by blast
      then have "mem_contents J db3 (tested i) = Some (?obj i\<lparr>Data := ?data\<rparr>)" unfolding stored by blast
      moreover have "in_range 0 1 (tested i)" using in_range_tested [of i] i(1,2) n(2) by simp
      moreover have "x = (?obj i\<lparr>Data := ?data\<rparr>)\<lparr>Data := test_data\<rparr>" using i(3) by simp
      moreover have "base64_decode J (Data (?obj i\<lparr>Data := ?data\<rparr>)) = Inr test_data" using data(2) by simp
      ultimately show "x \<in> set ?found"
        unfolding found_contents_if [OF db3(2), of x _ "in_range 0 1"] using tested_facts(3) by blast
    qed
    moreover have "(\<exists>i < n. i < 2 \<and> P i) \<longleftrightarrow> P 0 \<or> P 1" for P
      using n(1) by (metis One_nat_def Suc_1 Suc_le_lessD less_2_cases_iff not_less0 less_Suc0 nat_less_le order_less_le_trans)
    from this [of "\<lambda>i. x = ?obj i"] have "(\<exists>i < n. i < 2 \<and> x = ?obj i) \<longleftrightarrow> x = ?obj 0 \<or> x = ?obj 1" .
    ultimately show ?thesis by (rule trans)
  qed
  then have found: "set ?found = {?obj 0, ?obj 1}" by blast
  have star: "star \<in> set ''test/*''" by simp
  obtain res omitted where res: "MemoryStorage_GetNRange J db3 ''test/*'' 1 0 1 = Inr res" "length res = min (nat 1) (length ?found)"
      "mset (res @ omitted) = mset ?found" "\<forall>x \<in> set res. \<forall>y \<in> set omitted. \<not> object_less y x"
    using GetN_result [OF star, of 1 J "db3\<lparr>mem := ?mem\<rparr>"] unfolding GetNRange_eq_GetN by auto
  have all: "set res \<union> set omitted = {?obj 0, ?obj 1}"
    using res(3) found by (metis set_append set_mset_mset)
  have "length res = 1" using res(2) found by (cases ?found) auto
  then obtain x where x: "res = [x]" by (cases res) auto
  have "x = ?obj 1"
  proof (rule ccontr)
    assume other: "x \<noteq> ?obj 1"
    have mine: "x \<in> set res" using x by simp
    then have old: "x = ?obj 0" using all other by blast
    have "?obj 1 \<in> set res \<union> set omitted" unfolding all by blast
    then have "?obj 1 \<in> set omitted" using other unfolding x by simp
    with res(4) mine have "\<not> object_less (?obj 1) x" by blast
    then have "\<not> object_less (?obj 1) (?obj 0)" unfolding old .
    then show False by (simp add: object_less_def sint_max_int64)
  qed
  then have "StorageGetNRangeTest J test_data n db = Some db3"
    using res(1) x zero db2(1) db3(1) by (simp add: StorageGetNRangeTest_def Let_def)
  then show ?thesis using db3(2) by blast
qed

section \<open>The suite\<close>

text \<open>
  C32: The memory storage passes the checks of \<^verbatim>\<open>storageTest.go\<close> that are run against it: an object is written,
  updated, read and deleted; \<open>GetN\<close> of one element, after \<open>n\<close> writes at increasing times, answers
  the last one; \<open>KeysRange\<close> up to the time of the first of \<open>n\<close> built keys answers that key only,
  whatever the data is; \<open>GetNRange\<close> of one element with the times 0 and 1, of up to ten elements, answers the
  element of time 1; and each round of the benchmark leaves an empty storage empty.
\<close>

theorem storage_checks_pass:
  assumes "storage_ready J db" "base64_law J" "marshal_objects J [] = Inr ''[]''"
    and "0 < n" "n < 2 ^ 63" "\<forall>i < n. 0 \<le> sint (ts i)"
    and "\<forall>i < n. \<forall>j < n. i < j \<longrightarrow> sint (ts i) < sint (ts j)"
  shows "(\<exists>db'. StorageObjectTest J now1 now2 db = Some db' \<and> storage_ready J db') \<and>
    (\<exists>db'. StorageGetNTest J test_data ts n db = Some db' \<and> storage_ready J db') \<and>
    (\<exists>db'. StorageKeysRangeTest J any_data ts nows n db = Some db') \<and>
    (\<forall>m. 2 \<le> m \<and> m \<le> 10 \<longrightarrow> (\<exists>db'. StorageGetNRangeTest J test_data m db = Some db')) \<and>
    (mem_contents J db = Map.empty \<longrightarrow>
       (\<exists>db'. StorageSetGetDelTest J test_data rounds db = Some db' \<and> mem_contents J db' = Map.empty))"
  using object_test_passes [OF assms(1)] getn_test_passes [OF assms(1,2,4-7)]
    keys_range_test_passes [OF _ assms(4,6,7), of db J any_data nows] getnrange_test_passes [OF assms(1,2)] set_get_del_passes [OF assms(2,3,1)] assms(1)
  unfolding storage_ready_def by blast

theorem storage_checks_pass_witness:
  "(\<exists>db'. StorageGetNTest ref_wire ''{}'' (\<lambda>i. word_of_nat i) 10 fresh_storage = Some db') \<and>
   (\<exists>db'. StorageKeysRangeTest ref_wire ''{}'' (\<lambda>i. word_of_nat i) (\<lambda>i. word_of_nat i) 10 fresh_storage = Some db') \<and>
   (\<exists>db'. StorageGetNRangeTest ref_wire ''{}'' 10 fresh_storage = Some db') \<and>
   (\<exists>db'. StorageSetGetDelTest ref_wire ''{}'' [(5, 6), (7, 8)] fresh_storage = Some db')"
proof -
  have nat: "sint (word_of_nat i :: int64) = int i" if "i < 10" for i :: nat
    using that by (simp add: signed_of_nat signed_take_bit_int_eq_self)
  have "marshal_objects ref_wire [] = Inr ''[]''" by (simp add: ref_wire_def)
  moreover have "\<forall>i < 10. 0 \<le> sint (word_of_nat i :: int64)" by (simp add: nat)
  moreover have "\<forall>i < 10. \<forall>j < 10. i < j \<longrightarrow> sint (word_of_nat i :: int64) < sint (word_of_nat j :: int64)" by (simp add: nat)
  ultimately show ?thesis
    using storage_checks_pass [OF fresh_storage_ready ref_base64_law, of 10 "\<lambda>i. word_of_nat i" 1 2 "''{}''" "''{}''"
        "\<lambda>i. word_of_nat i" "[(5, 6), (7, 8)]"]
    by simp blast
qed

end
