(* ===== verification/ServerSuite.thy ===== *)
theory ServerSuite
  imports StorageSuite IoProperties
begin

text \<open>
  The check of lists of \<^verbatim>\<open>storageTest.go\<close>, which also posts through the router, as a program in the option monad like
  those of \<open>StorageSuite\<close>: a request through the router is a call of its handler. With it what the checks of a
  server share: answers, and servers nobody refuses at.
\<close>

section \<open>Lists\<close>

text \<open>The body of an answer whose status is required.\<close>

definition answered :: "nat \<Rightarrow> response \<Rightarrow> string option" where
  "answered status resp =
     (case resp of Reply code ct body \<Rightarrow> (if code = status then Some body else None) | _ \<Rightarrow> None)"

text \<open>A write whose index is required, and a list whose length is.\<close>

definition checked_set ::
  "'c codec_scheme \<Rightarrow> int64 \<Rightarrow> string \<Rightarrow> string \<Rightarrow> string \<Rightarrow> Server \<Rightarrow> Server option" where
  "checked_set J now path data index app =
     do {
       (key, db) \<leftarrow> returning (MemoryStorage_Set J now (app_Storage app) path data);
       require (key = index);
       Some (app\<lparr>app_Storage := db\<rparr>)
     }"

definition checked_list :: "'c codec_scheme \<Rightarrow> string \<Rightarrow> nat \<Rightarrow> Server \<Rightarrow> Object list option" where
  "checked_list J pattern n app =
     do {
       data \<leftarrow> no_error (MemoryStorage_Get J (app_Storage app) pattern);
       testObjects \<leftarrow> no_error (unmarshal_objects J data);
       require (length testObjects = n);
       Some testObjects
     }"

definition checked_del :: "string \<Rightarrow> Server \<Rightarrow> Server option" where
  "checked_del path app =
     do {
       (err, db) \<leftarrow> returning (MemoryStorage_Del (app_Storage app) path);
       require (err = None);
       Some (app\<lparr>app_Storage := db\<rparr>)
     }"

abbreviation posted_body :: string where
  \<open>posted_body \<equiv> ''{"data":"testpost"}''\<close>

abbreviation keys_body :: string where
  \<open>keys_body \<equiv> ''{"keys":["test/123","test/456"]}''\<close>

definition StorageListTest ::
  "(string \<Rightarrow> string) \<Rightarrow> ('p, 'c) wire_scheme \<Rightarrow> (nat \<Rightarrow> int64) \<Rightarrow> string \<Rightarrow> Server \<Rightarrow> Server option"
where
  \<open>StorageListTest ul J clock testData app0 =
     (let app1 = app0\<lparr>app_Storage := MemoryStorage_Clear (app_Storage app0)\<rparr>;
          modData = testData @ testData
      in do {
        app2 \<leftarrow> checked_set J (clock 0) ''test/123'' testData ''123'' app1;
        app3 \<leftarrow> checked_set J (clock 1) ''test/456'' modData ''456'' app2;
        testObjects \<leftarrow> checked_list J ''test/*'' 2 app3;
        require (list_all (\<lambda>obj. Index obj = ''123'' \<longrightarrow> Data obj = testData) testObjects);
        require (list_all (\<lambda>obj. Index obj = ''456'' \<longrightarrow> Data obj = modData) testObjects);
        data1 \<leftarrow> no_error (MemoryStorage_Get J (app_Storage app3) ''test/123'');
        data2 \<leftarrow> no_error (MemoryStorage_Get J (app_Storage app3) ''test/456'');
        obj1 \<leftarrow> no_error (DecodeRaw J data1);
        obj2 \<leftarrow> no_error (DecodeRaw J data2);
        require (Data obj1 = testData);
        require (Data obj2 = modData);
        keys \<leftarrow> no_error (MemoryStorage_Keys ul J (app_Storage app3));
        require (keys = keys_body);
        (resp, app4) \<leftarrow> returning (publish J (clock 2) (clock 3)
          (plain_request ''test/*'' posted_body) app3);
        body \<leftarrow> answered 200 resp;
        dat \<leftarrow> no_error (DecodeRaw J body);
        listed4 \<leftarrow> checked_list J ''test/*'' 3 app4;
        app5 \<leftarrow> checked_del (''test/'' @ Index dat) app4;
        listed5 \<leftarrow> checked_list J ''test/*'' 2 app5;
        app6 \<leftarrow> checked_set J (clock 4) ''test/glob1/glob123'' testData ''glob123'' app5;
        app7 \<leftarrow> checked_set J (clock 5) ''test/glob2/glob456'' modData ''glob456'' app6;
        listed7 \<leftarrow> checked_list J ''test/*/*'' 2 app7;
        app8 \<leftarrow> checked_set J (clock 6) ''test/1/glob/g123'' testData ''g123'' app7;
        app9 \<leftarrow> checked_set J (clock 7) ''test/2/glob/g456'' modData ''g456'' app8;
        listed9 \<leftarrow> checked_list J ''test/*/glob/*'' 2 app9;
        app10 \<leftarrow> checked_set J (clock 8) ''test1'' testData ''test1'' app9;
        app11 \<leftarrow> checked_set J (clock 9) ''test2'' modData ''test2'' app10;
        listed11 \<leftarrow> checked_list J ''*'' 2 app11;
        app12 \<leftarrow> checked_del ''*'' app11;
        listed12 \<leftarrow> checked_list J ''*'' 0 app12;
        Some app12
      })\<close>

text \<open>Storages whose keys are known.\<close>

definition holds :: "'c codec_scheme \<Rightarrow> Server \<Rightarrow> string list \<Rightarrow> bool" where
  "holds J app ks \<longleftrightarrow>
     storage_ready J (app_Storage app) \<and> distinct ks \<and> dom (mem_contents J (app_Storage app)) = set ks"

lemma checked_set_passes:
  assumes app: "holds J app ks" and path: "json_safe path" "json_safe data" "path \<notin> set ks" "LastIndex path = index"
  shows "\<exists>app'. checked_set J now path data index app = Some app' \<and> holds J app' (path # ks) \<and>
    mem_contents J (app_Storage app') = (mem_contents J (app_Storage app))(path \<mapsto>
      \<lparr>Created = now, Updated = 0, Index = index, Data = data\<rparr>) \<and>
    (\<exists>db. app' = app\<lparr>app_Storage := db\<rparr>)"
proof -
  have ready: "storage_ready J (app_Storage app)" and dom: "dom (mem_contents J (app_Storage app)) = set ks" "distinct ks"
    using app by (auto simp: holds_def)
  have "storable path data" using path(1,2) by (simp add: storable_def)
  from memory.set_spec [OF ready this, of now] obtain db where
    db: "MemoryStorage_Set J now (app_Storage app) path data = Returns (index, db)" "storage_ready J db"
      "mem_contents J db = spec_op (OpSet now path data) (mem_contents J (app_Storage app))"
    using path(4) by blast
  have "mem_contents J (app_Storage app) path = None" using dom(1) path(3) by auto
  then have c: "mem_contents J db = (mem_contents J (app_Storage app))(path \<mapsto> \<lparr>Created = now, Updated = 0, Index = index, Data = data\<rparr>)"
    using db(3) path(4) by (simp add: stamp_object_def)
  then have "holds J (app\<lparr>app_Storage := db\<rparr>) (path # ks)"
    using db(2) dom path(3) by (simp add: holds_def)
  with db(1) c show ?thesis
    by (intro exI [of _ "app\<lparr>app_Storage := db\<rparr>"]) (auto simp: checked_set_def)
qed

lemma checked_list_passes:
  assumes app: "holds J app ks" and star: "star \<in> set pattern" and n: "length (filter (Match pattern) ks) = n"
  shows "\<exists>objs. checked_list J pattern n app = Some objs \<and>
    set objs = (\<lambda>k. the (mem_contents J (app_Storage app) k)) ` set (filter (Match pattern) ks)"
proof -
  let ?c = "mem_contents J (app_Storage app)"
  have ready: "storage_ready J (app_Storage app)" and dom: "dom ?c = set ks" "distinct ks"
    using app by (auto simp: holds_def)
  obtain s objs where s: "MemoryStorage_Get J (app_Storage app) pattern = Inr s" "unmarshal_objects J s = Inr objs"
    and objs: "mset objs = image_mset (\<lambda>k. the (?c k)) (mset_set {k \<in> dom ?c. Match pattern k})"
    using memory.get_pattern [OF ready star] by blast
  have K: "{k \<in> dom ?c. Match pattern k} = set (filter (Match pattern) ks)" using dom(1) by auto
  have "mset_set (set (filter (Match pattern) ks)) = mset (filter (Match pattern) ks)"
    using mset_set_set [OF distinct_filter [OF dom(2)]] .
  then have m: "mset objs = mset (map (\<lambda>k. the (?c k)) (filter (Match pattern) ks))" using objs K by simp
  have "length objs = n" using mset_eq_length [OF m] n by simp
  moreover have "set objs = (\<lambda>k. the (?c k)) ` set (filter (Match pattern) ks)" using mset_eq_setD [OF m] by simp
  ultimately show ?thesis using s by (simp add: checked_list_def)
qed

lemma checked_del_passes:
  assumes app: "holds J app ks" and some: "star \<notin> set path \<Longrightarrow> path \<in> set ks"
  shows "\<exists>app'. checked_del path app = Some app' \<and>
    holds J app' (if star \<in> set path then filter (\<lambda>k. \<not> Match path k) ks else filter (\<lambda>k. k \<noteq> path) ks)"
proof -
  let ?c = "mem_contents J (app_Storage app)"
  have ready: "storage_ready J (app_Storage app)" and dom: "dom ?c = set ks" "distinct ks"
    using app by (auto simp: holds_def)
  have found: "\<not> (star \<notin> set path \<and> ?c path = None)" using some dom(1) by blast
  obtain db where
    db: "MemoryStorage_Del (app_Storage app) path = Returns (None, db)" "storage_ready J db"
      "mem_contents J db = spec_op (OpDel path) ?c"
    using memory.del_spec [OF ready, of path] unfolding if_not_P [OF found] by blast
  have "holds J (app\<lparr>app_Storage := db\<rparr>) (if star \<in> set path then filter (\<lambda>k. \<not> Match path k) ks else filter (\<lambda>k. k \<noteq> path) ks)"
    using db(2,3) dom by (auto simp: holds_def)
  with db(1) show ?thesis by (simp add: checked_del_def)
qed

text \<open>The glob patterns of the check, on its keys.\<close>

lemma list_test_matches:
  "filter (Match ''test/*'') [''test/456'', ''test/123''] = [''test/456'', ''test/123'']"
  "filter (Match ''test/*/*'') [''test/glob2/glob456'', ''test/glob1/glob123'', ''test/456'', ''test/123''] =
    [''test/glob2/glob456'', ''test/glob1/glob123'']"
  "filter (Match ''test/*/glob/*'') [''test/2/glob/g456'', ''test/1/glob/g123'', ''test/glob2/glob456'',
      ''test/glob1/glob123'', ''test/456'', ''test/123''] = [''test/2/glob/g456'', ''test/1/glob/g123'']"
  "filter (Match ''*'') [''test2'', ''test1'', ''test/2/glob/g456'', ''test/1/glob/g123'', ''test/glob2/glob456'',
      ''test/glob1/glob123'', ''test/456'', ''test/123''] = [''test2'', ''test1'']"
  by code_simp+

lemma list_test_indexes:
  "LastIndex ''test/123'' = ''123''" "LastIndex ''test/456'' = ''456''" "LastIndex ''test/glob1/glob123'' = ''glob123''"
  "LastIndex ''test/glob2/glob456'' = ''glob456''" "LastIndex ''test/1/glob/g123'' = ''g123''"
  "LastIndex ''test/2/glob/g456'' = ''g456''" "LastIndex ''test1'' = ''test1''" "LastIndex ''test2'' = ''test2''"
  by code_simp+

lemma list_test_keys_safe:
  "json_safe ''test/123''" "json_safe ''test/456''" "json_safe ''test/glob1/glob123''" "json_safe ''test/glob2/glob456''"
  "json_safe ''test/1/glob/g123''" "json_safe ''test/2/glob/g456''" "json_safe ''test1''" "json_safe ''test2''"
  by (simp_all add: json_safe_def json_safe_char_def)

lemma two_keys_sorted:
  assumes "storage_ready J db" "dom (mem_contents J db) = {''test/123'', ''test/456''}"
  shows "MemoryStorage_Keys ul J db = Encode_json (marshal_stats J) [''test/123'', ''test/456'']"
proof -
  have m: "distinct (map fst (mem db))" "set (map fst (mem db)) = {''test/123'', ''test/456''}"
    using assms dom_mem_contents [of J db] by (auto simp: storage_ready_def mem_ok_def)
  then have "length (map fst (mem db)) = 2" using distinct_card [OF m(1)] by simp
  then obtain a b where ab: "map fst (mem db) = [a, b]" by (auto simp: length_Suc_conv numeral_2_eq_2)
  then have "a = ''test/123'' \<and> b = ''test/456'' \<or> a = ''test/456'' \<and> b = ''test/123''"
    using m by (auto simp: doubleton_eq_iff)
  then have "sort_Slice (key_less ul) [a, b] = [''test/123'', ''test/456'']"
    by (elim disjE conjE) (simp_all add: key_less_def strings_ToLower_def is_ascii_def lower_byte_def)
  with ab show ?thesis by (simp add: MemoryStorage_Keys_def)
qed

text \<open>A server whose writes nobody refuses or filters.\<close>

definition open_server :: "Server \<Rightarrow> bool" where
  "open_server app \<longleftrightarrow>
     (\<forall>r. audit_ok app r) \<and> \<not> app_Static app \<and> Write_filters (app_filters app) = [] \<and>
     Delete_filters (app_filters app) = []"

text \<open>What the answer to a publish decodes to: an object with the index only.\<close>

definition index_law :: "'c codec_scheme \<Rightarrow> bool" where
  "index_law J \<longleftrightarrow> (\<forall>index. json_safe index \<longrightarrow> (\<exists>obj. DecodeRaw J (index_body index) = Inr obj \<and> Index obj = index))"

lemma posted_element:
  assumes app: "holds J app ks" and open_app: "open_server app" and J: "index_law J"
    and body: "DecodeReader J body = Inr event" "json_safe (MsgData event)"
    and new: "''test/'' @ FormatInt build_now 16 \<notin> set ks"
  shows "\<exists>resp app' reply dat. publish J build_now set_now (plain_request ''test/*'' body) app = Returns (resp, app') \<and>
    answered 200 resp = Some reply \<and> DecodeRaw J reply = Inr dat \<and> Index dat = FormatInt build_now 16 \<and>
    holds J app' ((''test/'' @ FormatInt build_now 16) # ks)"
proof -
  let ?r = "plain_request ''test/*'' body" and ?key = "''test/'' @ FormatInt build_now 16"
  have ready: "storage_ready J (app_Storage app)" and dom: "dom (mem_contents J (app_Storage app)) = set ks" "distinct ks"
    using app by (auto simp: holds_def)
  have "publishable ''test/*''" by code_simp
  then have p: "publishable (req_key ?r)" "audit_ok app ?r" "DecodeReader J (req_body ?r) = Inr event"
    using open_app body by (simp_all add: plain_request_def open_server_def)
  have b: "Build build_now (req_key ?r) = ?key" by (simp add: plain_request_def Build_test)
  have written: "router_check (Write_filters (app_filters app)) (Build build_now (req_key ?r)) (MsgData event) (app_Static app) = Inr (MsgData event)"
    using open_app by (simp add: open_server_def router_check_def)
  have "storable (Build build_now (req_key ?r)) (MsgData event)"
    unfolding b by (rule storable_element [OF body(2)]) simp_all
  from publish_stores [where set_now = set_now, OF ready p written this, unfolded b] obtain db where db: "publish J build_now set_now ?r app = Returns (Reply StatusOK (Some ''application/json'') (index_body (LastIndex ?key)),
        app\<lparr>app_Storage := db, notified := notified app @ watchers_check (After_filters (app_filters app)) ?key\<rparr>)"
      "storage_ready J db"
      "mem_contents J db = spec_op (OpSet set_now ?key (MsgData event)) (mem_contents J (app_Storage app))"
    by blast
  have last: "LastIndex ?key = FormatInt build_now 16"
    using LastIndex_element FormatInt_plain [of 16 build_now] by simp
  have "json_safe (FormatInt build_now 16)"
    using storable_element [OF body(2), of 16 build_now] by (simp add: storable_def json_safe_append del: append.simps)
  then obtain dat where "DecodeRaw J (index_body (FormatInt build_now 16)) = Inr dat" "Index dat = FormatInt build_now 16"
    using J unfolding index_law_def by blast
  moreover have "holds J (app\<lparr>app_Storage := db, notified := notified app @ watchers_check (After_filters (app_filters app)) ?key\<rparr>) (?key # ks)"
    using db(2,3) dom new by (simp add: holds_def)
  ultimately show ?thesis using db(1) last by (auto simp: answered_def)
qed

text \<open>
  C31: the default server passes the check of lists. On a ready storage behind a server nobody refuses at, the keys written
  below a pattern are what it lists, with their data; a post to the pattern adds one element, deleting it by the index of
  the answer takes it away; patterns with more segments list their own keys only, also at the top level, where deleting
  the pattern leaves nothing to list.
\<close>

theorem list_test_passes:
  fixes J :: "('p, 'c) wire_scheme"
  assumes ready: "storage_ready J (app_Storage app)" and open_app: "open_server app" and J: "index_law J"
    and body: "DecodeReader J posted_body = Inr event" "json_safe (MsgData event)"
    and keys: "marshal_stats J [''test/123'', ''test/456''] = Inr keys_body"
    and data: "json_safe testData"
    and new: "FormatInt (clock 2) 16 \<noteq> ''123''" "FormatInt (clock 2) 16 \<noteq> ''456''"
  shows "\<exists>app'. StorageListTest ul J clock testData app = Some app'"
proof -
  let ?built = "''test/'' @ FormatInt (clock 2) 16" and ?mod = "testData @ testData"
  let ?app1 = "app\<lparr>app_Storage := MemoryStorage_Clear (app_Storage app)\<rparr>"
  have mod: "json_safe ?mod" using data by (simp add: json_safe_append)
  have app1: "holds J ?app1 []"
    using Clear_ready [OF ready] by (simp add: holds_def)
  obtain app2 where app2: "checked_set J (clock 0) ''test/123'' testData ''123'' ?app1 = Some app2" "holds J app2 [''test/123'']"
      "mem_contents J (app_Storage app2) = (mem_contents J (app_Storage ?app1))(''test/123'' \<mapsto>
        \<lparr>Created = clock 0, Updated = 0, Index = ''123'', Data = testData\<rparr>)" "\<exists>db. app2 = ?app1\<lparr>app_Storage := db\<rparr>"
    using checked_set_passes [OF app1 list_test_keys_safe(1) data _ list_test_indexes(1), of "clock 0"] by auto
  obtain app3 where app3: "checked_set J (clock 1) ''test/456'' ?mod ''456'' app2 = Some app3"
      "holds J app3 [''test/456'', ''test/123'']"
      "mem_contents J (app_Storage app3) = (mem_contents J (app_Storage app2))(''test/456'' \<mapsto>
        \<lparr>Created = clock 1, Updated = 0, Index = ''456'', Data = ?mod\<rparr>)" "\<exists>db. app3 = app2\<lparr>app_Storage := db\<rparr>"
    using checked_set_passes [OF app2(2) list_test_keys_safe(2) mod _ list_test_indexes(2), of "clock 1"] by auto
  let ?c3 = "mem_contents J (app_Storage app3)"
  have c3: "?c3 ''test/123'' = Some \<lparr>Created = clock 0, Updated = 0, Index = ''123'', Data = testData\<rparr>"
    "?c3 ''test/456'' = Some \<lparr>Created = clock 1, Updated = 0, Index = ''456'', Data = ?mod\<rparr>"
    using app2(3) app3(3) by simp_all
  have ready3: "storage_ready J (app_Storage app3)" "dom ?c3 = {''test/123'', ''test/456''}"
    using app3(2) by (auto simp: holds_def)
  have stars: "star \<in> set ''test/*''" "star \<in> set ''test/*/*''" "star \<in> set ''test/*/glob/*''" "star \<in> set ''*''"
    "star \<notin> set ''test/123''" "star \<notin> set ''test/456''" by simp_all
  have "length (filter (Match ''test/*'') [''test/456'', ''test/123'']) = 2" unfolding list_test_matches(1) by simp
  from checked_list_passes [OF app3(2) stars(1) this] obtain objs3 where
    objs3: "checked_list J ''test/*'' 2 app3 = Some objs3"
      "set objs3 = (\<lambda>k. the (?c3 k)) ` {''test/456'', ''test/123''}"
    unfolding list_test_matches(1) by auto
  have data3: "list_all (\<lambda>obj. Index obj = ''123'' \<longrightarrow> Data obj = testData) objs3"
    "list_all (\<lambda>obj. Index obj = ''456'' \<longrightarrow> Data obj = ?mod) objs3"
    unfolding list_all_iff objs3(2) by (simp_all add: c3)
  obtain data1 obj1 where one: "MemoryStorage_Get J (app_Storage app3) ''test/123'' = Inr data1" "DecodeRaw J data1 = Inr obj1" "Data obj1 = testData"
    using memory.get_key [OF ready3(1) stars(5)] c3(1) by auto
  obtain data2 obj2 where two: "MemoryStorage_Get J (app_Storage app3) ''test/456'' = Inr data2" "DecodeRaw J data2 = Inr obj2" "Data obj2 = ?mod"
    using memory.get_key [OF ready3(1) stars(6)] c3(2) by auto
  have keys3: "MemoryStorage_Keys ul J (app_Storage app3) = Inr keys_body"
    using two_keys_sorted [OF ready3] keys by (simp add: Encode_json_def)
  have open3: "open_server app3"
    using open_app app2(4) app3(4) by (auto simp: open_server_def audit_ok_def)
  have "?built \<notin> set [''test/456'', ''test/123'']" using new by simp
  from posted_element [OF app3(2) open3 J body this, of "clock 3"] obtain resp app4 reply dat where
    posted: "publish J (clock 2) (clock 3) (plain_request ''test/*'' posted_body) app3 = Returns (resp, app4)"
      "answered 200 resp = Some reply" "DecodeRaw J reply = Inr dat" "Index dat = FormatInt (clock 2) 16"
      "holds J app4 [?built, ''test/456'', ''test/123'']"
    by blast
  have covered: "Match ''test/*'' ?built" using Match_element FormatInt_plain [of 16 "clock 2"] by simp
  have "length (filter (Match ''test/*'') [?built, ''test/456'', ''test/123'']) = 3"
    using covered list_test_matches(1) by (simp only: filter.simps if_True) simp
  from checked_list_passes [OF posted(5) stars(1) this] obtain objs4 where
    objs4: "checked_list J ''test/*'' 3 app4 = Some objs4" by blast
  have "star \<notin> set ?built" using FormatInt_plain [of 16 "clock 2"] by simp
  with checked_del_passes [OF posted(5), of ?built] new obtain app5 where
    app5: "checked_del ?built app4 = Some app5" "holds J app5 [''test/456'', ''test/123'']"
    by auto
  let ?k5 = "[''test/456'', ''test/123'']"
  have "length (filter (Match ''test/*'') ?k5) = 2" unfolding list_test_matches(1) by simp
  from checked_list_passes [OF app5(2) stars(1) this] obtain objs5 where
    objs5: "checked_list J ''test/*'' 2 app5 = Some objs5" by blast
  obtain app6 where app6: "checked_set J (clock 4) ''test/glob1/glob123'' testData ''glob123'' app5 = Some app6"
      "holds J app6 (''test/glob1/glob123'' # ?k5)"
    using checked_set_passes [OF app5(2) list_test_keys_safe(3) data _ list_test_indexes(3), of "clock 4"] by auto
  obtain app7 where app7: "checked_set J (clock 5) ''test/glob2/glob456'' ?mod ''glob456'' app6 = Some app7"
      "holds J app7 (''test/glob2/glob456'' # ''test/glob1/glob123'' # ?k5)"
    using checked_set_passes [OF app6(2) list_test_keys_safe(4) mod _ list_test_indexes(4), of "clock 5"] by auto
  let ?k7 = "''test/glob2/glob456'' # ''test/glob1/glob123'' # ?k5"
  have "length (filter (Match ''test/*/*'') ?k7) = 2" unfolding list_test_matches(2) by simp
  from checked_list_passes [OF app7(2) stars(2) this] obtain objs7 where
    objs7: "checked_list J ''test/*/*'' 2 app7 = Some objs7" by blast
  obtain app8 where app8: "checked_set J (clock 6) ''test/1/glob/g123'' testData ''g123'' app7 = Some app8"
      "holds J app8 (''test/1/glob/g123'' # ?k7)"
    using checked_set_passes [OF app7(2) list_test_keys_safe(5) data _ list_test_indexes(5), of "clock 6"] by auto
  obtain app9 where app9: "checked_set J (clock 7) ''test/2/glob/g456'' ?mod ''g456'' app8 = Some app9"
      "holds J app9 (''test/2/glob/g456'' # ''test/1/glob/g123'' # ?k7)"
    using checked_set_passes [OF app8(2) list_test_keys_safe(6) mod _ list_test_indexes(6), of "clock 7"] by auto
  let ?k9 = "''test/2/glob/g456'' # ''test/1/glob/g123'' # ?k7"
  have "length (filter (Match ''test/*/glob/*'') ?k9) = 2" unfolding list_test_matches(3) by simp
  from checked_list_passes [OF app9(2) stars(3) this] obtain objs9 where
    objs9: "checked_list J ''test/*/glob/*'' 2 app9 = Some objs9" by blast
  obtain app10 where app10: "checked_set J (clock 8) ''test1'' testData ''test1'' app9 = Some app10" "holds J app10 (''test1'' # ?k9)"
    using checked_set_passes [OF app9(2) list_test_keys_safe(7) data _ list_test_indexes(7), of "clock 8"] by auto
  obtain app11 where app11: "checked_set J (clock 9) ''test2'' ?mod ''test2'' app10 = Some app11" "holds J app11 (''test2'' # ''test1'' # ?k9)"
    using checked_set_passes [OF app10(2) list_test_keys_safe(8) mod _ list_test_indexes(8), of "clock 9"] by auto
  have "length (filter (Match ''*'') (''test2'' # ''test1'' # ?k9)) = 2" unfolding list_test_matches(4) by simp
  from checked_list_passes [OF app11(2) stars(4) this] obtain objs11 where
    objs11: "checked_list J ''*'' 2 app11 = Some objs11" by blast
  obtain app12 where app12: "checked_del ''*'' app11 = Some app12"
      "holds J app12 (filter (\<lambda>k. \<not> Match ''*'' k) (''test2'' # ''test1'' # ?k9))"
    using checked_del_passes [OF app11(2), of "''*''"] stars(4) by auto
  have "length (filter (Match ''*'') (filter (\<lambda>k. \<not> Match ''*'' k) (''test2'' # ''test1'' # ?k9))) = 0"
    by (simp add: filter_empty_conv del: filter.simps)
  from checked_list_passes [OF app12(2) stars(4) this] obtain objs12 where
    objs12: "checked_list J ''*'' 0 app12 = Some objs12" by blast
  have "StorageListTest ul J clock testData app = Some app12"
    by (simp only: StorageListTest_def Let_def app2(1) app3(1) objs3(1) data3 one two keys3 posted(1,2,3,4) objs4 app5(1) objs5
        app6(1) app7(1) objs7 app8(1) app9(1) objs9 app10(1) app11(1) objs11 app12(1) objs12
        Option.bind_lunit returning_simps require_simps no_error_simps prod.case simp_thms)
  then show ?thesis by blast
qed

end
