(* ===== verification/StreamSuite.thy ===== *)
theory StreamSuite
  imports ServerSuite Overtaking
begin

text \<open>
  \<^verbatim>\<open>src/streamTest.go\<close>: the checks of the messages a subscription brings, in the option monad. A check dials a
  websocket, posts and deletes through the router, waits for the message of each and applies it to what it has.
\<close>

section \<open>The other end of a websocket\<close>

text \<open>
  Dialling, and the first message: the handler is called and the goroutine it leaves has its turn.
\<close>

definition websocket_request :: "string \<Rightarrow> request" where
  "websocket_request key = (plain_request key '''')\<lparr>req_websocket := True\<rparr>"

definition dial :: "'c codec_scheme \<Rightarrow> int64 \<Rightarrow> string \<Rightarrow> Server \<Rightarrow> (Conn \<times> Server) option" where
  "dial J now key app =
     (case read J now (websocket_request key) app of
        (Upgraded c, app1) \<Rightarrow> map_option (Pair c) (run_spawned (length (spawned app1) - 1) app1)
      | _ \<Rightarrow> None)"

text \<open>The message read last.\<close>

definition last_event :: "('p, 'c) wire_scheme \<Rightarrow> Conn \<Rightarrow> Server \<Rightarrow> Message option" where
  "last_event J c app =
     (let frames = sent (sockets (app_Stream app) c)
      in if frames = [] then None else no_error (DecodeBuffer J (last frames)))"

definition apply_patch :: "('p, 'c) wire_scheme \<Rightarrow> string \<Rightarrow> string \<Rightarrow> string option" where
  "apply_patch J data wsCache =
     do {
       decoded \<leftarrow> no_error (DecodePatch J data);
       patch \<leftarrow> decoded;
       modified \<leftarrow> no_error (patch_Apply J patch wsCache);
       modified
     }"

text \<open>
  A post that is answered 200, with the object in the answer, and its broadcast; the times are those of the
  key, of the write and of the broadcast.
\<close>

definition data_body :: "string \<Rightarrow> string" where
  \<open>data_body testData = ''{"data":"'' @ testData @ ''"}''\<close>

definition post_event ::
  "('p, 'c) wire_scheme \<Rightarrow> int64 \<times> int64 \<times> int64 \<Rightarrow> string \<Rightarrow> string \<Rightarrow> Server \<Rightarrow> (Object \<times> Server) option" where
  "post_event J ts key testData app =
     (case ts of (build_now, set_now, now) \<Rightarrow>
       do {
         (resp, app1) \<leftarrow> returning (publish J build_now set_now (plain_request key (data_body testData)) app);
         body \<leftarrow> answered 200 resp;
         postObject \<leftarrow> no_error (DecodeRaw J body);
         app2 \<leftarrow> watch_step J (\<lambda>i. now) app1;
         Some (postObject, app2)
       })"

definition delete_event :: "('p, 'c) wire_scheme \<Rightarrow> int64 \<Rightarrow> string \<Rightarrow> Server \<Rightarrow> Server option" where
  "delete_event J now key app =
     do {
       (resp, app1) \<leftarrow> returning (unpublish (plain_request key '''') app);
       body \<leftarrow> answered 204 resp;
       watch_step J (\<lambda>i. now) app1
     }"

section \<open>The checks\<close>

text \<open>The second patch is applied to the first document again, as in the source.\<close>

definition StreamBroadcastTest ::
  "('p, 'c) wire_scheme \<Rightarrow> (nat \<Rightarrow> int64) \<Rightarrow> string \<Rightarrow> Server \<Rightarrow> Server option" where
  "StreamBroadcastTest J clock testData app =
     do {
       (c, app1) \<leftarrow> dial J (clock 0) ''test'' app;
       wsEvent1 \<leftarrow> last_event J c app1;
       let wsCache = MsgData wsEvent1;
       wsVersion \<leftarrow> (case ParseInt (MsgVersion wsEvent1) 16 of Inl err \<Rightarrow> None | Inr v \<Rightarrow> Some v);
       streamCacheVersion \<leftarrow> no_error (GetCacheVersion ''test'' (app_Stream app1));
       (postObject, app2) \<leftarrow> post_event J (clock 1, clock 2, clock 3) ''test'' testData app1;
       require (wsVersion = streamCacheVersion);
       wsEvent2 \<leftarrow> last_event J c app2;
       modified2 \<leftarrow> apply_patch J (MsgData wsEvent2) wsCache;
       wsObject2 \<leftarrow> no_error (unmarshal_object J modified2);
       require (Index wsObject2 = Index postObject);
       require (Data wsObject2 = testData);
       app3 \<leftarrow> delete_event J (clock 4) ''test'' app2;
       wsEvent3 \<leftarrow> last_event J c app3;
       modified3 \<leftarrow> apply_patch J (MsgData wsEvent3) wsCache;
       wsObject3 \<leftarrow> no_error (unmarshal_object J modified3);
       require (Created wsObject3 = 0);
       Some app3
     }"

definition StreamItemGlobBroadcastTest ::
  "('p, 'c) wire_scheme \<Rightarrow> (nat \<Rightarrow> int64) \<Rightarrow> string \<Rightarrow> Server \<Rightarrow> Server option" where
  "StreamItemGlobBroadcastTest J clock testData app =
     do {
       (c, app1) \<leftarrow> dial J (clock 0) ''test/1'' app;
       wsEvent1 \<leftarrow> last_event J c app1;
       let wsCache1 = MsgData wsEvent1;
       (postObject, app2) \<leftarrow> post_event J (clock 1, clock 2, clock 3) ''test/1'' testData app1;
       wsEvent2 \<leftarrow> last_event J c app2;
       wsCache2 \<leftarrow> apply_patch J (MsgData wsEvent2) wsCache1;
       wsObject2 \<leftarrow> no_error (unmarshal_object J wsCache2);
       require (Index wsObject2 = Index postObject);
       require (Data wsObject2 = testData);
       app3 \<leftarrow> delete_event J (clock 4) ''test/*'' app2;
       wsEvent3 \<leftarrow> last_event J c app3;
       modified3 \<leftarrow> apply_patch J (MsgData wsEvent3) wsCache2;
       wsObject3 \<leftarrow> no_error (unmarshal_object J modified3);
       require (Created wsObject3 = 0);
       Some app3
     }"

text \<open>The posts of the list check: the last object posted, the list read last and the document.\<close>

fun GlobBroadcastTest_posts ::
  "('p, 'c) wire_scheme \<Rightarrow> string \<Rightarrow> Conn \<Rightarrow> (int64 \<times> int64 \<times> int64) list \<Rightarrow> Object \<times> Object list \<times> string \<times> Server \<Rightarrow>
     (Object \<times> Object list \<times> string \<times> Server) option"
where
  "GlobBroadcastTest_posts J testData c [] st = Some st"
| "GlobBroadcastTest_posts J testData c (t # ts) (postObject, wsObject, wsCache, app) =
     do {
       (postObject, app1) \<leftarrow> post_event J t ''test/*'' testData app;
       wsEvent \<leftarrow> last_event J c app1;
       (wsObject, wsCache) \<leftarrow>
         (if \<not> MsgSnapshot wsEvent then
            do {
              modified \<leftarrow> apply_patch J (MsgData wsEvent) wsCache;
              objs \<leftarrow> no_error (unmarshal_objects J modified);
              Some (objs, modified)
            }
          else Some (wsObject, MsgData wsEvent));
       GlobBroadcastTest_posts J testData c ts (postObject, wsObject, wsCache, app1)
     }"

definition zero_Object :: Object where
  "zero_Object = \<lparr>Created = 0, Updated = 0, Index = '''', Data = ''''\<rparr>"

definition StreamGlobBroadcastTest ::
  "('p, 'c) wire_scheme \<Rightarrow> int64 \<Rightarrow> (int64 \<times> int64 \<times> int64) list \<Rightarrow> int64 \<Rightarrow> string \<Rightarrow> Server \<Rightarrow> Server option" where
  "StreamGlobBroadcastTest J start ts end_now testData app =
     do {
       (c, app1) \<leftarrow> dial J start ''test/*'' app;
       wsEvent1 \<leftarrow> last_event J c app1;
       (postObject, wsObject, wsCache, app2) \<leftarrow>
         GlobBroadcastTest_posts J testData c ts (zero_Object, [], MsgData wsEvent1, app1);
       require (wsObject \<noteq> []);
       require (Index (wsObject ! 0) = Index postObject);
       require (Data (wsObject ! 0) = testData);
       app3 \<leftarrow> delete_event J end_now ''test/*'' app2;
       wsEvent3 \<leftarrow> last_event J c app3;
       modified \<leftarrow> (if \<not> MsgSnapshot wsEvent3 then apply_patch J (MsgData wsEvent3) wsCache else Some (MsgData wsEvent3));
       wsObject3 \<leftarrow> no_error (unmarshal_objects J modified);
       require (length wsObject3 = 0);
       Some app3
     }"

text \<open>The other two start a server of their own.\<close>

definition started_server :: "(string \<Rightarrow> string result) \<Rightarrow> Server \<Rightarrow> Server option" where
  "started_server listen app =
     (case Server_Start listen ''localhost:0'' app of
        Fatal m \<Rightarrow> None
      | Runs app1 \<Rightarrow> Some (app1\<lparr>app_Storage := MemoryStorage_Clear (app_Storage app1)\<rparr>))"

definition StreamBroadcastFilterTest ::
  "(string \<Rightarrow> string result) \<Rightarrow> ('p, 'c) wire_scheme \<Rightarrow> (nat \<Rightarrow> int64) \<Rightarrow> string \<Rightarrow> Server \<Rightarrow> Server option"
where
  "StreamBroadcastFilterTest listen J clock testData app0 =
     do {
       app1 \<leftarrow> started_server listen (app0\<lparr>app_filters :=
         ReadFilter ''test/*'' (\<lambda>index data. Inr ''extra'') (app_filters app0)\<rparr>);
       (c, app2) \<leftarrow> dial J (clock 0) ''test/*'' app1;
       wsEvent2 \<leftarrow> last_event J c app2;
       (postObject, app3) \<leftarrow> post_event J (clock 1, clock 2, clock 3) ''test/*'' testData app2;
       wsExtraEvent \<leftarrow> last_event J c app3;
       require (MsgSnapshot wsExtraEvent = False);
       require (MsgData wsExtraEvent = ''[]'');
       Some app3
     }"

definition StreamBroadcastNoPatchTest ::
  "(string \<Rightarrow> string result) \<Rightarrow> ('p, 'c) wire_scheme \<Rightarrow> (nat \<Rightarrow> int64) \<Rightarrow> string \<Rightarrow> Server \<Rightarrow> Server option"
where
  "StreamBroadcastNoPatchTest listen J clock testData app0 =
     do {
       app1 \<leftarrow> started_server listen (app0\<lparr>app_NoPatch := True\<rparr>);
       (c, app2) \<leftarrow> dial J (clock 0) ''test/*'' app1;
       wsEvent2 \<leftarrow> last_event J c app2;
       require (MsgSnapshot wsEvent2);
       (postObject3, app3) \<leftarrow> post_event J (clock 1, clock 2, clock 3) ''test/*'' testData app2;
       wsEvent3 \<leftarrow> last_event J c app3;
       require (MsgSnapshot wsEvent3);
       (postObject4, app4) \<leftarrow> post_event J (clock 4, clock 5, clock 6) ''test/*'' testData app3;
       wsEvent4 \<leftarrow> last_event J c app4;
       require (MsgSnapshot wsEvent4);
       Some app4
     }"

end
