(* ===== verification/StreamSuiteFacts.thy ===== *)
theory StreamSuiteFacts
  imports StreamSuite
begin

text \<open>
  What a subscription brings in the runs of the stream checks: the messages of the dialling, of a post and of a
  delete, for one connection on a server with nothing waiting.
\<close>

section \<open>A connection that hears its pool\<close>

definition hears :: "bool \<Rightarrow> bool \<Rightarrow> Conn \<Rightarrow> string \<Rightarrow> string \<Rightarrow> Stream \<Rightarrow> bool" where
  "hears np fp c key doc sm \<longleftrightarrow>
     stream_ok sm \<and> NoPatch sm = np \<and> ForcePatch sm = fp \<and> 1 < length (pools sm) \<and>
     PoolKey (pools sm ! 1) = key \<and> CacheData (cache (pools sm ! 1)) = doc \<and>
     c \<in> set (connections (pools sm ! 1)) \<and> alive sm c"

text \<open>The message that takes a subscriber from one document to the next.\<close>

definition told :: "('p, 'c) wire_scheme \<Rightarrow> bool \<Rightarrow> bool \<Rightarrow> int64 \<Rightarrow> string \<Rightarrow> string \<Rightarrow> Message" where
  "told J np fp now doc doc' =
     (case fst (Patch_pool J np fp now doc'
         \<lparr>PoolKey = '''', cache = \<lparr>Version = 0, CacheData = doc\<rparr>, connections = []\<rparr>) of
        (m, s, v) \<Rightarrow> \<lparr>MsgData = strings_Trim m newline, MsgVersion = FormatInt now 16, MsgSnapshot = s\<rparr>)"

lemma Patch_pool_told:
  assumes "CacheData (cache p) = doc" "fst (Patch_pool J np fp now doc' p) = (m, s, v)"
  shows "told J np fp now doc doc' = \<lparr>MsgData = strings_Trim m newline, MsgVersion = FormatInt now 16, MsgSnapshot = s\<rparr>"
proof -
  let ?q = "\<lparr>PoolKey = '''', cache = \<lparr>Version = 0, CacheData = doc\<rparr>, connections = []\<rparr>"
  have "fst (Patch_pool J np fp now doc' ?q) = fst (Patch_pool J np fp now doc' p)"
    using assms(1) by (simp add: Patch_pool_def split: sum.split)
  with assms(2) show ?thesis by (simp add: told_def)
qed

lemma hears_Broadcast:
  fixes nows :: "nat \<Rightarrow> int64" and J :: "('p, 'c) wire_scheme" and opt path
  assumes laws: "wire_laws J same_json" and here: "hears np fp c key doc sm"
    and opt: "opt_Encode opt = Encode J" "opt_Get opt key = Inr doc'" and peer: "Peer key path"
  defines "sm' \<equiv> Broadcast J nows opt path sm"
  shows "hears np fp c key doc' sm' \<and> sent (sockets sm' c) \<noteq> [] \<and>
    DecodeBuffer J (last (sent (sockets sm' c))) = Inr (told J np fp (nows 1) doc doc')"
proof -
  let ?p = "pools sm ! 1"
  have ok: "stream_ok sm" and i: "1 < length (pools sm)" "PoolKey ?p = key" "CacheData (cache ?p) = doc"
      "c \<in> set (connections ?p)" and live: "alive sm c" and patching: "NoPatch sm = np" "ForcePatch sm = fp"
    using here by (auto simp: hears_def)
  obtain m s v where msv: "fst (Patch_pool J np fp (nows 1) doc' ?p) = (m, s, v)" using prod_cases3 by blast
  then have v: "v = nows 1" by (rule Patch_pool_version)
  have pool: "pools sm' ! 1 = setCache_pool (nows 1) doc' ?p"
    using Broadcast_pool [OF ok i(1), of J nows opt path] peer opt(2) i(2) by (simp add: sm'_def pool_after_def)
  have "frame_for J nows opt path sm 1 = Some (frame (Encode J m) s v)"
    using peer opt i(2) msv patching by (simp add: pool_frame_def)
  then have sock: "sockets sm' c = deliver (frame (Encode J m) s v) (sockets sm c)"
    using Broadcast_socket [OF ok i(1) _ i(4), of J nows opt path] by (simp add: sm'_def deliver_option_def)
  then have sent: "sent (sockets sm' c) = sent (sockets sm c) @ [frame (Encode J m) s v]"
    using live by (simp add: deliver_def alive_def)
  have "stream_le sm sm'" "stream_ok sm'" "length (pools sm') = length (pools sm)"
    using broadcast.forward [OF ok] broadcast.keeps_ok [OF ok] Broadcast_length [OF ok] by (auto simp: sm'_def)
  moreover have "alive sm' c" using Broadcast_alive [where J = J, OF ok live] by (simp add: sm'_def)
  ultimately have "hears np fp c key doc' sm'"
    using i pool patching by (simp add: hears_def stream_le_def)
  moreover have "DecodeBuffer J (frame (Encode J m) s v) = Inr (told J np fp (nows 1) doc doc')"
    using DecodeBuffer_frame [OF laws] Patch_pool_told [OF i(3) msv] v by simp
  ultimately show ?thesis using sent by simp
qed

section \<open>A server with one subscription\<close>

text \<open>
  Nobody refuses, filters or mutes, no event waits; \<open>shown\<close> is what the read filters make of what is stored
  at the key.
\<close>

definition calm_server :: "'c codec_scheme \<Rightarrow> (string \<Rightarrow> string) \<Rightarrow> string \<Rightarrow> Server \<Rightarrow> bool" where
  "calm_server J shown key app \<longleftrightarrow>
     server_up J app \<and> open_server app \<and> 0 < watching app \<and>
     (\<forall>raw. router_check (Read_filters (app_filters app)) key raw False = Inr (shown raw)) \<and>
     mem_pending (app_Storage app) = [] \<and> (\<forall>k. \<not> mem_muted (app_Storage app) k)"

definition shown_data :: "'c codec_scheme \<Rightarrow> (string \<Rightarrow> string) \<Rightarrow> string \<Rightarrow> Server \<Rightarrow> string" where
  "shown_data J shown key app = shown (raw_data J (app_Storage app) key)"

definition attached ::
  "'c codec_scheme \<Rightarrow> bool \<Rightarrow> bool \<Rightarrow> (string \<Rightarrow> string) \<Rightarrow> Conn \<Rightarrow> string \<Rightarrow> Server \<Rightarrow> bool" where
  "attached J np fp shown c key app \<longleftrightarrow>
     calm_server J shown key app \<and> hears np fp c key (shown_data J shown key app) (app_Stream app)"

lemma calm_data:
  "calm_server J shown key app \<Longrightarrow> getFilteredData J app key = Inr (shown_data J shown key app)"
  by (simp add: calm_server_def open_server_def getFilteredData_raw shown_data_def)

lemma shown_data_cong:
  "mem (app_Storage app') = mem (app_Storage app) \<Longrightarrow> shown_data J shown key app' = shown_data J shown key app"
  by (simp add: shown_data_def raw_data_def MemoryStorage_Get_def)

text \<open>A calm server in which one event waits, for the worker.\<close>

lemma worker_tells:
  assumes laws: "wire_laws J same_json" and here: "hears np fp c key doc (app_Stream app)"
    and calm: "calm_server J shown key (app\<lparr>app_Storage := (app_Storage app)\<lparr>watcher := Some []\<rparr>\<rparr>)"
    and event: "watcher (app_Storage app) = Some [ev]" "EvKey ev \<noteq> ''''" "Peer key (EvKey ev)"
  shows "\<exists>app'. watch_step J (\<lambda>i. now) app = Some app' \<and> attached J np fp shown c key app' \<and>
    app_Storage app' = (app_Storage app)\<lparr>watcher := Some []\<rparr> \<and>
    last_event J c app' = Some (told J np fp now doc (shown_data J shown key app'))"
proof -
  let ?app = "app\<lparr>app_Storage := (app_Storage app)\<lparr>watcher := Some []\<rparr>\<rparr>"
  let ?sm = "Broadcast J (\<lambda>i. now) (broadcast_opt J ?app) (EvKey ev) (app_Stream app)"
  let ?app' = "?app\<lparr>app_Stream := ?sm\<rparr>"
  let ?doc = "shown_data J shown key ?app"
  have st: "started (app_Storage ?app)" using calm by (simp add: calm_server_def server_up_def storage_ready_def)
  have act: "MemoryStorage_Active (app_Storage (watch_event J (\<lambda>i. now) ev ?app)) = Returns True"
    using st by (auto simp: watch_event_def started_def MemoryStorage_Active_def)
  have w: "watch_step J (\<lambda>i. now) app = Some ?app'"
    using calm event act by (simp add: watch_step_def Let_def calm_server_def watch_event_def)
  have get: "opt_Get (broadcast_opt J ?app) key = Inr ?doc" using calm_data [OF calm] by simp
  have enc: "opt_Encode (broadcast_opt J ?app) = Encode J" by simp
  note tells = hears_Broadcast [where nows = "\<lambda>i. now", OF laws here enc get event(3)]
  have same: "shown_data J shown key ?app' = ?doc" by (rule shown_data_cong) simp
  have hears: "hears np fp c key ?doc ?sm" using tells by blast
  then have "stream_ok ?sm" by (simp add: hears_def)
  then have "calm_server J shown key ?app'"
    using calm by (simp add: calm_server_def server_up_def Server_Active_def open_server_def audit_ok_def)
  then have "attached J np fp shown c key ?app'" using hears same by (simp add: attached_def)
  moreover have "last_event J c ?app' = Some (told J np fp now doc ?doc)"
    using tells by (simp add: last_event_def Let_def no_error_def)
  ultimately show ?thesis using w same by auto
qed

section \<open>Posting and deleting\<close>

text \<open>The body of a post.\<close>

definition post_body_law :: "('p, 'c) wire_scheme \<Rightarrow> bool" where
  "post_body_law J \<longleftrightarrow>
     (\<forall>data. json_safe data \<longrightarrow> (\<exists>m. decoder_message J (data_body data) = Inr m \<and> MsgData m = data))"

lemma DecodeReader_data_body:
  assumes "post_body_law J" "base64_law J" "Encode J raw \<noteq> ''''"
  shows "\<exists>event. DecodeReader J (data_body (Encode J raw)) = Inr event \<and> MsgData event = Encode J raw"
proof -
  have "json_safe (Encode J raw)" and undone: "base64_decode J (Encode J raw) = Inr raw"
    using assms(2) by (simp_all add: base64_law_def Encode_def)
  then obtain m where "decoder_message J (data_body (Encode J raw)) = Inr m" "MsgData m = Encode J raw"
    using assms(1) by (auto simp: post_body_law_def)
  with undone assms(3) show ?thesis by (simp add: DecodeReader_def)
qed

lemma calm_stored:
  assumes "calm_server J shown key app" "storage_ready J db" "mem_muted db = mem_muted (app_Storage app)"
    and "mem_pending db = mem_pending (app_Storage app) @ [ev]"
  shows "watcher db = Some [ev] \<and>
    calm_server J shown key (app\<lparr>notified := n, app_Storage := db\<lparr>watcher := Some []\<rparr>\<rparr>)"
proof -
  have m: "mem_muted (db\<lparr>watcher := Some []\<rparr>) = mem_muted db" by (rule mem_muted_cong) simp
  have "watcher db = Some [ev]"
    using assms by (auto simp: calm_server_def storage_ready_def started_def mem_pending_def)
  moreover have "storage_ready J (db\<lparr>watcher := Some []\<rparr>)" using assms(2) by (simp add: storage_ready_def started_def)
  ultimately show ?thesis
    using assms(1,3) m
    by (simp add: calm_server_def server_up_def Server_Active_def open_server_def audit_ok_def mem_pending_def)
qed

lemma post_tells:
  assumes laws: "wire_laws J same_json" and J: "index_law J" "post_body_law J"
    and here: "attached J np fp shown c key app" and key: "publishable key" "Build b key \<noteq> ''''" "Peer key (Build b key)"
    and data: "testData = Encode J raw" "testData \<noteq> ''''"
  shows "\<exists>postObject app'. post_event J (b, n, now) key testData app = Some (postObject, app') \<and>
    Index postObject = LastIndex (Build b key) \<and> attached J np fp shown c key app' \<and>
    last_event J c app' = Some (told J np fp now (shown_data J shown key app) (shown_data J shown key app')) \<and>
    mem_contents J (app_Storage app') = spec_op (OpSet n (Build b key) testData) (mem_contents J (app_Storage app)) \<and>
    map_of (mem (app_Storage app')) (Build b key) =
      Some (New J (stamp_object n (mem_contents J (app_Storage app) (Build b key)) (Build b key) testData))"
proof -
  let ?r = "plain_request key (data_body testData)" and ?key = "Build b key"
  have calm: "calm_server J shown key app" and hears: "hears np fp c key (shown_data J shown key app) (app_Stream app)"
    using here by (auto simp: attached_def)
  have ready: "storage_ready J (app_Storage app)" and open_app: "open_server app"
    and muted: "\<not> mem_muted (app_Storage app) ?key"
    using calm by (auto simp: calm_server_def server_up_def)
  have b64: "base64_law J" using laws by (simp add: wire_laws_def)
  obtain event where event: "DecodeReader J (data_body testData) = Inr event" "MsgData event = testData"
    using DecodeReader_data_body [OF J(2) b64] data by auto
  have k: "req_key ?r = key" by (simp add: plain_request_def)
  have p: "publishable (req_key ?r)" "audit_ok app ?r" "DecodeReader J (req_body ?r) = Inr event"
    using key(1) open_app event(1) by (simp_all add: plain_request_def open_server_def)
  have valid: "IsValid key" using key(1) by (simp add: publishable_iff)
  have safe: "storable (Build b (req_key ?r)) testData"
    using b64 data(1) json_safe_Build [OF valid] by (simp add: storable_def base64_law_def Encode_def plain_request_def)
  have written: "router_check (Write_filters (app_filters app)) (Build b (req_key ?r)) (MsgData event) (app_Static app) = Inr testData"
    using open_app event(2) by (simp add: open_server_def router_check_def)
  obtain db where db: "publish J b n ?r app = Returns (Reply StatusOK (Some ''application/json'') (index_body (LastIndex ?key)),
        app\<lparr>app_Storage := db, notified := notified app @ watchers_check (After_filters (app_filters app)) ?key\<rparr>)"
      "MemoryStorage_Set J n (app_Storage app) ?key testData = Returns (LastIndex ?key, db)" "storage_ready J db"
      "mem_contents J db = spec_op (OpSet n ?key testData) (mem_contents J (app_Storage app))"
      "mem_muted db = mem_muted (app_Storage app)"
      "mem_pending db = mem_pending (app_Storage app) @ [\<lparr>EvKey = ?key, EvOperation = ''set''\<rparr>]"
    using publish_stores [where set_now = n, OF ready p written safe, unfolded k] muted by auto
  let ?n = "notified app @ watchers_check (After_filters (app_filters app)) ?key"
  let ?app1 = "app\<lparr>app_Storage := db, notified := ?n\<rparr>"
  have "json_safe (LastIndex ?key)"
    using safe by (simp add: storable_def json_safe_LastIndex plain_request_def)
  then obtain postObject where post: "DecodeRaw J (index_body (LastIndex ?key)) = Inr postObject" "Index postObject = LastIndex ?key"
    using J(1) unfolding index_law_def by blast
  have calm1: "watcher db = Some [\<lparr>EvKey = ?key, EvOperation = ''set''\<rparr>]"
    "calm_server J shown key (?app1\<lparr>app_Storage := (app_Storage ?app1)\<lparr>watcher := Some []\<rparr>\<rparr>)"
    using calm_stored [where n = ?n, OF calm db(3,5,6)] by simp_all
  have hears1: "hears np fp c key (shown_data J shown key app) (app_Stream ?app1)" using hears by simp
  have event1: "watcher (app_Storage ?app1) = Some [\<lparr>EvKey = ?key, EvOperation = ''set''\<rparr>]" using calm1(1) by simp
  from worker_tells [where app = ?app1 and now = now, OF laws hears1 calm1(2) event1] key(2,3) obtain app' where
    app': "watch_step J (\<lambda>i. now) ?app1 = Some app'" "attached J np fp shown c key app'"
      "app_Storage app' = db\<lparr>watcher := Some []\<rparr>"
      "last_event J c app' = Some (told J np fp now (shown_data J shown key app) (shown_data J shown key app'))"
    by auto
  have m': "mem (app_Storage app') = mem db" using app'(3) by simp
  have "mem_ok J (mem (app_Storage app))" using ready by (simp add: storage_ready_def)
  then have "map_of (mem (app_Storage app')) ?key = Some (New J (stamp_object n (mem_contents J (app_Storage app) ?key) ?key testData))"
    using db(2) unfolding m' Set_new_object [OF \<open>mem_ok J (mem (app_Storage app))\<close>]
    by (auto simp: bind_outcome_eq_Returns update_conv' dest!: broadcast_event_frame)
  moreover have "mem_contents J (app_Storage app') = mem_contents J db" using mem_contents_cong [OF m'] .
  moreover have "post_event J (b, n, now) key testData app = Some (postObject, app')"
    using db(1) post(1) app'(1) by (simp add: post_event_def answered_def returning_simps no_error_simps)
  ultimately show ?thesis using post(2) app'(2,4) db(4) by auto
qed

lemma delete_tells:
  assumes laws: "wire_laws J same_json"
    and here: "attached J np fp shown c key app" and path: "IsValid path" "Peer key path"
    and some: "star \<in> set path \<or> mem_contents J (app_Storage app) path \<noteq> None"
  shows "\<exists>app'. delete_event J now path app = Some app' \<and> attached J np fp shown c key app' \<and>
    last_event J c app' = Some (told J np fp now (shown_data J shown key app) (shown_data J shown key app')) \<and>
    mem_contents J (app_Storage app') = spec_op (OpDel path) (mem_contents J (app_Storage app))"
proof -
  let ?r = "plain_request path ''''"
  have calm: "calm_server J shown key app" and hears: "hears np fp c key (shown_data J shown key app) (app_Stream app)"
    using here by (auto simp: attached_def)
  have ready: "storage_ready J (app_Storage app)" and open_app: "open_server app"
    and muted: "\<not> mem_muted (app_Storage app) path"
    using calm by (auto simp: calm_server_def server_up_def)
  have k: "req_key ?r = path" by (simp add: plain_request_def)
  have p: "IsValid (req_key ?r)" "audit_ok app ?r" "hooks_check (Delete_filters (app_filters app)) (req_key ?r) (app_Static app) = None"
    using path(1) open_app by (simp_all add: plain_request_def open_server_def hooks_check_uncovered)
  have found: "\<not> (star \<notin> set path \<and> mem_contents J (app_Storage app) path = None)" using some by blast
  obtain db where db: "unpublish ?r app = Returns (Reply StatusNoContent None (''unpublish '' @ path), app\<lparr>app_Storage := db\<rparr>)"
      "storage_ready J db" "mem_contents J db = spec_op (OpDel path) (mem_contents J (app_Storage app))"
      "mem_muted db = mem_muted (app_Storage app)"
      "mem_pending db = mem_pending (app_Storage app) @ [\<lparr>EvKey = path, EvOperation = ''del''\<rparr>]"
    using unpublish_deletes [OF ready p, unfolded k if_not_P [OF found]] muted found by (auto split: if_splits)
  let ?app1 = "app\<lparr>app_Storage := db\<rparr>"
  have calm1: "watcher db = Some [\<lparr>EvKey = path, EvOperation = ''del''\<rparr>]"
    "calm_server J shown key (?app1\<lparr>app_Storage := (app_Storage ?app1)\<lparr>watcher := Some []\<rparr>\<rparr>)"
    using calm_stored [where n = "notified app", OF calm db(2,4,5)] by simp_all
  have "path \<noteq> ''''" using path(1) by auto
  have hears1: "hears np fp c key (shown_data J shown key app) (app_Stream ?app1)" using hears by simp
  have event1: "watcher (app_Storage ?app1) = Some [\<lparr>EvKey = path, EvOperation = ''del''\<rparr>]" using calm1(1) by simp
  from worker_tells [where app = ?app1 and now = now, OF laws hears1 calm1(2) event1] path(2) \<open>path \<noteq> ''''\<close> obtain app' where
    app': "watch_step J (\<lambda>i. now) ?app1 = Some app'" "attached J np fp shown c key app'"
      "app_Storage app' = db\<lparr>watcher := Some []\<rparr>"
      "last_event J c app' = Some (told J np fp now (shown_data J shown key app) (shown_data J shown key app'))"
    by auto
  have m': "mem (app_Storage app') = mem db" using app'(3) by simp
  have "mem_contents J (app_Storage app') = mem_contents J db" using mem_contents_cong [OF m'] .
  moreover have "delete_event J now path app = Some app'"
    using db(1) app'(1) by (simp add: delete_event_def answered_def returning_simps)
  ultimately show ?thesis using app'(2,4) db(3) by auto
qed

section \<open>Dialling\<close>

lemma dial_attaches:
  assumes laws: "wire_laws J same_json" and calm: "calm_server J shown key app"
    and sm: "length (pools (app_Stream app)) = 1" "OnSubscribe (app_Stream app) key = None"
    and key: "IsValid key" and some: "shown_data J shown key app \<noteq> []"
  shows "\<exists>c app1 v. dial J now key app = Some (c, app1) \<and>
    attached J (NoPatch (app_Stream app)) (ForcePatch (app_Stream app)) shown c key app1 \<and>
    app_Storage app1 = app_Storage app \<and>
    last_event J c app1 = Some \<lparr>MsgData = strings_Trim (shown_data J shown key app1) newline,
      MsgVersion = FormatInt v 16, MsgSnapshot = True\<rparr> \<and>
    GetCacheVersion key (app_Stream app1) = Inr v"
proof -
  let ?sm = "app_Stream app" and ?r = "websocket_request key" and ?raw = "shown_data J shown key app"
  have ok: "stream_ok ?sm" using calm by (simp add: calm_server_def server_up_def)
  obtain p0 where p0: "pools ?sm = [p0]" using sm(1) by (auto simp: length_Suc_conv)
  have nil: "key \<noteq> ''''" using key by auto
  then have k0: "PoolKey p0 \<noteq> key" using ok p0 by (simp add: stream_ok_def)
  define c where "c = next_conn ?sm"
  define sm1 where "sm1 = snd (Stream_new key ?sm)"
  have sm1: "pools sm1 = [p0, \<lparr>PoolKey = key, cache = zero_Cache, connections = [c]\<rparr>]" "sockets sm1 c = open_socket"
    "OnSubscribe sm1 = OnSubscribe ?sm" "NoPatch sm1 = NoPatch ?sm" "ForcePatch sm1 = ForcePatch ?sm"
    using k0 by (simp_all add: sm1_def Stream_new_def Let_def findPool_def p0 c_def)
  have ok1: "stream_ok sm1" unfolding sm1_def by (rule new_ok [OF ok])
  have find1: "findPool sm1 key = 1" using k0 by (simp add: findPool_def sm1(1))
  define sm2 where "sm2 = sm1\<lparr>pools := [p0, \<lparr>PoolKey = key, cache = \<lparr>Version = now, CacheData = ?raw\<rparr>, connections = [c]\<rparr>]\<rparr>"
  have data: "getFilteredData J app key = Inr ?raw" by (rule calm_data [OF calm])
  have "Refresh now key (getFilteredData J app) sm1 = (Inr \<lparr>Version = now, CacheData = ?raw\<rparr>, sm2)"
    using some data find1
    by (simp add: Refresh_def Let_def GetCacheVersion_def Stream_setCache_def sm1(1) zero_Cache_def sm2_def setCache_pool_def)
  moreover have "router_checkStatic (Read_filters (app_filters app)) key (app_Static app) = None"
    using calm by (simp add: calm_server_def open_server_def router_checkStatic_iff)
  ultimately have f: "fetch J now key (app\<lparr>app_Stream := sm1\<rparr>) = (Inr \<lparr>Version = now, CacheData = ?raw\<rparr>, app\<lparr>app_Stream := sm2\<rparr>)"
    and static: "router_checkStatic (Read_filters (app_filters app)) key (app_Static app) = None"
    by (simp_all add: fetch_def)
  have r: "req_key ?r = key" "req_upgrade ?r = None" "req_v ?r = ''''" "req_websocket ?r"
    by (simp_all add: websocket_request_def plain_request_def)
  have new: "Stream_New key None ?sm = (Inr c, sm1)"
    using sm(2) by (simp add: Stream_New_def Stream_new_def Let_def c_def sm1_def)
  have "Server_ws J now ?r app = (None, Some (Upgraded c),
      app\<lparr>app_Stream := sm2, spawned := spawned app @ [WriteInitial c (Encode J ?raw) True now]\<rparr>)"
    unfolding Server_ws_def Let_def r static option.case new prod.case sum.case f
    by (simp add: FormatInt_not_Nil [THEN not_sym])
  moreover have "audit_ok app ?r" using calm by (simp add: calm_server_def open_server_def)
  ultimately have rd: "read J now ?r app = (Upgraded c,
      app\<lparr>app_Stream := sm2, spawned := spawned app @ [WriteInitial c (Encode J ?raw) True now]\<rparr>)"
    using key r by (simp add: read_def Let_def)
  define sm3 where "sm3 = Stream_Write c (Encode J ?raw) True now sm2"
  have d: "dial J now key app = Some (c, app\<lparr>app_Stream := sm3\<rparr>)"
    by (simp add: dial_def rd run_spawned_def sm3_def)
  have sm3: "sm3 = sm2\<lparr>sockets := (sockets sm2)(c := open_socket\<lparr>sent := [frame (Encode J ?raw) True now]\<rparr>)\<rparr>"
    using sm1(2) by (simp add: sm3_def Stream_Write_def write_message_deliver deliver_def sm2_def open_socket_def)
  have ok3: "stream_ok sm3" using ok1 nil by (simp add: sm3 sm2_def stream_ok_def sm1(1) pool_conns_def)
  have "shown_data J shown key (app\<lparr>app_Stream := sm3\<rparr>) = ?raw" by (rule shown_data_cong) simp
  moreover have "hears (NoPatch ?sm) (ForcePatch ?sm) c key ?raw sm3"
    using ok3 sm1(4,5) by (simp add: hears_def sm3 sm2_def alive_def open_socket_def)
  moreover have "calm_server J shown key (app\<lparr>app_Stream := sm3\<rparr>)"
    using calm ok3 by (simp add: calm_server_def server_up_def Server_Active_def open_server_def audit_ok_def)
  moreover have "DecodeBuffer J (frame (Encode J ?raw) True now) =
      Inr \<lparr>MsgData = strings_Trim ?raw newline, MsgVersion = FormatInt now 16, MsgSnapshot = True\<rparr>"
    by (rule DecodeBuffer_frame [OF laws])
  moreover have "GetCacheVersion key sm3 = Inr now"
    using k0 some by (simp add: GetCacheVersion_def sm3 sm2_def findPool_def)
  ultimately show ?thesis
    using d by (intro exI [of _ c] exI [of _ "app\<lparr>app_Stream := sm3\<rparr>"] exI [of _ now])
      (simp add: attached_def last_event_def Let_def sm3 open_socket_def no_error_def)
qed

end
