(* ===== verification/StreamChecks.thy ===== *)
theory StreamChecks
  imports StreamSuiteFacts
begin

text \<open>
  The default server passes the checks of \<^verbatim>\<open>streamTest.go\<close>.
\<close>

section \<open>What the checks rely on in the packages\<close>

text \<open>
  Two texts of the same document decode to the same values. A patch is made between two documents of the same kind:
  objects (written by the program, or the placeholder) or lists. A patch between two objects replaces values by
  values, so that applying it to its result again changes nothing.
\<close>

definition object_document :: "'c codec_scheme \<Rightarrow> string \<Rightarrow> bool" where
  "object_document J s \<longleftrightarrow> s = EmptyObject \<or> (\<exists>obj. safe_object obj \<and> s = New J obj)"

definition list_document :: "'c codec_scheme \<Rightarrow> string \<Rightarrow> bool" where
  "list_document J s \<longleftrightarrow> (\<exists>objs. marshal_objects J objs = Inr s)"

definition same_documents_law :: "('p, 'c) wire_scheme \<Rightarrow> (string \<Rightarrow> string \<Rightarrow> bool) \<Rightarrow> bool" where
  "same_documents_law J same_json \<longleftrightarrow>
     (\<forall>a b. same_json a b \<longrightarrow>
        unmarshal_object J a = unmarshal_object J b \<and> unmarshal_objects J a = unmarshal_objects J b)"

definition made_patches_law :: "('p, 'c) wire_scheme \<Rightarrow> bool" where
  "made_patches_law J \<longleftrightarrow>
     (\<forall>a b. object_document J a \<and> object_document J b \<or> list_document J a \<and> list_document J b \<longrightarrow>
        (\<exists>p operations. CreatePatch J a b = Inr p \<and> marshal_patch J p = Inr operations))"

definition repeated_patch_law :: "('p, 'c) wire_scheme \<Rightarrow> (string \<Rightarrow> string \<Rightarrow> bool) \<Rightarrow> bool" where
  "repeated_patch_law J same_json \<longleftrightarrow>
     (\<forall>a b p operations p' b'. object_document J a \<longrightarrow> object_document J b \<longrightarrow>
        CreatePatch J a b = Inr p \<longrightarrow> marshal_patch J p = Inr operations \<longrightarrow>
        DecodePatch J operations = Inr (Some p') \<longrightarrow> same_json b b' \<longrightarrow>
        (\<exists>b2. patch_Apply J p' b' = Inr (Some b2) \<and> same_json b2 b))"

section \<open>Messages that are patches\<close>

lemma told_patch:
  assumes laws: "wire_laws J same_json"
    and made: "CreatePatch J doc doc' = Inr p" "marshal_patch J p = Inr operations"
    and differ: "\<not> same_json doc doc'"
  shows "told J False True now doc doc' =
      \<lparr>MsgData = operations, MsgVersion = FormatInt now 16, MsgSnapshot = False\<rparr> \<and>
    (\<exists>p'. DecodePatch J operations = Inr (Some p')) \<and>
    (\<forall>document. same_json doc document \<longrightarrow>
       (\<exists>document'. apply_patch J operations document = Some document' \<and> same_json document' doc'))"
proof -
  have "patch_law J same_json" using laws by (simp add: wire_laws_def)
  then have law: "strings_Trim operations newline = operations \<and> (if operations = ''[]'' then same_json doc doc'
      else \<exists>p'. DecodePatch J operations = Inr (Some p') \<and>
        (\<forall>a'. same_json doc a' \<longrightarrow> (\<exists>b'. patch_Apply J p' a' = Inr (Some b') \<and> same_json b' doc')))"
    using made unfolding patch_law_def by blast
  then have trim: "strings_Trim operations newline = operations" by (rule conjunct1)
  from law differ obtain p' where p': "DecodePatch J operations = Inr (Some p')"
      "\<forall>a'. same_json doc a' \<longrightarrow> (\<exists>b'. patch_Apply J p' a' = Inr (Some b') \<and> same_json b' doc')"
    by (auto split: if_splits)
  have "\<exists>document'. apply_patch J operations document = Some document' \<and> same_json document' doc'"
    if synced: "same_json doc document" for document
  proof -
    obtain b' where "patch_Apply J p' document = Inr (Some b')" "same_json b' doc'" using p'(2) synced by blast
    with p'(1) show ?thesis by (simp add: apply_patch_def)
  qed
  moreover have "told J False True now doc doc' = \<lparr>MsgData = operations, MsgVersion = FormatInt now 16, MsgSnapshot = False\<rparr>"
    using made trim by (simp add: told_def Patch_pool_def)
  ultimately show ?thesis using p'(1) by blast
qed

lemma made_patch:
  assumes "made_patches_law J" "object_document J a \<and> object_document J b \<or> list_document J a \<and> list_document J b"
  obtains p operations where "CreatePatch J a b = Inr p" "marshal_patch J p = Inr operations"
  using assms unfolding made_patches_law_def by blast

text \<open>The same patch on a text of the document it leads to.\<close>

lemma told_again:
  assumes laws: "wire_laws J same_json" "repeated_patch_law J same_json"
    and docs: "object_document J doc" "object_document J doc'" "\<not> same_json doc doc'"
    and made: "CreatePatch J doc doc' = Inr p" "marshal_patch J p = Inr operations"
    and synced: "same_json doc' document"
  shows "\<exists>document'. apply_patch J operations document = Some document' \<and> same_json document' doc'"
proof -
  obtain p' where p': "DecodePatch J operations = Inr (Some p')"
    using told_patch [OF laws(1) made docs(3)] by blast
  with laws(2) docs(1,2) made synced obtain b2 where "patch_Apply J p' document = Inr (Some b2)" "same_json b2 doc'"
    unfolding repeated_patch_law_def by blast
  with p' show ?thesis by (simp add: apply_patch_def)
qed

section \<open>A server to check\<close>

definition checked_server :: "'c codec_scheme \<Rightarrow> Server \<Rightarrow> bool" where
  "checked_server J app \<longleftrightarrow>
     server_up J app \<and> open_server app \<and> 0 < watching app \<and>
     mem_pending (app_Storage app) = [] \<and> (\<forall>k. \<not> mem_muted (app_Storage app) k) \<and>
     mem_contents J (app_Storage app) = Map.empty \<and> length (pools (app_Stream app)) = 1 \<and>
     (\<forall>key. OnSubscribe (app_Stream app) key = None)"

lemma checked_calm: "checked_server J app \<Longrightarrow> Read_filters (app_filters app) = [] \<Longrightarrow> calm_server J id key app"
  unfolding checked_server_def calm_server_def by (auto simp: router_check_def)

lemma raw_data_missing:
  assumes "storage_ready J db" "star \<notin> set key" "mem_contents J db key = None"
  shows "raw_data J db key = EmptyObject"
  using memory.get_key [OF assms(1,2)] assms(3) by (simp add: raw_data_def)

lemma raw_data_new:
  assumes "object_law J" "safe_object obj" "star \<notin> set key" "map_of (mem db) key = Some (New J obj)"
  shows "raw_data J db key = New J obj"
  using assms New_not_Nil [OF assms(1,2)] by (simp add: raw_data_def MemoryStorage_Get_def)

lemma raw_data_list:
  assumes ready: "storage_ready J db" and star: "star \<in> set key"
  shows "\<exists>objs. list_document J (raw_data J db key) \<and> unmarshal_objects J (raw_data J db key) = Inr objs \<and>
    sorted_wrt (\<lambda>x y. \<not> object_less y x) objs \<and>
    mset objs = image_mset (\<lambda>k. the (mem_contents J db k)) (mset_set {k \<in> dom (mem_contents J db). Match key k})"
proof -
  obtain s objs where s: "MemoryStorage_Get J db key = Inr s" "s \<noteq> []" "unmarshal_objects J s = Inr objs"
      "sorted_wrt (\<lambda>x y. \<not> object_less y x) objs"
      "mset objs = image_mset (\<lambda>k. the (mem_contents J db k)) (mset_set {k \<in> dom (mem_contents J db). Match key k})"
    using memory.get_pattern [OF ready star] by blast
  then have "raw_data J db key = s" by (simp add: raw_data_def)
  moreover have "list_document J s"
    using s(1) star by (auto simp: MemoryStorage_Get_def Let_def Encode_json_def list_document_def split: sum.splits)
  ultimately show ?thesis using s by auto
qed

section \<open>One document\<close>

text \<open>A subscription to a key, a post to it and a delete of it, or of a pattern that covers it: the messages.\<close>

lemma item_rounds:
  fixes J :: "('p, 'c) wire_scheme"
  assumes laws: "wire_laws J same_json" and J: "index_law J" "post_body_law J"
    and app: "checked_server J app" "Read_filters (app_filters app) = []"
    and patching: "\<not> NoPatch (app_Stream app)" "ForcePatch (app_Stream app)"
    and key: "publishable key" "star \<notin> set key"
    and path: "IsValid path" "path = key \<or> star \<in> set path \<and> Match path key"
    and data: "testData = Encode J raw" "testData \<noteq> ''''"
  shows "\<exists>c app1 v postObject app2 app3 obj. dial J t0 key app = Some (c, app1) \<and>
    last_event J c app1 = Some \<lparr>MsgData = strings_Trim EmptyObject newline, MsgVersion = FormatInt v 16, MsgSnapshot = True\<rparr> \<and>
    GetCacheVersion key (app_Stream app1) = Inr v \<and>
    post_event J (b, n, t1) key testData app1 = Some (postObject, app2) \<and> Index postObject = LastIndex key \<and>
    safe_object obj \<and> Index obj = LastIndex key \<and> Data obj = testData \<and>
    last_event J c app2 = Some (told J False True t1 EmptyObject (New J obj)) \<and>
    delete_event J t2 path app2 = Some app3 \<and>
    last_event J c app3 = Some (told J False True t2 (New J obj) EmptyObject)"
proof -
  have build: "Build b key = key" using key(2) by simp
  have valid: "IsValid key" using key(1) by (simp add: publishable_iff)
  have nil: "key \<noteq> ''''" using valid by auto
  have calm: "calm_server J id key app" using checked_calm [OF app] .
  have empty: "mem_contents J (app_Storage app) = Map.empty" and ready: "storage_ready J (app_Storage app)"
    and sm: "length (pools (app_Stream app)) = 1" "OnSubscribe (app_Stream app) key = None"
    using app(1) by (auto simp: checked_server_def server_up_def)
  have shown0: "shown_data J id key app = EmptyObject"
    using raw_data_missing [OF ready key(2)] empty by (simp add: shown_data_def)
  then have some: "shown_data J id key app \<noteq> []" by simp
  obtain c app1 v where dialled: "dial J t0 key app = Some (c, app1)"
      "attached J (NoPatch (app_Stream app)) (ForcePatch (app_Stream app)) id c key app1"
      "app_Storage app1 = app_Storage app"
      "last_event J c app1 = Some \<lparr>MsgData = strings_Trim (shown_data J id key app1) newline,
        MsgVersion = FormatInt v 16, MsgSnapshot = True\<rparr>"
      "GetCacheVersion key (app_Stream app1) = Inr v"
    using dial_attaches [where now = t0, OF laws calm sm valid some] by blast
  have at1: "attached J False True id c key app1" using dialled(2) patching by simp
  have shown1: "shown_data J id key app1 = EmptyObject"
    using shown0 dialled(3) by (simp add: shown_data_def)
  have own: "Peer key (Build b key)" "Build b key \<noteq> ''''" using nil by (simp_all add: build Peer_def Match_def)
  obtain postObject app2 where posted: "post_event J (b, n, t1) key testData app1 = Some (postObject, app2)"
      "Index postObject = LastIndex (Build b key)" "attached J False True id c key app2"
      "last_event J c app2 = Some (told J False True t1 (shown_data J id key app1) (shown_data J id key app2))"
      "mem_contents J (app_Storage app2) = spec_op (OpSet n (Build b key) testData) (mem_contents J (app_Storage app1))"
      "map_of (mem (app_Storage app2)) (Build b key) =
        Some (New J (stamp_object n (mem_contents J (app_Storage app1) (Build b key)) (Build b key) testData))"
    using post_tells [where n = n and now = t1, OF laws J at1 key(1) own(2,1) data] by blast
  define obj where "obj = stamp_object n None key testData"
  have obj: "Index obj = LastIndex key" "Data obj = testData" by (simp_all add: obj_def stamp_object_def)
  have "base64_law J" using laws by (simp add: wire_laws_def)
  then have "storable key testData" using data(1) json_safe_IsValid [OF valid] by (simp add: storable_def base64_law_def Encode_def)
  then have safe: "safe_object obj" unfolding obj_def by (rule safe_stamp_object)
  have law: "object_law J" using ready by (simp add: storage_ready_def)
  have new: "map_of (mem (app_Storage app2)) key = Some (New J obj)"
    using posted(6) empty dialled(3) by (simp add: build obj_def)
  have shown2: "shown_data J id key app2 = New J obj"
    using raw_data_new [OF law safe key(2) new] by (simp add: shown_data_def)
  have c2: "mem_contents J (app_Storage app2) = [key \<mapsto> obj]"
    using posted(5) empty dialled(3) by (simp add: build obj_def)
  have peer: "Peer key path" using path(2) by (auto simp: Peer_def Match_def)
  have gone: "star \<in> set path \<or> mem_contents J (app_Storage app2) path \<noteq> None" using path(2) c2 by auto
  obtain app3 where deleted: "delete_event J t2 path app2 = Some app3" "attached J False True id c key app3"
      "last_event J c app3 = Some (told J False True t2 (shown_data J id key app2) (shown_data J id key app3))"
      "mem_contents J (app_Storage app3) = spec_op (OpDel path) (mem_contents J (app_Storage app2))"
    using delete_tells [where now = t2, OF laws posted(3) path(1) peer gone] by blast
  have "mem_contents J (app_Storage app3) key = None"
    using path(2) key(2) by (auto simp: deleted(4) c2 restrict_map_def)
  moreover have "storage_ready J (app_Storage app3)"
    using deleted(2) by (simp add: attached_def calm_server_def server_up_def)
  ultimately have shown3: "shown_data J id key app3 = EmptyObject"
    using raw_data_missing [OF _ key(2)] by (simp add: shown_data_def)
  have first: "last_event J c app1 = Some \<lparr>MsgData = strings_Trim EmptyObject newline, MsgVersion = FormatInt v 16, MsgSnapshot = True\<rparr>"
    using dialled(4) unfolding shown1 .
  have second: "last_event J c app2 = Some (told J False True t1 EmptyObject (New J obj))"
    using posted(4) unfolding shown1 shown2 .
  have third: "last_event J c app3 = Some (told J False True t2 (New J obj) EmptyObject)"
    using deleted(3) unfolding shown2 shown3 .
  have idx: "Index postObject = LastIndex key" using posted(2) unfolding build .
  show ?thesis
    by (intro exI conjI) (rule dialled(1,5) posted(1) idx safe obj first second third deleted(1))+
qed

text \<open>What the two patches do to the subscriber's document, the second also when the first has been skipped.\<close>

lemma item_patches:
  fixes J :: "('p, 'c) wire_scheme" and obj :: Object
  assumes laws: "wire_laws J same_json" "same_documents_law J same_json" "made_patches_law J" "repeated_patch_law J same_json"
    and J: "empty_law J" "object_law J" and obj: "safe_object obj" "Index obj \<noteq> ''''"
  shows "\<exists>ops1 ops2.
    told J False True t1 EmptyObject (New J obj) = \<lparr>MsgData = ops1, MsgVersion = FormatInt t1 16, MsgSnapshot = False\<rparr> \<and>
    told J False True t2 (New J obj) EmptyObject = \<lparr>MsgData = ops2, MsgVersion = FormatInt t2 16, MsgSnapshot = False\<rparr> \<and>
    (\<forall>document. same_json EmptyObject document \<longrightarrow>
       (\<exists>document'. apply_patch J ops1 document = Some document' \<and> unmarshal_object J document' = Inr obj \<and>
          same_json (New J obj) document')) \<and>
    (\<forall>document. same_json EmptyObject document \<or> same_json (New J obj) document \<longrightarrow>
       (\<exists>document' empty. apply_patch J ops2 document = Some document' \<and>
          unmarshal_object J document' = Inr empty \<and> Created empty = 0))"
proof -
  let ?new = "New J obj" and ?zero = "\<lparr>Created = 0, Updated = 0, Index = '''', Data = ''e30=''\<rparr>"
  have zero: "unmarshal_object J EmptyObject = Inr ?zero" using J(1) by (simp add: empty_law_def DecodeRaw_def)
  have new: "unmarshal_object J ?new = Inr obj" using DecodeRaw_New [OF J(2) obj(1)] by (simp add: DecodeRaw_def)
  have docs: "object_document J EmptyObject" "object_document J ?new" using obj(1) by (auto simp: object_document_def)
  have reads: "unmarshal_object J a = unmarshal_object J b" if "same_json a b" for a b
    using laws(2) that unfolding same_documents_law_def by blast
  have sym: "same_json b a" if "same_json a b" for a b
    using laws(1) that unfolding wire_laws_def patch_law_def by blast
  have "?zero \<noteq> obj" using obj(2) by auto
  then have differ: "\<not> same_json EmptyObject ?new" "\<not> same_json ?new EmptyObject"
    using reads [of EmptyObject ?new] reads [of ?new EmptyObject] zero new by auto
  obtain p1 ops1 where made1: "CreatePatch J EmptyObject ?new = Inr p1" "marshal_patch J p1 = Inr ops1"
    using made_patch [OF laws(3), of EmptyObject ?new] docs by blast
  obtain p2 ops2 where made2: "CreatePatch J ?new EmptyObject = Inr p2" "marshal_patch J p2 = Inr ops2"
    using made_patch [OF laws(3), of ?new EmptyObject] docs by blast
  note one = told_patch [where now = t1, OF laws(1) made1 differ(1)]
  note two = told_patch [where now = t2, OF laws(1) made2 differ(2)]
  have first: "\<exists>document'. apply_patch J ops1 document = Some document' \<and> unmarshal_object J document' = Inr obj \<and>
      same_json ?new document'" if "same_json EmptyObject document" for document
    using one that reads sym new by metis
  have second: "\<exists>document' empty. apply_patch J ops2 document = Some document' \<and>
      unmarshal_object J document' = Inr empty \<and> Created empty = 0"
    if sync: "same_json EmptyObject document \<or> same_json ?new document" for document
  proof -
    obtain document' where d: "apply_patch J ops2 document = Some document'" "same_json document' EmptyObject"
      using sync two told_again [OF laws(1,4) docs(2,1) differ(2) made2] by blast
    then have "unmarshal_object J document' = Inr ?zero" using reads zero by metis
    with d(1) show ?thesis by auto
  qed
  show ?thesis using one two first second by blast
qed

lemma item_run:
  fixes J :: "('p, 'c) wire_scheme"
  assumes laws: "wire_laws J same_json" "same_documents_law J same_json" "made_patches_law J" "repeated_patch_law J same_json"
    and J: "empty_law J" "index_law J" "post_body_law J"
    and app: "checked_server J app" "Read_filters (app_filters app) = []"
    and patching: "\<not> NoPatch (app_Stream app)" "ForcePatch (app_Stream app)"
    and key: "publishable key" "star \<notin> set key"
    and path: "IsValid path" "path = key \<or> star \<in> set path \<and> Match path key"
    and data: "testData = Encode J raw" "testData \<noteq> ''''"
  shows "\<exists>c app1 e1 v postObject app2 e2 d1 obj app3 e3. dial J t0 key app = Some (c, app1) \<and>
    last_event J c app1 = Some e1 \<and> ParseInt (MsgVersion e1) 16 = Inr v \<and> GetCacheVersion key (app_Stream app1) = Inr v \<and>
    post_event J (b, n, t1) key testData app1 = Some (postObject, app2) \<and>
    last_event J c app2 = Some e2 \<and> apply_patch J (MsgData e2) (MsgData e1) = Some d1 \<and>
    unmarshal_object J d1 = Inr obj \<and> Index obj = Index postObject \<and> Data obj = testData \<and>
    delete_event J t2 path app2 = Some app3 \<and> last_event J c app3 = Some e3 \<and>
    (\<forall>document \<in> {MsgData e1, d1}. \<exists>d2 empty. apply_patch J (MsgData e3) document = Some d2 \<and>
       unmarshal_object J d2 = Inr empty \<and> Created empty = 0)"
proof -
  let ?start = "strings_Trim EmptyObject newline"
  obtain c app1 v postObject app2 app3 obj where run: "dial J t0 key app = Some (c, app1)"
      "last_event J c app1 = Some \<lparr>MsgData = ?start, MsgVersion = FormatInt v 16, MsgSnapshot = True\<rparr>"
      "GetCacheVersion key (app_Stream app1) = Inr v"
      "post_event J (b, n, t1) key testData app1 = Some (postObject, app2)" "Index postObject = LastIndex key"
      "safe_object obj" "Index obj = LastIndex key" "Data obj = testData"
      "last_event J c app2 = Some (told J False True t1 EmptyObject (New J obj))"
      "delete_event J t2 path app2 = Some app3"
      "last_event J c app3 = Some (told J False True t2 (New J obj) EmptyObject)"
    using item_rounds [where ?t0.0 = t0 and b = b and n = n and ?t1.0 = t1 and ?t2.0 = t2,
        OF laws(1) J(2,3) app patching key path data] by blast
  have law: "object_law J" using app(1) by (simp add: checked_server_def server_up_def storage_ready_def)
  have "Index obj \<noteq> ''''" using run(7) LastIndex_not_Nil [of key] key(1) by (simp add: publishable_iff)
  from item_patches [where ?t1.0 = t1 and ?t2.0 = t2, OF laws J(1) law run(6) this] obtain ops1 ops2 where
    told: "told J False True t1 EmptyObject (New J obj) = \<lparr>MsgData = ops1, MsgVersion = FormatInt t1 16, MsgSnapshot = False\<rparr>"
      "told J False True t2 (New J obj) EmptyObject = \<lparr>MsgData = ops2, MsgVersion = FormatInt t2 16, MsgSnapshot = False\<rparr>"
    and one: "\<forall>document. same_json EmptyObject document \<longrightarrow>
       (\<exists>document'. apply_patch J ops1 document = Some document' \<and> unmarshal_object J document' = Inr obj \<and>
          same_json (New J obj) document')"
    and two: "\<forall>document. same_json EmptyObject document \<or> same_json (New J obj) document \<longrightarrow>
       (\<exists>document' empty. apply_patch J ops2 document = Some document' \<and>
          unmarshal_object J document' = Inr empty \<and> Created empty = 0)"
    by blast
  have synced: "same_json EmptyObject ?start" using laws(1) unfolding wire_laws_def patch_law_def by blast
  obtain d1 where d1: "apply_patch J ops1 ?start = Some d1" "unmarshal_object J d1 = Inr obj" "same_json (New J obj) d1"
    using one synced by blast
  have "\<forall>document \<in> {?start, d1}. \<exists>d2 empty. apply_patch J ops2 document = Some d2 \<and>
       unmarshal_object J d2 = Inr empty \<and> Created empty = 0"
    using two synced d1(3) by blast
  with run(1-5,7-11) d1 told show ?thesis by (auto simp: ParseInt_FormatInt)
qed

lemma stream_keys:
  "publishable ''test''" "publishable ''test/1''" "publishable ''test/*''" "IsValid ''test''" "IsValid ''test/*''"
  "Match ''test/*'' ''test/1''"
  by code_simp+

lemma broadcast_test_passes:
  fixes J :: "('p, 'c) wire_scheme"
  assumes laws: "wire_laws J same_json" "same_documents_law J same_json" "made_patches_law J" "repeated_patch_law J same_json"
    and J: "empty_law J" "index_law J" "post_body_law J"
    and app: "checked_server J app" "Read_filters (app_filters app) = []"
    and patching: "\<not> NoPatch (app_Stream app)" "ForcePatch (app_Stream app)"
    and data: "testData = Encode J raw" "testData \<noteq> ''''"
  shows "\<exists>app'. StreamBroadcastTest J clock testData app = Some app'"
proof -
  have star: "star \<notin> set ''test''" by simp
  from item_run [where path = "''test''" and ?t0.0 = "clock 0" and b = "clock 1" and n = "clock 2" and ?t1.0 = "clock 3" and ?t2.0 = "clock 4",
      OF laws J app patching stream_keys(1) star stream_keys(4) disjI1 [OF refl] data]
  show ?thesis by (auto simp: StreamBroadcastTest_def Let_def simp del: One_nat_def)
qed

lemma item_glob_broadcast_test_passes:
  fixes J :: "('p, 'c) wire_scheme"
  assumes laws: "wire_laws J same_json" "same_documents_law J same_json" "made_patches_law J" "repeated_patch_law J same_json"
    and J: "empty_law J" "index_law J" "post_body_law J"
    and app: "checked_server J app" "Read_filters (app_filters app) = []"
    and patching: "\<not> NoPatch (app_Stream app)" "ForcePatch (app_Stream app)"
    and data: "testData = Encode J raw" "testData \<noteq> ''''"
  shows "\<exists>app'. StreamItemGlobBroadcastTest J clock testData app = Some app'"
proof -
  have star: "star \<notin> set ''test/1''" by simp
  have covers: "''test/*'' = ''test/1'' \<or> star \<in> set ''test/*'' \<and> Match ''test/*'' ''test/1''" using stream_keys(6) by simp
  from item_run [where ?t0.0 = "clock 0" and b = "clock 1" and n = "clock 2" and ?t1.0 = "clock 3" and ?t2.0 = "clock 4",
      OF laws J app patching stream_keys(2) star stream_keys(5) covers data]
  show ?thesis by (auto simp: StreamItemGlobBroadcastTest_def Let_def simp del: One_nat_def)
qed

section \<open>A list\<close>

text \<open>The list read of a pattern, from what is stored.\<close>

definition listed :: "'c codec_scheme \<Rightarrow> string \<Rightarrow> contents \<Rightarrow> Object list \<Rightarrow> bool" where
  "listed J pattern contents objs \<longleftrightarrow>
     sorted_wrt (\<lambda>x y. \<not> object_less y x) objs \<and>
     mset objs = image_mset (\<lambda>k. the (contents k)) (mset_set {k \<in> dom contents. Match pattern k})"

lemma attached_list:
  assumes "attached J np fp id c pattern app" "star \<in> set pattern"
  shows "\<exists>objs. list_document J (shown_data J id pattern app) \<and>
    unmarshal_objects J (shown_data J id pattern app) = Inr objs \<and> listed J pattern (mem_contents J (app_Storage app)) objs"
proof -
  have "storage_ready J (app_Storage app)" using assms(1) by (simp add: attached_def calm_server_def server_up_def)
  from raw_data_list [OF this assms(2)] show ?thesis by (auto simp: listed_def shown_data_def)
qed

text \<open>The newest object comes first.\<close>

lemma newest_listed_first:
  assumes new: "listed J pattern (contents(key \<mapsto> obj)) objs" and key: "Match pattern key" "contents key = None"
    and fin: "finite (dom contents)"
    and newer: "\<forall>old \<in> ran contents. object_less obj old"
  shows "objs \<noteq> [] \<and> objs ! 0 = obj"
proof -
  let ?old = "image_mset (\<lambda>k. the (contents k)) (mset_set {k \<in> dom contents. Match pattern k})"
  have m: "mset objs = add_mset obj ?old"
    using new list_grows [OF key fin, of obj] by (simp add: listed_def)
  have "set_mset ?old \<subseteq> ran contents" using fin by (auto simp: ran_def)
  then have old: "object_less obj x" if "x \<in># ?old" for x using newer that by blast
  obtain x rest where objs: "objs = x # rest" using m by (cases objs) auto
  have "x = obj"
  proof (rule ccontr)
    assume "x \<noteq> obj"
    moreover have "x \<in># add_mset obj ?old" using m objs by (metis list.set_intros(1) set_mset_mset)
    ultimately have "object_less obj x" using old by auto
    moreover have "obj \<in> set (x # rest)" using m objs by (metis set_mset_mset union_single_eq_member)
    then have "obj \<in> set rest" using \<open>x \<noteq> obj\<close> by simp
    then have "\<not> object_less obj x" using new objs by (simp add: listed_def)
    ultimately show False by blast
  qed
  with objs show ?thesis by simp
qed

lemma listed_length:
  "listed J pattern contents objs \<Longrightarrow> length objs = card {k \<in> dom contents. Match pattern k}"
proof -
  assume "listed J pattern contents objs"
  then have "size (mset objs) = size (image_mset (\<lambda>k. the (contents k)) (mset_set {k \<in> dom contents. Match pattern k}))"
    by (simp only: listed_def)
  then show ?thesis by simp
qed

text \<open>A patch between two lists of different lengths.\<close>

lemma list_patch:
  assumes laws: "wire_laws J same_json" "same_documents_law J same_json" "made_patches_law J"
    and docs: "list_document J doc" "list_document J doc'"
    and reads: "unmarshal_objects J doc = Inr objs" "unmarshal_objects J doc' = Inr objs'" "length objs \<noteq> length objs'"
    and synced: "same_json doc document"
  shows "\<not> MsgSnapshot (told J False True now doc doc') \<and>
    (\<exists>document'. apply_patch J (MsgData (told J False True now doc doc')) document = Some document' \<and>
       unmarshal_objects J document' = Inr objs' \<and> same_json doc' document')"
proof -
  have same: "unmarshal_objects J a = unmarshal_objects J b" if "same_json a b" for a b
    using laws(2) that unfolding same_documents_law_def by blast
  have sym: "same_json b a" if "same_json a b" for a b
    using laws(1) that unfolding wire_laws_def patch_law_def by blast
  have differ: "\<not> same_json doc doc'" using same [of doc doc'] reads by auto
  obtain p operations where made: "CreatePatch J doc doc' = Inr p" "marshal_patch J p = Inr operations"
    using made_patch [OF laws(3), of doc doc'] docs by blast
  note patch = told_patch [where now = now, OF laws(1) made differ]
  then obtain document' where "apply_patch J operations document = Some document'" "same_json document' doc'"
    using synced by blast
  with patch same sym reads(2) show ?thesis by (metis Message.select_convs(1,3))
qed

text \<open>One post of the list check; \<open>before t c\<close> says that the moments of the post are later than what is stored.\<close>

definition before :: "int64 \<times> int64 \<times> int64 \<Rightarrow> contents \<Rightarrow> bool" where
  "before t contents \<longleftrightarrow>
     (case t of (build_now, set_now, now) \<Rightarrow>
       0 \<le> sint set_now \<and> contents (''test/'' @ FormatInt build_now 16) = None \<and>
       (\<forall>old \<in> ran contents. sint (Created old) < sint set_now \<and> sint (Updated old) < sint set_now))"

definition synced_list ::
  "('p, 'c) wire_scheme \<Rightarrow> (string \<Rightarrow> string \<Rightarrow> bool) \<Rightarrow> Conn \<Rightarrow> string \<Rightarrow> Server \<Rightarrow> bool" where
  "synced_list J same_json c wsCache app \<longleftrightarrow>
     attached J False True id c ''test/*'' app \<and> same_json (shown_data J id ''test/*'' app) wsCache"

definition first_posted :: "string \<Rightarrow> Object \<Rightarrow> Object list \<Rightarrow> bool" where
  "first_posted testData postObject wsObject \<longleftrightarrow>
     wsObject \<noteq> [] \<and> Index (wsObject ! 0) = Index postObject \<and> Data (wsObject ! 0) = testData"

lemma list_round:
  fixes J :: "('p, 'c) wire_scheme"
  assumes laws: "wire_laws J same_json" "same_documents_law J same_json" "made_patches_law J"
    and J: "index_law J" "post_body_law J"
    and here: "synced_list J same_json c wsCache app" and time: "before (b, n, now) (mem_contents J (app_Storage app))"
    and data: "testData = Encode J raw" "testData \<noteq> ''''"
  shows "\<exists>postObject app1 e modified objs. post_event J (b, n, now) ''test/*'' testData app = Some (postObject, app1) \<and>
    last_event J c app1 = Some e \<and> \<not> MsgSnapshot e \<and> apply_patch J (MsgData e) wsCache = Some modified \<and>
    unmarshal_objects J modified = Inr objs \<and> first_posted testData postObject objs \<and>
    synced_list J same_json c modified app1 \<and>
    (\<exists>obj. Created obj = n \<and> Updated obj = 0 \<and> mem_contents J (app_Storage app1) =
       (mem_contents J (app_Storage app))(''test/'' @ FormatInt b 16 \<mapsto> obj))"
proof -
  let ?pattern = "''test/*''" and ?key = "''test/'' @ FormatInt b 16" and ?c = "mem_contents J (app_Storage app)"
  have attached: "attached J False True id c ?pattern app" and synced: "same_json (shown_data J id ?pattern app) wsCache"
    using here by (auto simp: synced_list_def)
  have covered: "Match ?pattern ?key" using Match_element FormatInt_plain [of 16 b] by simp
  have own: "Build b ?pattern \<noteq> ''''" "Peer ?pattern (Build b ?pattern)" using covered by (simp_all add: Build_test Peer_def)
  obtain postObject app1 where posted: "post_event J (b, n, now) ?pattern testData app = Some (postObject, app1)"
      "Index postObject = LastIndex (Build b ?pattern)" "attached J False True id c ?pattern app1"
      "last_event J c app1 = Some (told J False True now (shown_data J id ?pattern app) (shown_data J id ?pattern app1))"
      "mem_contents J (app_Storage app1) = spec_op (OpSet n (Build b ?pattern) testData) ?c"
    using post_tells [where n = n and now = now, OF laws(1) J attached stream_keys(3) own data] by blast
  define obj where "obj = stamp_object n None ?key testData"
  have old: "?c ?key = None" using time by (simp add: before_def)
  have c1: "mem_contents J (app_Storage app1) = ?c(?key \<mapsto> obj)"
    using posted(5) old by (simp add: Build_test obj_def del: append.simps)
  have star: "star \<in> set ?pattern" by simp
  obtain objs where objs: "list_document J (shown_data J id ?pattern app)"
      "unmarshal_objects J (shown_data J id ?pattern app) = Inr objs" "listed J ?pattern ?c objs"
    using attached_list [OF attached star] by blast
  obtain objs1 where objs1: "list_document J (shown_data J id ?pattern app1)"
      "unmarshal_objects J (shown_data J id ?pattern app1) = Inr objs1" "listed J ?pattern (?c(?key \<mapsto> obj)) objs1"
    using attached_list [OF posted(3) star] unfolding c1 by blast
  have fin: "finite (dom ?c)" by (rule finite_dom_mem_contents)
  have "mset objs1 = add_mset obj (mset objs)"
    using objs(3) objs1(3) list_grows [OF covered old fin, of obj] by (simp add: listed_def)
  then have longer: "length objs \<noteq> length objs1" by (metis n_not_Suc_n size_add_mset size_mset)
  have stamps: "Created obj = n" "Updated obj = 0" "Data obj = testData" "Index obj = LastIndex ?key"
    by (simp_all add: obj_def stamp_object_def)
  have "\<forall>x \<in> ran ?c. object_less obj x"
    using time stamps(1,2) by (auto simp: before_def object_less_def max_int64_def)
  from newest_listed_first [OF objs1(3) covered old fin this] have first: "objs1 \<noteq> []" "objs1 ! 0 = obj" by auto
  let ?e = "told J False True now (shown_data J id ?pattern app) (shown_data J id ?pattern app1)"
  obtain modified where modified: "\<not> MsgSnapshot ?e" "apply_patch J (MsgData ?e) wsCache = Some modified"
      "unmarshal_objects J modified = Inr objs1" "same_json (shown_data J id ?pattern app1) modified"
    using list_patch [where now = now, OF laws objs(1) objs1(1) objs(2) objs1(2) longer synced] by blast
  have "first_posted testData postObject objs1"
    using first stamps(3,4) posted(2) by (simp add: first_posted_def Build_test)
  moreover have "synced_list J same_json c modified app1" using posted(3) modified(4) by (simp add: synced_list_def)
  ultimately show ?thesis using posted(1,4) modified(1-3) c1 stamps(1,2) by blast
qed

text \<open>The moments of successive posts: each builds a key of its own and is written after those before it.\<close>

fun successive :: "(int64 \<times> int64 \<times> int64) list \<Rightarrow> bool" where
  "successive [] = True"
| "successive ((b, n, now) # ts) \<longleftrightarrow>
     0 \<le> sint n \<and> (\<forall>(b', n', now') \<in> set ts. b' \<noteq> b \<and> sint n < sint n') \<and> successive ts"

lemma posts_pass:
  fixes J :: "('p, 'c) wire_scheme"
  assumes laws: "wire_laws J same_json" "same_documents_law J same_json" "made_patches_law J"
    and J: "index_law J" "post_body_law J" and data: "testData = Encode J raw" "testData \<noteq> ''''"
  shows "synced_list J same_json c wsCache app \<Longrightarrow> successive ts \<Longrightarrow>
    \<forall>t \<in> set ts. before t (mem_contents J (app_Storage app)) \<Longrightarrow>
    \<exists>postObject' wsObject' wsCache' app'.
      GlobBroadcastTest_posts J testData c ts (postObject, wsObject, wsCache, app) =
        Some (postObject', wsObject', wsCache', app') \<and>
      synced_list J same_json c wsCache' app' \<and>
      (ts \<noteq> [] \<or> first_posted testData postObject wsObject \<and> unmarshal_objects J wsCache = Inr wsObject \<longrightarrow>
         first_posted testData postObject' wsObject' \<and> unmarshal_objects J wsCache' = Inr wsObject')"
proof (induction ts arbitrary: postObject wsObject wsCache app)
  case (Cons t ts)
  obtain b n now where t: "t = (b, n, now)" using prod_cases3 by blast
  have time: "before (b, n, now) (mem_contents J (app_Storage app))" using Cons.prems(3) t by simp
  obtain postObject1 app1 e modified objs obj where
    step: "post_event J (b, n, now) ''test/*'' testData app = Some (postObject1, app1)"
      "last_event J c app1 = Some e" "\<not> MsgSnapshot e" "apply_patch J (MsgData e) wsCache = Some modified"
      "unmarshal_objects J modified = Inr objs" "first_posted testData postObject1 objs"
      "synced_list J same_json c modified app1"
    and obj: "Created obj = n" "Updated obj = 0"
      "mem_contents J (app_Storage app1) = (mem_contents J (app_Storage app))(''test/'' @ FormatInt b 16 \<mapsto> obj)"
    using list_round [OF laws J Cons.prems(1) time data] by blast
  have "before t' (mem_contents J (app_Storage app1))" if t': "t' \<in> set ts" for t'
  proof -
    obtain b' n' now' where e: "t' = (b', n', now')" using prod_cases3 by blast
    have later: "b' \<noteq> b" "sint n < sint n'" "0 \<le> sint n" using Cons.prems(2) t t' e by auto
    have then_: "before t' (mem_contents J (app_Storage app))" using Cons.prems(3) t' by simp
    have "''test/'' @ FormatInt b' 16 \<noteq> ''test/'' @ FormatInt b 16" using later(1) by (simp add: FormatInt_inject)
    with then_ later obj show ?thesis unfolding e before_def by (auto simp: ran_def)
  qed
  moreover have "successive ts" using Cons.prems(2) t by simp
  ultimately obtain postObject' wsObject' wsCache' app' where
    rest: "GlobBroadcastTest_posts J testData c ts (postObject1, objs, modified, app1) =
        Some (postObject', wsObject', wsCache', app')"
      "synced_list J same_json c wsCache' app'"
      "first_posted testData postObject' wsObject'" "unmarshal_objects J wsCache' = Inr wsObject'"
    using Cons.IH [OF step(7)] step(5,6) by blast
  have "GlobBroadcastTest_posts J testData c (t # ts) (postObject, wsObject, wsCache, app) =
      Some (postObject', wsObject', wsCache', app')"
    using step(1-5) rest(1) by (simp add: t)
  with rest(2-4) show ?case by blast
qed simp

lemma glob_broadcast_test_passes:
  fixes J :: "('p, 'c) wire_scheme"
  assumes laws: "wire_laws J same_json" "same_documents_law J same_json" "made_patches_law J"
    and J: "index_law J" "post_body_law J"
    and app: "checked_server J app" "Read_filters (app_filters app) = []"
    and patching: "\<not> NoPatch (app_Stream app)" "ForcePatch (app_Stream app)"
    and times: "ts \<noteq> []" "successive ts"
    and data: "testData = Encode J raw" "testData \<noteq> ''''"
  shows "\<exists>app'. StreamGlobBroadcastTest J start ts end_now testData app = Some app'"
proof -
  let ?pattern = "''test/*''"
  have sm: "length (pools (app_Stream app)) = 1" "OnSubscribe (app_Stream app) ?pattern = None"
    and empty: "mem_contents J (app_Storage app) = Map.empty"
    using app(1) by (auto simp: checked_server_def)
  have some: "shown_data J id ?pattern app \<noteq> []" by (simp add: shown_data_def)
  obtain c app1 v where dialled: "dial J start ?pattern app = Some (c, app1)"
      "attached J (NoPatch (app_Stream app)) (ForcePatch (app_Stream app)) id c ?pattern app1"
      "app_Storage app1 = app_Storage app"
      "last_event J c app1 = Some \<lparr>MsgData = strings_Trim (shown_data J id ?pattern app1) newline,
        MsgVersion = FormatInt v 16, MsgSnapshot = True\<rparr>"
    using dial_attaches [where now = start, OF laws(1) checked_calm [OF app] sm stream_keys(5) some] by blast
  let ?start = "strings_Trim (shown_data J id ?pattern app1) newline"
  have "same_json (shown_data J id ?pattern app1) ?start" using laws(1) unfolding wire_laws_def patch_law_def by blast
  then have synced1: "synced_list J same_json c ?start app1" using dialled(2) patching by (simp add: synced_list_def)
  have "0 \<le> sint (fst (snd t))" if "t \<in> set ts" for t using times(2) that by (induction ts rule: successive.induct) auto
  then have "\<forall>t \<in> set ts. before t (mem_contents J (app_Storage app1))"
    unfolding dialled(3) empty before_def by (auto split: prod.splits)
  from posts_pass [OF laws J data synced1 times(2) this] times(1) obtain postObject wsObject wsCache app2 where
    posts: "GlobBroadcastTest_posts J testData c ts (zero_Object, [], ?start, app1) = Some (postObject, wsObject, wsCache, app2)"
    and synced2: "synced_list J same_json c wsCache app2" and first: "first_posted testData postObject wsObject"
    and reads: "unmarshal_objects J wsCache = Inr wsObject"
    by blast
  have at2: "attached J False True id c ?pattern app2" "same_json (shown_data J id ?pattern app2) wsCache"
    using synced2 by (auto simp: synced_list_def)
  have star: "star \<in> set ?pattern" by simp
  have peer: "Peer ?pattern ?pattern" by (simp add: Peer_def Match_def)
  obtain app3 where deleted: "delete_event J end_now ?pattern app2 = Some app3" "attached J False True id c ?pattern app3"
      "last_event J c app3 = Some (told J False True end_now (shown_data J id ?pattern app2) (shown_data J id ?pattern app3))"
      "mem_contents J (app_Storage app3) = spec_op (OpDel ?pattern) (mem_contents J (app_Storage app2))"
    using delete_tells [where now = end_now, OF laws(1) at2(1) stream_keys(5) peer disjI1 [OF star]] by blast
  obtain objs2 where objs2: "list_document J (shown_data J id ?pattern app2)"
      "unmarshal_objects J (shown_data J id ?pattern app2) = Inr objs2"
    using attached_list [OF at2(1) star] by blast
  have "objs2 = wsObject" using laws(2) at2(2) objs2(2) reads unfolding same_documents_law_def by auto
  then have some2: "length objs2 \<noteq> 0" using first by (simp add: first_posted_def)
  obtain objs3 where objs3: "list_document J (shown_data J id ?pattern app3)"
      "unmarshal_objects J (shown_data J id ?pattern app3) = Inr objs3" "listed J ?pattern (mem_contents J (app_Storage app3)) objs3"
    using attached_list [OF deleted(2) star] by blast
  have "{k \<in> dom (mem_contents J (app_Storage app3)). Match ?pattern k} = {}"
    using star by (auto simp: deleted(4) restrict_map_def split: if_splits)
  then have none: "length objs3 = 0" using listed_length [OF objs3(3)] by (simp only: card.empty)
  let ?e = "told J False True end_now (shown_data J id ?pattern app2) (shown_data J id ?pattern app3)"
  obtain modified where last: "\<not> MsgSnapshot ?e" "apply_patch J (MsgData ?e) wsCache = Some modified"
      "unmarshal_objects J modified = Inr objs3"
    using list_patch [where now = end_now, OF laws objs2(1) objs3(1) objs2(2) objs3(2) _ at2(2)] some2 none by auto
  have "StreamGlobBroadcastTest J start ts end_now testData app = Some app3"
    using first none unfolding first_posted_def
    by (simp add: StreamGlobBroadcastTest_def dialled(1,4) posts deleted(1,3) last)
  then show ?thesis by blast
qed

section \<open>Servers the checks start\<close>

text \<open>A server with the settings of the checks, not yet started.\<close>

definition unstarted_server :: "'c codec_scheme \<Rightarrow> Server \<Rightarrow> bool" where
  "unstarted_server J app \<longleftrightarrow>
     object_law J \<and> objects_law J \<and> active app \<noteq> 1 \<and> pools (app_Stream app) = [] \<and> 0 \<le> Workers app \<and>
     Audit app = None \<and> stream_OnSubscribe app = None \<and> app_OnSubscribe app = None \<and> \<not> app_Static app \<and>
     NoBroadcastKeys app = [] \<and> app_Storage app = empty_MemoryStorage \<and>
     Write_filters (app_filters app) = [] \<and> Delete_filters (app_filters app) = []"

lemma started_to_check:
  assumes app: "unstarted_server J app" and listen: "listen ''localhost:0'' = Inr bound"
  shows "\<exists>app1. started_server listen app = Some app1 \<and> checked_server J app1 \<and>
    app_filters app1 = app_filters app \<and> NoPatch (app_Stream app1) = app_NoPatch app \<and>
    ForcePatch (app_Stream app1) = app_ForcePatch app"
proof -
  let ?address = "''localhost:0''"
  let ?app1 = "app\<lparr>Address := ?address, active := 0, closing := 0\<rparr>"
  let ?app2 = "(defaults ?app1)\<lparr>routed := True\<rparr>"
  let ?db = "MemoryStorage_Start \<lparr>OptNoBroadcastKeys = []\<rparr> empty_MemoryStorage"
  have ok: "server_ok J app" and idle: "active app \<noteq> 1"
    using app by (simp_all add: unstarted_server_def server_ok_def mem_ok_def empty_MemoryStorage_def)
  obtain app2 where up: "Server_Start listen ?address app = Runs app2" "server_up J app2"
      "watching app2 = watching app + nat (default_int (Workers app) 6)"
      "app_filters app2 = app_filters app" "app_Static app2 = app_Static app" "Audit app2 = default_fn (Audit app) (\<lambda>r. True)"
    using Start_up [where address = ?address and listen = listen, OF ok idle listen] by blast
  have db: "MemoryStorage_Active ?db = Returns True" "mem ?db = []" "watcher ?db = Some []" "noBroadcastKeys ?db = []"
    by (simp_all add: MemoryStorage_Start_def empty_MemoryStorage_def MemoryStorage_Active_def Let_def)
  have "waitListen listen ?app2 = Runs (?app2\<lparr>app_Storage := ?db, serving := True, Address := bound, active := 1\<rparr>)"
    using listen app by (simp add: waitListen_def Let_def defaults_fields unstarted_server_def)
  then have run: "app2 = ?app2\<lparr>app_Storage := ?db, serving := True, Address := bound, active := 1,
        watching := watching app + nat (default_int (Workers app) 6), ticking := Suc (ticking app)\<rparr>"
    using up(1) idle db(1) by (simp add: Server_Start_def Let_def waitStart_def defaults_fields)
  have fields: "app_Storage app2 = ?db" "NoPatch (app_Stream app2) = app_NoPatch app" "ForcePatch (app_Stream app2) = app_ForcePatch app"
    unfolding run by (simp_all add: defaults_fields)
  have stream: "length (pools (app_Stream app2)) = 1" "\<forall>key. OnSubscribe (app_Stream app2) key = None"
    unfolding run using app
    by (simp_all add: unstarted_server_def defaults_def defaults_timing_def defaults_cors_def defaults_callbacks_def
        defaults_stream_def default_fn_def InitClock_def Let_def)
  let ?app3 = "app2\<lparr>app_Storage := MemoryStorage_Clear (app_Storage app2)\<rparr>"
  have clear: "storage_ready J (MemoryStorage_Clear ?db)" "mem_contents J (MemoryStorage_Clear ?db) = Map.empty"
    using Clear_ready [of J ?db] up(2) fields(1) by (auto simp: server_up_def)
  have pending: "mem_pending (MemoryStorage_Clear ?db) = []" "\<not> mem_muted (MemoryStorage_Clear ?db) k" for k
    using db by (simp_all add: MemoryStorage_Clear_def mem_pending_def mem_muted_def)
  have "0 < nat (default_int (Workers app) 6)" using app by (auto simp: unstarted_server_def default_int_def)
  moreover have "open_server ?app3"
    using app up(4,5,6) by (simp add: open_server_def audit_ok_def unstarted_server_def default_fn_def)
  ultimately have "checked_server J ?app3"
    using up(2,3) stream clear pending fields(1)
    unfolding checked_server_def server_up_def Server_Active_def by simp
  moreover have "started_server listen app = Some ?app3" by (simp add: started_server_def up(1))
  ultimately show ?thesis using up(4) fields by (intro exI [of _ ?app3]) simp
qed

text \<open>Subscribing to the list of the checks and posting to it, whatever the read filters make of the list.\<close>

lemma list_post_told:
  fixes J :: "('p, 'c) wire_scheme"
  assumes laws: "wire_laws J same_json" and J: "index_law J" "post_body_law J"
    and at1: "attached J np fp shown c ''test/*'' app" and data: "testData = Encode J raw" "testData \<noteq> ''''"
  shows "\<exists>postObject app1. post_event J (b, n, now) ''test/*'' testData app = Some (postObject, app1) \<and>
    attached J np fp shown c ''test/*'' app1 \<and>
    last_event J c app1 = Some (told J np fp now (shown_data J shown ''test/*'' app) (shown_data J shown ''test/*'' app1))"
proof -
  have "Match ''test/*'' (''test/'' @ FormatInt b 16)" using Match_element FormatInt_plain [of 16 b] by simp
  then have own: "Build b ''test/*'' \<noteq> ''''" "Peer ''test/*'' (Build b ''test/*'')" by (simp_all add: Build_test Peer_def)
  show ?thesis using post_tells [where n = n and now = now, OF laws J at1 stream_keys(3) own data] by blast
qed

lemma filter_test_passes:
  fixes J :: "('p, 'c) wire_scheme"
  assumes laws: "wire_laws J same_json" and J: "index_law J" "post_body_law J"
    and app: "unstarted_server J app" "Read_filters (app_filters app) = []" "\<not> app_NoPatch app"
    and listen: "listen ''localhost:0'' = Inr bound"
    and patch: "CreatePatch J ''extra'' ''extra'' = Inr p" "marshal_patch J p = Inr ''[]''"
    and data: "testData = Encode J raw" "testData \<noteq> ''''"
  shows "\<exists>app'. StreamBroadcastFilterTest listen J clock testData app = Some app'"
proof -
  let ?pattern = "''test/*''" and ?extra = "\<lambda>raw. ''extra''"
  let ?app = "app\<lparr>app_filters := ReadFilter ?pattern (\<lambda>index data. Inr ''extra'') (app_filters app)\<rparr>"
  have "unstarted_server J ?app" using app(1) by (simp add: unstarted_server_def ReadFilter_def)
  from started_to_check [where listen = listen, OF this listen] obtain app1 where
    app1: "started_server listen ?app = Some app1" "checked_server J app1" "app_filters app1 = app_filters ?app"
      "NoPatch (app_Stream app1) = app_NoPatch ?app"
    by blast
  have "\<forall>raw. router_check (Read_filters (app_filters app1)) ?pattern raw False = Inr (?extra raw)"
    using app1(3) app(2) by (simp add: ReadFilter_def router_check_def)
  then have calm: "calm_server J ?extra ?pattern app1"
    using app1(2) by (simp add: checked_server_def calm_server_def)
  have sm: "length (pools (app_Stream app1)) = 1" "OnSubscribe (app_Stream app1) ?pattern = None"
    using app1(2) by (auto simp: checked_server_def)
  have shown: "shown_data J ?extra ?pattern app' = ''extra''" for app' by (simp add: shown_data_def)
  have some: "shown_data J ?extra ?pattern app1 \<noteq> []" by (simp add: shown)
  obtain c app2 e where dialled: "dial J (clock 0) ?pattern app1 = Some (c, app2)"
      "attached J (NoPatch (app_Stream app1)) (ForcePatch (app_Stream app1)) ?extra c ?pattern app2"
      "last_event J c app2 = Some e"
    using dial_attaches [where now = "clock 0", OF laws calm sm stream_keys(5) some] by blast
  obtain postObject app3 where posted: "post_event J (clock 1, clock 2, clock 3) ?pattern testData app2 = Some (postObject, app3)"
      "last_event J c app3 = Some (told J (NoPatch (app_Stream app1)) (ForcePatch (app_Stream app1)) (clock 3) ''extra'' ''extra'')"
    using list_post_told [where b = "clock 1" and n = "clock 2" and now = "clock 3", OF laws J dialled(2) data]
    unfolding shown by blast
  have "strings_Trim ''[]'' newline = ''[]''" by (simp add: strings_Trim_def)
  then have told: "told J (NoPatch (app_Stream app1)) (ForcePatch (app_Stream app1)) (clock 3) ''extra'' ''extra'' =
      \<lparr>MsgData = ''[]'', MsgVersion = FormatInt (clock 3) 16, MsgSnapshot = False\<rparr>"
    using app(3) app1(4) patch by (simp add: told_def Patch_pool_def)
  have "StreamBroadcastFilterTest listen J clock testData app = Some app3"
    by (simp add: StreamBroadcastFilterTest_def app1(1) dialled(1,3) posted told del: One_nat_def)
  then show ?thesis by blast
qed

lemma no_patch_test_passes:
  fixes J :: "('p, 'c) wire_scheme"
  assumes laws: "wire_laws J same_json" and J: "index_law J" "post_body_law J"
    and app: "unstarted_server J app" "Read_filters (app_filters app) = []"
    and listen: "listen ''localhost:0'' = Inr bound"
    and data: "testData = Encode J raw" "testData \<noteq> ''''"
  shows "\<exists>app'. StreamBroadcastNoPatchTest listen J clock testData app = Some app'"
proof -
  let ?pattern = "''test/*''"
  let ?app = "app\<lparr>app_NoPatch := True\<rparr>"
  have "unstarted_server J ?app" using app(1) by (simp add: unstarted_server_def)
  from started_to_check [where listen = listen, OF this listen] obtain app1 where
    app1: "started_server listen ?app = Some app1" "checked_server J app1" "app_filters app1 = app_filters ?app"
      "NoPatch (app_Stream app1)"
    by auto
  have filters: "Read_filters (app_filters app1) = []" using app1(3) app(2) by simp
  have sm: "length (pools (app_Stream app1)) = 1" "OnSubscribe (app_Stream app1) ?pattern = None"
    using app1(2) by (auto simp: checked_server_def)
  have some: "shown_data J id ?pattern app1 \<noteq> []" by (simp add: shown_data_def)
  obtain c app2 e2 where dialled: "dial J (clock 0) ?pattern app1 = Some (c, app2)"
      "attached J (NoPatch (app_Stream app1)) (ForcePatch (app_Stream app1)) id c ?pattern app2"
      "last_event J c app2 = Some e2" "MsgSnapshot e2"
    using dial_attaches [where now = "clock 0", OF laws checked_calm [OF app1(2) filters] sm stream_keys(5) some] by fastforce
  have at2: "attached J True (ForcePatch (app_Stream app1)) id c ?pattern app2" using dialled(2) app1(4) by simp
  have snapshot: "MsgSnapshot (told J True fp now doc doc')" for fp now doc doc' by (simp add: told_def Patch_pool_def)
  obtain postObject3 app3 e3 where posted3: "post_event J (clock 1, clock 2, clock 3) ?pattern testData app2 = Some (postObject3, app3)"
      "attached J True (ForcePatch (app_Stream app1)) id c ?pattern app3" "last_event J c app3 = Some e3" "MsgSnapshot e3"
    using list_post_told [where b = "clock 1" and n = "clock 2" and now = "clock 3", OF laws J at2 data] snapshot by blast
  obtain postObject4 app4 e4 where posted4: "post_event J (clock 4, clock 5, clock 6) ?pattern testData app3 = Some (postObject4, app4)"
      "last_event J c app4 = Some e4" "MsgSnapshot e4"
    using list_post_told [where b = "clock 4" and n = "clock 5" and now = "clock 6", OF laws J posted3(2) data] snapshot by blast
  have "StreamBroadcastNoPatchTest listen J clock testData app = Some app4"
    by (simp add: StreamBroadcastNoPatchTest_def app1(1) dialled posted3 posted4 del: One_nat_def)
  then show ?thesis by blast
qed

end
