(* ===== verification/SuiteProperties.thy ===== *)
theory SuiteProperties
  imports StreamChecks
begin

text \<open>
  The default server passes the checks of \<^verbatim>\<open>storageTest.go\<close> and \<^verbatim>\<open>streamTest.go\<close> that need a server.
\<close>

section \<open>The codec of the instances\<close>

lemma quote_split: "quote \<notin> set s \<Longrightarrow> strings_Split (s @ quote # t) quote = s # strings_Split t quote"
  by (rule strings_Split_sep)

lemma ref_index_law: "index_law ref_wire"
  unfolding index_law_def
proof (intro allI impI)
  fix index
  assume "json_safe index"
  then have no: "quote \<notin> set index" by (rule json_safe_no_quote)
  have whole: "index_body index = ''{'' @ quote # ''index'' @ quote # '': '' @ quote # index @ quote # ''}''"
    by (simp add: index_body_def)
  have "strings_Split (index_body index) quote = [''{'', ''index'', '': '', index, ''}'']"
    unfolding whole using no
    by (simp add: quote_split strings_Split_no_sep del: append_Cons append_assoc append_Nil strings_Split.simps)
  moreover have "strings_Trim (index_body index) newline = index_body index"
    by (rule strings_Trim_id) (simp add: index_body_def)
  ultimately have "DecodeRaw ref_wire (index_body index) = Inr \<lparr>Created = 0, Updated = 0, Index = index, Data = ''''\<rparr>"
    by (simp add: DecodeRaw_def ref_wire_def ref_unmarshal_object_def)
  then show "\<exists>obj. DecodeRaw ref_wire (index_body index) = Inr obj \<and> Index obj = index" by simp
qed

lemma ref_post_body_law: "post_body_law ref_wire"
  unfolding post_body_law_def
proof (intro allI impI)
  fix data
  assume "json_safe data"
  then have no: "quote \<notin> set data" by (rule json_safe_no_quote)
  have whole: "data_body data = ''{'' @ quote # ''data'' @ quote # '':'' @ quote # data @ quote # ''}''"
    by (simp add: data_body_def)
  have "strings_Split (data_body data) quote = [''{'', ''data'', '':'', data, ''}'']"
    unfolding whole using no
    by (simp add: quote_split strings_Split_no_sep del: append_Cons append_assoc append_Nil strings_Split.simps)
  then show "\<exists>m. decoder_message ref_wire (data_body data) = Inr m \<and> MsgData m = data"
    by (simp add: ref_wire_def ref_unmarshal_message_def)
qed

lemma ref_same_documents_law: "same_documents_law ref_wire trimmed_equal"
  unfolding same_documents_law_def trimmed_equal_def
  using ref_unmarshal_object_Trim by (simp add: ref_wire_def) metis

lemma ref_made_patches_law: "made_patches_law ref_wire"
  by (simp add: made_patches_law_def ref_wire_def)

lemma ref_repeated_patch_law: "repeated_patch_law ref_wire trimmed_equal"
  unfolding repeated_patch_law_def
  by (auto simp: ref_wire_def trimmed_equal_def ref_decode_marshal)

lemma encode_braces: "EncodeToString ''{}'' = ''e30=''"
  by code_simp

lemma decode_testpost: "DecodeString ''testpost'' \<noteq> None"
  by code_simp

section \<open>The checks\<close>

text \<open>
  C30: the default server passes the checks of subscriptions. A server with the settings of the checks (patches
  whatever their length, no audit, no filters, nothing muted), started and cleared, passes the checks on one
  document, on one document deleted by a pattern, and on a list that is posted to any number of times, each
  time later and with a key of its own; the server of the check on filters sends an empty patch when the
  filtered data has not changed, and the one without patches sends snapshots only.
\<close>

theorem stream_checks_pass:
  fixes J :: "('p, 'c) wire_scheme"
  assumes laws: "wire_laws J same_json" "same_documents_law J same_json" "made_patches_law J" "repeated_patch_law J same_json"
    and J: "empty_law J" "index_law J" "post_body_law J"
    and app: "unstarted_server J app" "Read_filters (app_filters app) = []" "\<not> app_NoPatch app" "app_ForcePatch app"
    and listen: "listen ''localhost:0'' = Inr bound"
    and extra: "CreatePatch J ''extra'' ''extra'' = Inr p" "marshal_patch J p = Inr ''[]''"
    and times: "ts \<noteq> []" "successive ts"
    and data: "testData = Encode J raw" "testData \<noteq> ''''"
  shows "\<exists>app1. started_server listen app = Some app1 \<and>
    (\<exists>app'. StreamBroadcastTest J clock testData app1 = Some app') \<and>
    (\<exists>app'. StreamItemGlobBroadcastTest J clock testData app1 = Some app') \<and>
    (\<exists>app'. StreamGlobBroadcastTest J start ts end_now testData app1 = Some app') \<and>
    (\<exists>app'. StreamBroadcastFilterTest listen J clock testData app = Some app') \<and>
    (\<exists>app'. StreamBroadcastNoPatchTest listen J clock testData app = Some app')"
proof -
  obtain app1 where app1: "started_server listen app = Some app1" "checked_server J app1"
      "app_filters app1 = app_filters app" "NoPatch (app_Stream app1) = app_NoPatch app"
      "ForcePatch (app_Stream app1) = app_ForcePatch app"
    using started_to_check [where listen = listen, OF app(1) listen] by blast
  then have patching: "Read_filters (app_filters app1) = []" "\<not> NoPatch (app_Stream app1)" "ForcePatch (app_Stream app1)"
    using app by simp_all
  show ?thesis
    using app1(1) broadcast_test_passes [OF laws J app1(2) patching data]
      item_glob_broadcast_test_passes [OF laws J app1(2) patching data]
      glob_broadcast_test_passes [OF laws(1-3) J(2,3) app1(2) patching times data]
      filter_test_passes [where listen = listen, OF laws(1) J(2,3) app(1-3) listen extra data]
      no_patch_test_passes [where listen = listen, OF laws(1) J(2,3) app(1,2) listen data]
    by blast
qed

theorem stream_checks_pass_witness:
  "\<exists>app1. started_server Inr (zero_Server\<lparr>app_ForcePatch := True\<rparr>) = Some app1 \<and>
    (\<exists>app'. StreamBroadcastTest ref_wire word_of_nat ''e30='' app1 = Some app') \<and>
    (\<exists>app'. StreamItemGlobBroadcastTest ref_wire word_of_nat ''e30='' app1 = Some app') \<and>
    (\<exists>app'. StreamGlobBroadcastTest ref_wire 0 [(1, 2, 3), (4, 5, 6), (7, 8, 9)] 10 ''e30='' app1 = Some app') \<and>
    (\<exists>app'. StreamBroadcastFilterTest Inr ref_wire word_of_nat ''e30='' (zero_Server\<lparr>app_ForcePatch := True\<rparr>) = Some app') \<and>
    (\<exists>app'. StreamBroadcastNoPatchTest Inr ref_wire word_of_nat ''e30='' (zero_Server\<lparr>app_ForcePatch := True\<rparr>) = Some app')"
proof -
  let ?app = "zero_Server\<lparr>app_ForcePatch := True\<rparr>"
  have app: "unstarted_server ref_wire ?app" "Read_filters (app_filters ?app) = []" "\<not> app_NoPatch ?app" "app_ForcePatch ?app"
    by (simp_all add: unstarted_server_def zero_Server_def zero_Stream_def ref_object_law ref_objects_law)
  have extra: "CreatePatch ref_wire ''extra'' ''extra'' = Inr None" "marshal_patch ref_wire None = Inr ''[]''"
    by (simp_all add: ref_wire_def trimmed_equal_def ref_marshal_patch_def)
  have times: "[(1, 2, 3), (4, 5, 6), (7, 8, 9 :: int64)] \<noteq> []" "successive [(1, 2, 3), (4, 5, 6), (7, 8, 9)]" by simp_all
  have data: "''e30='' = Encode ref_wire ''{}''" "''e30='' \<noteq> ''''"
    using encode_braces by (simp_all add: Encode_def ref_wire_def)
  have listen: "Inr ''localhost:0'' = Inr ''localhost:0''" by simp
  from stream_checks_pass [where listen = Inr and clock = word_of_nat and start = 0 and end_now = 10,
      OF ref_wire_laws ref_same_documents_law ref_made_patches_law ref_repeated_patch_law ref_empty_law ref_index_law
        ref_post_body_law app listen extra times data]
  show ?thesis by blast
qed

theorem list_test_passes_witness:
  "\<exists>app'. StorageListTest id ref_wire word_of_nat ''e30='' example_server = Some app'"
proof -
  have ready: "storage_ready ref_wire (app_Storage example_server)"
    using fresh_storage_ready by (simp add: example_server_value)
  have open_app: "open_server example_server" by (simp add: open_server_def example_server_value)
  have body: "DecodeReader ref_wire posted_body = Inr \<lparr>MsgData = ''testpost'', MsgVersion = '''', MsgSnapshot = False\<rparr>"
    using decode_testpost by (auto simp: DecodeReader_def ref_wire_def ref_unmarshal_message_def)
  have safe: "json_safe (MsgData \<lparr>MsgData = ''testpost'', MsgVersion = '''', MsgSnapshot = False\<rparr>)" "json_safe ''e30=''"
    by (simp_all add: json_safe_char_def)
  have keys: "marshal_stats ref_wire [''test/123'', ''test/456''] = Inr keys_body"
    by (simp add: ref_wire_def keys_text_def)
  have "FormatInt (word_of_nat 2) 16 = ''2''" by (simp add: FormatInt_def format_nat.simps digit_chars_def)
  then have new: "FormatInt (word_of_nat 2) 16 \<noteq> ''123''" "FormatInt (word_of_nat 2) 16 \<noteq> ''456''" by simp_all
  show ?thesis
    by (rule list_test_passes [where clock = word_of_nat, OF ready open_app ref_index_law body safe(1) keys safe(2) new])
qed

end
