(* ===== verification/Spec2Isabelle.thy ===== *)
theory Spec2Isabelle
  imports Prelude GoStrings GoStrconv GoGlob GlobSpec Key Objects Messages Filters Storage Memory MemoryRefines MemoryQueries Stream StreamFacts StreamContract Subscription Base64 RefCodec Server Rest ServerFacts System Convergence KeyProperties StorageProperties StreamProperties ServerProperties
    Overtaking Threads ThreadFacts ThreadFresh ThreadProgress ThreadSync ThreadProperties StoredTypes Client ClientMultiple ClientProperties TypedIO IoProperties StorageSuite ServerSuite StreamSuite StreamSuiteFacts StreamChecks SuiteProperties
begin

text \<open>
  A verification development of Katamari, a service that stores JSON documents under slash separated keys
  and keeps the subscribers of a key, or of a pattern with stars, up to date over websockets.

  \<^bold>\<open>The program.\<close> A request goes through a handler (\<^verbatim>\<open>rest.go\<close>, \<^verbatim>\<open>ws.go\<close>, \<^verbatim>\<open>clock.go\<close>),
  which checks the key (\<^verbatim>\<open>key\<close>), asks the audit and the filters (\<^verbatim>\<open>filters.go\<close>) and calls the storage
  (\<^verbatim>\<open>storage.go\<close>, \<^verbatim>\<open>memory.go\<close>). A write or delete puts an event on the watch channel of the storage;
  the workers of the server (\<^verbatim>\<open>katamari.go\<close>) take the events and broadcast to the pools whose key covers
  or is covered by the event's (\<^verbatim>\<open>stream\<close>), each with a patch against the cache of the pool or a snapshot
  (\<^verbatim>\<open>messages\<close>, \<^verbatim>\<open>objects\<close>). A subscriber applies the messages to its own document (\<^verbatim>\<open>client\<close>).
  \<^verbatim>\<open>io\<close> gives typed access, in the process or over HTTP.

  \<^bold>\<open>Theories.\<close>
  \<^item> \<open>Prelude\<close>: bytes, 64 bit integers, errors, outcomes (a call returns, panics or blocks), sorting.
  \<^item> \<open>GoStrings\<close>, \<open>GoStrconv\<close>, \<open>GoGlob\<close>, \<open>Base64\<close>: the functions of Go's standard library the
    program uses, with their round trips. \<open>GlobSpec\<close> says what a star pattern means, as an inductive relation,
    and that the matcher decides it.
  \<^item> \<open>Key\<close> (\<^verbatim>\<open>key/key.go\<close>), \<open>Objects\<close> (\<^verbatim>\<open>objects/objects.go\<close>), \<open>Messages\<close>
    (\<^verbatim>\<open>messages/messages.go\<close>), \<open>Filters\<close> (\<^verbatim>\<open>filters.go\<close>).
  \<^item> \<open>Storage\<close> (\<^verbatim>\<open>storage.go\<close>): the contract of a storage, as the locale \<open>database\<close> over an
    observation of it as a map. \<open>Memory\<close> (\<^verbatim>\<open>memory.go\<close>) is the default storage; \<open>MemoryRefines\<close>
    interprets the contract on it, \<open>MemoryQueries\<close> has its listings and life cycle.
  \<^item> \<open>Stream\<close> (\<^verbatim>\<open>stream/stream.go\<close>, \<^verbatim>\<open>stream/clock.go\<close>): pools, connections, caches, broadcasts.
    \<open>StreamFacts\<close> has its invariant, \<open>StreamContract\<close> the contract every operation meets (the locale
    \<open>stream_operation\<close>, interpreted on each), \<open>Subscription\<close> the effect of a broadcast and of a history
    of calls on a subscriber.
  \<^item> \<open>Server\<close> (\<^verbatim>\<open>katamari.go\<close>, \<^verbatim>\<open>clock.go\<close>) and \<open>Rest\<close> (\<^verbatim>\<open>rest.go\<close>,
    \<^verbatim>\<open>ws.go\<close>): settings, life cycle, workers and handlers. \<open>ServerFacts\<close> says what each does on each
    branch. \<open>System\<close> is the running server as a step relation with its invariants by rule induction;
    \<open>Convergence\<close> follows one subscriber through it.
  \<^item> \<open>Threads\<close> (\<^verbatim>\<open>rest.go\<close>, \<^verbatim>\<open>ws.go\<close>, \<^verbatim>\<open>katamari.go\<close>, \<^verbatim>\<open>memory.go\<close>,
    \<^verbatim>\<open>stream.go\<close>): the same handlers and workers as goroutines, program counters whose turns end at the next
    access of shared state, with the locks of the stream and its pools. \<open>ThreadFacts\<close> says that an uninterrupted goroutine
    does what its handler does, \<open>ThreadFresh\<close> has the invariant of the caches for every interleaving,
    \<open>ThreadProgress\<close> that the turns end and what the locks keep, \<open>ThreadSync\<close> the subscriber.
  \<^item> \<open>StoredTypes\<close>: what is stored decodes to objects with the index of their key.
  \<^item> \<open>Client\<close> (\<^verbatim>\<open>client/subscribe.go\<close>) and \<open>ClientMultiple\<close>
    (\<^verbatim>\<open>client/subscribeMultiple.go\<close>): the loops of a subscription as machines over the events of the network;
    each channel of the second is an interpretation of the locale \<open>slot\<close>.
  \<^item> \<open>TypedIO\<close> (\<^verbatim>\<open>io/local.go\<close>, \<^verbatim>\<open>io/remote.go\<close>).
  \<^item> \<open>StorageSuite\<close>, \<open>ServerSuite\<close> (\<^verbatim>\<open>storageTest.go\<close>) and \<open>StreamSuite\<close>
    (\<^verbatim>\<open>streamTest.go\<close>): the checks a storage and its server have to pass, as programs in the option
    monad. \<open>StreamSuiteFacts\<close> says which messages a subscription brings in them, and \<open>StreamChecks\<close> that
    the default server passes those on subscriptions.
  \<^item> \<open>RefCodec\<close>: one concrete codec that meets every law assumed of the packages outside the repository.
  \<^item> \<open>KeyProperties\<close>, \<open>StorageProperties\<close>, \<open>StreamProperties\<close>, \<open>ServerProperties\<close>,
    \<open>Overtaking\<close>, \<open>ThreadProperties\<close>, \<open>StoredTypes\<close>, \<open>ClientProperties\<close>, \<open>IoProperties\<close>, \<open>StorageSuite\<close>,
    \<open>ServerSuite\<close>, \<open>SuiteProperties\<close> and this theory: the properties, each with a claim id and, where it
    has a hypothesis, an instance on a concrete input. Here are those of the whole server.

  \<^bold>\<open>State and operations.\<close> A struct is a record with the fields of the source, a method a function that
  takes the state and returns the new one, an error a value of a sum or option type, a nil dereference or an
  index out of range a \<open>Panics\<close>, a wait for ever \<open>Blocks\<close>. The clock is an argument (\<open>now\<close>,
  \<open>build_now\<close>, \<open>set_now\<close>). Integers are 64 bit words where they are stored or compared as such, and
  unbounded for counters and durations. A \<^verbatim>\<open>sync.Map\<close> is an association list whose order is the visiting
  order; the answers are proved not to depend on it.

  \<^bold>\<open>Parameters and laws.\<close> JSON, the patch package and the base64 package are the fields of \<open>codec\<close> and
  \<open>wire\<close>. What the program relies on is \<open>object_law\<close>, \<open>objects_law\<close>, \<open>base64_law\<close> (in
  \<open>Objects\<close>), \<open>message_law\<close>, \<open>patch_law\<close> (in \<open>Messages\<close> and \<open>Subscription\<close>), \<open>empty_law\<close>
  and \<open>objects_not_empty_law\<close> (in \<open>ServerProperties\<close>), \<open>std_base64_law\<close> and \<open>body_law\<close> (in
  \<open>IoProperties\<close>), \<open>index_law\<close> (in \<open>ServerSuite\<close>), \<open>post_body_law\<close> (in \<open>StreamSuiteFacts\<close>) and,
  of the patches, \<open>same_documents_law\<close>, \<open>made_patches_law\<close> and \<open>repeated_patch_law\<close> (in \<open>StreamChecks\<close>): texts made of characters JSON writes unescaped come back, a created patch applied to
  the old document gives the new one. \<open>same_json\<close> is equality of documents up to formatting.

  \<^bold>\<open>Steps.\<close> The server is modelled at two grains. In \<open>System\<close> a handler, a turn of a worker, a tick and a
  spawned call are one step each, in any order. In \<open>Threads\<close> a goroutine is interrupted between any two
  accesses of shared state: the map of the storage (one \<^verbatim>\<open>Load\<close>, \<^verbatim>\<open>Store\<close>, \<^verbatim>\<open>Delete\<close> or \<^verbatim>\<open>Range\<close> each),
  the watch channel, and the critical sections of the stream; a broadcast keeps the read lock of the stream from its first
  pool to its last, and the lock of a pool from the reading of its data to the end of its messages. The handler of the clock, the
  end of a read, a tick and a spawned write are one such access. The first grain is the second without interruption
  (\<open>handlers_are_turns\<close>). What holds of the caches and of subscribers at the first grain holds at the second if
  no write falls between the reading of data by a \<^verbatim>\<open>Refresh\<close> and the filling of its cache (\<open>calm\<close>); without that
  it does not (\<open>refresh_overwrites_news\<close>). The watch
  channel is the list of the values sent and not received: in the program a sender also waits until its value is taken, which only
  delays its answer, and at rest with a worker nothing is left in the list. A subscription handler returns where it starts
  reading, and \<open>hangup\<close> is the end of its read. What the environment keeps to is \<open>benign\<close> (stored texts
  are such that JSON writes them unescaped, and a deleted pattern does not cross a pool's) and \<open>undisturbed\<close>
  (the subscriber in question stays connected).

  \<^bold>\<open>Bounds.\<close> No fuel is used: every recursion is structural or has a measure (the matcher's backtracking,
  the digits of a number), and loops that wait are machines over the events they wait for.

  \<^bold>\<open>What is shown.\<close> A matcher that decides its specification; a storage that refines a map, with its
  events; a stream that keeps its invariant over all histories and never lets a subscriber's document diverge
  from its pool's; a server that stays up, whose caches are fresh once the events are taken, which the workers
  can always do, whatever the interleaving of its goroutines; handlers that read back what they wrote, forget what they deleted and change nothing when they
  refuse; a client that has the server's document, with its retries and its end; and typed access that reads
  back what it wrote. The checks the repository has for any storage and server are passed by the default ones, for every text and
  time they could be run with. The defects found are stated as theorems too: a first message that overtakes the news, a refresh that overwrites it, a
  delete that crosses a subscription, a subscription refused after its upgrade, the end of a context that is missed, a connection that leaks, a
  refused write reported as done.

  \<^bold>\<open>Not modelled.\<close> Console output and logging; the HTTP server, TLS, compression, the router, CORS and
  timeouts (\<^verbatim>\<open>net/http\<close>, \<^verbatim>\<open>gorilla\<close>); signals beyond their arrival; the default HTTP client of the server;
  the text of \<^verbatim>\<open>TEST_DATA\<close>, an argument of the checks; and \<^verbatim>\<open>fuzz.go\<close>, an entry point for
  a fuzzer that names storages and methods the repository does not have.
\<close>

section \<open>The whole server\<close>







text \<open>
  C36: a delete that crosses a subscription is not seen by it. A delete of \<^verbatim>\<open>a/*/c\<close> that passes
  its guards removes the stored \<^verbatim>\<open>a/b/c\<close>, which \<^verbatim>\<open>a/b/*\<close> lists; but neither pattern covers
  the other, so that the broadcast of its event leaves the pool of \<^verbatim>\<open>a/b/*\<close>, its cache and its
  connections as they were.
\<close>

theorem crossing_delete_unseen:
  fixes J :: "('p, 'c) wire_scheme"
  assumes up: "server_up J app" and r: "req_key r = ''a/*/c''" "audit_ok app r"
      "hooks_check (Delete_filters (app_filters app)) (req_key r) (app_Static app) = None"
    and i: "0 < i" "i < length (pools (app_Stream app))" "PoolKey (pools (app_Stream app) ! i) = ''a/b/*''"
      "c \<in> set (connections (pools (app_Stream app) ! i))"
    and muted: "\<not> mem_muted (app_Storage app) ''a/*/c''"
  shows "\<exists>app1. unpublish r app = Returns (Reply 204 None (''unpublish '' @ ''a/*/c''), app1) \<and>
    Match ''a/b/*'' ''a/b/c'' \<and> mem_contents J (app_Storage app1) ''a/b/c'' = None \<and>
    mem_pending (app_Storage app1) = mem_pending (app_Storage app) @ [\<lparr>EvKey = ''a/*/c'', EvOperation = ''del''\<rparr>] \<and>
    pools (app_Stream (watch_event J now \<lparr>EvKey = ''a/*/c'', EvOperation = ''del''\<rparr> app1)) ! i =
      pools (app_Stream app) ! i \<and>
    sockets (app_Stream (watch_event J now \<lparr>EvKey = ''a/*/c'', EvOperation = ''del''\<rparr> app1)) c =
      sockets (app_Stream app) c"
proof -
  have ready: "storage_ready J (app_Storage app)" and ok: "stream_ok (app_Stream app)"
    using up by (auto simp: server_up_def)
  have valid: "IsValid (req_key r)" unfolding r(1) by code_simp
  have star: "star \<in> set ''a/*/c''" by simp
  have m: "Match ''a/b/*'' ''a/b/c''" "Match ''a/*/c'' ''a/b/c''" "\<not> Peer ''a/b/*'' ''a/*/c''"
    by code_simp+
  obtain db where db: "unpublish r app = Returns (Reply 204 None (''unpublish '' @ ''a/*/c''), app\<lparr>app_Storage := db\<rparr>)"
      "mem_contents J db = spec_op (OpDel ''a/*/c'') (mem_contents J (app_Storage app))"
      "mem_pending db = mem_pending (app_Storage app) @
        spec_event (mem_muted (app_Storage app)) (OpDel ''a/*/c'') (mem_contents J (app_Storage app))"
    using unpublish_deletes [OF ready valid r(2,3)] unfolding r(1) by auto
  let ?app1 = "app\<lparr>app_Storage := db\<rparr>"
  have w: "app_Stream (watch_event J now \<lparr>EvKey = ''a/*/c'', EvOperation = ''del''\<rparr> ?app1) =
      Broadcast J now (broadcast_opt J ?app1) ''a/*/c'' (app_Stream app)"
    by (simp add: watch_event_def)
  have "mem_contents J db ''a/b/c'' = None" using m(2) by (simp add: db(2) restrict_map_def)
  moreover have "mem_pending db = mem_pending (app_Storage app) @ [\<lparr>EvKey = ''a/*/c'', EvOperation = ''del''\<rparr>]"
    using muted by (simp add: db(3))
  moreover have "pools (Broadcast J now (broadcast_opt J ?app1) ''a/*/c'' (app_Stream app)) ! i = pools (app_Stream app) ! i"
    using Broadcast_pool [OF ok i(2), of J now "broadcast_opt J ?app1" "''a/*/c''"] i(1,3) m(3) by (simp add: pool_after_def split: sum.split)
  moreover have "sockets (Broadcast J now (broadcast_opt J ?app1) ''a/*/c'' (app_Stream app)) c = sockets (app_Stream app) c"
    using Broadcast_socket [OF ok i(2,1,4), of J now "broadcast_opt J ?app1" "''a/*/c''"] i(3) m(3)
    by (simp add: pool_frame_def deliver_option_def split: sum.split)
  ultimately show ?thesis using db(1) m(1) by (intro exI [of _ ?app1]) (simp add: w)
qed

theorem crossing_delete_unseen_witness:
  "\<exists>app app1. mem_contents ref_wire (app_Storage app) ''a/b/c'' \<noteq> None \<and>
    PoolKey (pools (app_Stream app) ! 1) = ''a/b/*'' \<and>
    (\<exists>answer. unpublish (example_publish\<lparr>req_key := ''a/*/c''\<rparr>) app = Returns (answer, app1)) \<and>
    mem_contents ref_wire (app_Storage app1) ''a/b/c'' = None \<and>
    pools (app_Stream (watch_event ref_wire (\<lambda>i. 7) \<lparr>EvKey = ''a/*/c'', EvOperation = ''del''\<rparr> app1)) ! 1 =
      pools (app_Stream app) ! 1"
proof -
  have "storable ''a/b/c'' ''e30=''" using storable_example by (simp add: storable_def json_safe_char_def)
  then obtain db where db: "storage_ready ref_wire db"
      "mem_contents ref_wire db = spec_op (OpSet 5 ''a/b/c'' ''e30='') (mem_contents ref_wire fresh_storage)"
      "mem_muted db = mem_muted fresh_storage"
    using memory.set_spec [OF fresh_storage_ready, of "''a/b/c''" "''e30=''" 5] by auto
  let ?sm = "snd (Stream_new ''a/b/*'' (app_Stream example_server))"
  let ?app = "example_server\<lparr>app_Storage := db, app_Stream := ?sm\<rparr>"
  let ?r = "example_publish\<lparr>req_key := ''a/*/c''\<rparr>"
  have sm: "pools ?sm = [\<lparr>PoolKey = '''', cache = zero_Cache, connections = []\<rparr>,
      \<lparr>PoolKey = ''a/b/*'', cache = zero_Cache, connections = [0]\<rparr>]"
    by (simp add: Stream_new_def Let_def findPool_def example_server_value)
  have up: "server_up ref_wire ?app"
    using example_server_up db(1) new_ok [of "app_Stream example_server" "''a/b/*''"]
    by (simp add: server_up_def Server_Active_def)
  have r: "req_key ?r = ''a/*/c''" "audit_ok ?app ?r"
      "hooks_check (Delete_filters (app_filters ?app)) (req_key ?r) (app_Static ?app) = None"
    by (simp_all add: audit_ok_def example_server_value hooks_check_def)
  have i: "0 < (1 :: nat)" "1 < length (pools (app_Stream ?app))" "PoolKey (pools (app_Stream ?app) ! 1) = ''a/b/*''"
      "0 \<in> set (connections (pools (app_Stream ?app) ! 1))"
    by (simp_all add: sm)
  have muted: "\<not> mem_muted (app_Storage ?app) ''a/*/c''" by (simp add: db(3))
  have there: "mem_contents ref_wire (app_Storage ?app) ''a/b/c'' \<noteq> None" by (simp add: db(2))
  from crossing_delete_unseen [OF up r i muted, of "\<lambda>i. 7"] show ?thesis
    using there i(3) by blast
qed

end
